(* ===== verification/Prelude.thy ===== *)
theory Prelude
  imports Main "HOL-Library.Word" "HOL-Library.Monad_Syntax"
begin

text \<open>
  Shared vocabulary of the ZeOS development: the fixed-width integer types of
  \<^verbatim>\<open>include/types.h\<close>, the memory-layout constants of
  \<^verbatim>\<open>include/mm_address.h\<close> and \<^verbatim>\<open>include/sched.h\<close>, the collections of
  rewrite rules the component theories extend, and generic lemmas on words, lists
  and option-valued programs.

  A kernel routine that can dereference a bad pointer, touch an unmapped page or
  write past a local array is a function into \<open>option\<close>: \<open>None\<close> stands for the
  page fault (whose service routine never returns) or for undefined behaviour.
\<close>

unbundle bit_operations_syntax

section \<open>Machine types\<close>

type_synonym Byte = "8 word"
type_synonym Word16 = "16 word"
type_synonym DWord = "32 word"

text \<open>The C \<^verbatim>\<open>int\<close> is a 32-bit word read with \<^const>\<open>sint\<close>.\<close>

type_synonym cint = "32 word"

section \<open>Collections of rewrite rules\<close>

named_theorems zeos_consts \<open>values of the memory-layout constants\<close>
named_theorems layout_simps \<open>address arithmetic on the linked image\<close>
named_theorems frame_simps \<open>fields an operation leaves alone\<close>

section \<open>Constants\<close>

definition ENTRY_DIR_PAGES :: nat where [zeos_consts]: "ENTRY_DIR_PAGES = 0"
definition TOTAL_PAGES :: nat where [zeos_consts]: "TOTAL_PAGES = 1024"
definition NUM_PAG_KERNEL :: nat where [zeos_consts]: "NUM_PAG_KERNEL = 256"
definition NUM_PAG_CODE :: nat where [zeos_consts]: "NUM_PAG_CODE = 8"
definition NUM_PAG_DATA :: nat where [zeos_consts]: "NUM_PAG_DATA = 20"
definition PAGE_SIZE :: nat where [zeos_consts]: "PAGE_SIZE = 0x1000"
definition L_USER_START :: nat where [zeos_consts]: "L_USER_START = 0x100000"
definition PAG_LOG_INIT_DATA :: nat where
  [zeos_consts]: "PAG_LOG_INIT_DATA = L_USER_START div 2 ^ 12"
definition PAG_LOG_INIT_CODE :: nat where
  [zeos_consts]: "PAG_LOG_INIT_CODE = PAG_LOG_INIT_DATA + NUM_PAG_DATA"
definition USER_FIRST_PAGE :: nat where
  [zeos_consts]: "USER_FIRST_PAGE = L_USER_START div 2 ^ 12"
definition USER_ESP :: DWord where
  [zeos_consts]: "USER_ESP = of_nat L_USER_START + of_nat NUM_PAG_DATA * 0x1000 - 16"
definition KERNEL_START :: DWord where [zeos_consts]: "KERNEL_START = 0x10000"
definition NR_TASKS :: nat where [zeos_consts]: "NR_TASKS = 10"
definition KERNEL_STACK_SIZE :: nat where [zeos_consts]: "KERNEL_STACK_SIZE = 1024"

section \<open>Words\<close>

lemma unat_of_nat32 [simp]: "n < 2 ^ 32 \<Longrightarrow> unat (of_nat n :: 32 word) = n"
  by (simp add: unat_of_nat take_bit_nat_eq_self)

lemma unat_lt32: "unat (x :: 32 word) < 4294967296"
proof -
  have "unat x < 2 ^ LENGTH(32)" by (rule unsigned_less)
  then show ?thesis by simp
qed

lemma unat_add32: "unat a + unat b < 2 ^ 32 \<Longrightarrow> unat (a + b :: 32 word) = unat a + unat b"
  by (simp add: unat_word_ariths)

lemma sint_of_nat32 [simp]: "n < 2 ^ 31 \<Longrightarrow> sint (of_nat n :: 32 word) = int n"
  by (simp add: signed_of_nat signed_take_bit_int_eq_self)

lemma sint_add_small:
  "0 \<le> sint x \<Longrightarrow> sint x + int n < 2 ^ 31 \<Longrightarrow> sint (x + of_nat n :: 32 word) = sint x + int n"
  by (simp add: sint_word_ariths signed_take_bit_int_eq_self)

lemma unat_shift_window:
  assumes "n + m \<le> 2 ^ 32"
  shows "unat (d - of_nat n :: 32 word) < m \<longleftrightarrow> n \<le> unat d \<and> unat d < n + m"
proof (cases "m = 0")
  case False
  with assms have n: "unat (of_nat n :: 32 word) = n" by (intro unat_of_nat32) simp
  show ?thesis
    using assms unat_lt32 [of d] unfolding unat_sub_if' n by auto
qed simp

section \<open>Options\<close>

lemma bind_Some_iff: "(Option.bind x f = Some r) = (\<exists>y. x = Some y \<and> f y = Some r)"
  by (cases x) auto

section \<open>Lists\<close>

lemma in_set_split: "x \<in> set xs \<Longrightarrow> \<exists>ys zs. xs = ys @ x # zs \<and> x \<notin> set ys"
  by (rule split_list_first)

lemma remove1_split: "x \<notin> set ys \<Longrightarrow> remove1 x (ys @ x # zs) = ys @ zs"
  by (simp add: remove1_append)

lemma last_notin_butlast: "distinct zs \<Longrightarrow> q \<in> set (butlast zs) \<Longrightarrow> q \<noteq> last zs"
  by (cases zs rule: rev_cases) auto

end
