(* ===== verification/Types_H.thy ===== *)
theory Types_H
  imports Prelude
begin

text \<open>
  \<^verbatim>\<open>include/types.h\<close> and \<^verbatim>\<open>include/segment.h\<close>: the address-splitting
  macros, segment descriptors, interrupt gates, the task state segment, and the
  page-table entry, which the C code reads both as a 32-bit integer and as a
  struct of bit-fields. Bit-fields are laid out from the least significant bit,
  as GCC does for i386.
\<close>

section \<open>Splitting addresses\<close>

definition highWord :: "DWord \<Rightarrow> Word16" where
  "highWord address = ucast (drop_bit 16 address AND 0xFFFF)"

definition lowWord :: "DWord \<Rightarrow> Word16" where
  "lowWord address = ucast (address AND 0xFFFF)"

definition midByte :: "DWord \<Rightarrow> Byte" where
  "midByte address = ucast (drop_bit 16 address AND 0xFF)"

definition highByte :: "DWord \<Rightarrow> Byte" where
  "highByte address = ucast (drop_bit (16 + 8) address AND 0xFF)"

definition high4Bits :: "DWord \<Rightarrow> Byte" where
  "high4Bits limit = ucast (drop_bit 16 limit AND 0x0F)"

section \<open>Descriptors, gates and registers\<close>

record Descriptor =
  d_limit :: Word16
  lowBase :: Word16
  midBase :: Byte
  flags1 :: Byte
  flags2 :: Byte
  highBase :: Byte

record Gate =
  lowOffset :: Word16
  segmentSelector :: Word16
  gflags :: Word16
  highOffset :: Word16

record Register =
  r_limit :: Word16
  r_base :: DWord

text \<open>The task state segment, without its reserved padding words.\<close>

record TSS =
  PreviousTaskLink :: Word16
  esp0 :: DWord
  ss0 :: Word16
  esp1 :: DWord
  ss1 :: Word16
  esp2 :: DWord
  ss2 :: Word16
  tss_cr3 :: DWord
  tss_eip :: DWord
  eFlags :: DWord
  tss_eax :: DWord
  tss_ecx :: DWord
  tss_edx :: DWord
  tss_ebx :: DWord
  tss_esp :: DWord
  tss_ebp :: DWord
  tss_esi :: DWord
  tss_edi :: DWord
  tss_es :: Word16
  tss_cs :: Word16
  tss_ss :: Word16
  tss_ds :: Word16
  tss_fs :: Word16
  tss_gs :: Word16
  LDTSegmentSelector :: Word16
  debugTrap :: Word16
  IOMapBaseAddress :: Word16

definition INITIAL_EFLAGS :: DWord where "INITIAL_EFLAGS = 0x00000200"

definition KERNEL_CS :: Word16 where "KERNEL_CS = 0x10"
definition KERNEL_DS :: Word16 where "KERNEL_DS = 0x18"
definition USER_CS :: Word16 where "USER_CS = 0x23"
definition USER_DS :: Word16 where "USER_DS = 0x2B"
definition KERNEL_TSS :: Word16 where "KERNEL_TSS = 0x30"
definition GDT_START :: DWord where "GDT_START = 0x901b3"

lemmas segment_consts = KERNEL_CS_def KERNEL_DS_def USER_CS_def USER_DS_def KERNEL_TSS_def
  GDT_START_def

section \<open>Page-table entries\<close>

type_synonym page_table_entry = "32 word"

definition bf_get :: "nat \<Rightarrow> nat \<Rightarrow> DWord \<Rightarrow> DWord" where
  "bf_get off w e = drop_bit off e AND mask w"

definition bf_set :: "nat \<Rightarrow> nat \<Rightarrow> DWord \<Rightarrow> DWord \<Rightarrow> DWord" where
  "bf_set off w v e = (e AND NOT (push_bit off (mask w))) OR push_bit off (v AND mask w)"

definition present :: "page_table_entry \<Rightarrow> DWord" where "present = bf_get 0 1"
definition rw :: "page_table_entry \<Rightarrow> DWord" where "rw = bf_get 1 1"
definition user :: "page_table_entry \<Rightarrow> DWord" where "user = bf_get 2 1"
definition pbase_addr :: "page_table_entry \<Rightarrow> DWord" where "pbase_addr = bf_get 12 20"

definition set_present :: "DWord \<Rightarrow> page_table_entry \<Rightarrow> page_table_entry" where
  "set_present = bf_set 0 1"
definition set_rw :: "DWord \<Rightarrow> page_table_entry \<Rightarrow> page_table_entry" where
  "set_rw = bf_set 1 1"
definition set_user :: "DWord \<Rightarrow> page_table_entry \<Rightarrow> page_table_entry" where
  "set_user = bf_set 2 1"
definition set_pbase_addr :: "DWord \<Rightarrow> page_table_entry \<Rightarrow> page_table_entry" where
  "set_pbase_addr = bf_set 12 20"

lemmas pte_field_defs = present_def rw_def user_def pbase_addr_def
  set_present_def set_rw_def set_user_def set_pbase_addr_def

lemma bit_bf_get: "bit (bf_get off w e) n \<longleftrightarrow> n < w \<and> bit e (off + n)"
  by (auto simp: bf_get_def bit_simps dest: bit_imp_le_length)

lemma bit_bf_set:
  "bit (bf_set off w v e) n \<longleftrightarrow>
    (if off \<le> n \<and> n < off + w then n < 32 \<and> bit v (n - off) else bit e n)"
  by (auto simp: bf_set_def bit_simps dest: bit_imp_le_length)

lemma bf_get_set: "off + w \<le> 32 \<Longrightarrow> bf_get off w (bf_set off w v e) = v AND mask w"
  by (rule bit_word_eqI) (auto simp: bit_bf_get bit_bf_set bit_simps)

lemma bf_get_set_other:
  "off + w \<le> off' \<or> off' + w' \<le> off \<Longrightarrow> bf_get off' w' (bf_set off w v e) = bf_get off' w' e"
  by (rule bit_word_eqI) (auto simp: bit_bf_get bit_bf_set)

lemma bf_get_zero [simp]: "bf_get off w 0 = 0"
  by (simp add: bf_get_def)

text \<open>Reading a bit-field after writing one: the same field holds the (truncated) value,
  any other field is unchanged.\<close>

lemma pte_read_write [simp]:
  "present (set_present v e) = v AND 1" "rw (set_rw v e) = v AND 1" "user (set_user v e) = v AND 1"
  "pbase_addr (set_pbase_addr v e) = v AND mask 20"
  "present (set_rw v e) = present e" "present (set_user v e) = present e"
  "present (set_pbase_addr v e) = present e"
  "rw (set_present v e) = rw e" "rw (set_user v e) = rw e" "rw (set_pbase_addr v e) = rw e"
  "user (set_present v e) = user e" "user (set_rw v e) = user e" "user (set_pbase_addr v e) = user e"
  "pbase_addr (set_present v e) = pbase_addr e" "pbase_addr (set_rw v e) = pbase_addr e"
  "pbase_addr (set_user v e) = pbase_addr e"
  by (simp_all add: pte_field_defs bf_get_set bf_get_set_other)

lemma pte_zero [simp]: "present 0 = 0" "rw 0 = 0" "user 0 = 0" "pbase_addr 0 = 0"
  by (simp_all add: pte_field_defs)

lemma and_mask20_small: "unat (f :: DWord) < 2 ^ 20 \<Longrightarrow> f AND mask 20 = f"
proof -
  assume "unat f < 2 ^ 20"
  then have "unat (take_bit 20 f) = unat f"
    by (simp only: unsigned_take_bit_eq take_bit_nat_eq_self)
  then show ?thesis by (simp add: take_bit_eq_mask [symmetric] word_unat_eq_iff)
qed

lemma pbase_bound: "unat (pbase_addr e) < 2 ^ 20"
proof -
  have "pbase_addr e = take_bit 20 (drop_bit 12 e)"
    by (simp add: pbase_addr_def bf_get_def take_bit_eq_mask)
  then show ?thesis
    by (simp only: unsigned_take_bit_eq take_bit_nat_less_exp)
qed

text \<open>The fields as the processor reads them, and the bits an assignment changes.\<close>

lemma bf_get_bit: "bf_get i 1 e = of_bool (bit e i)"
  by (rule bit_word_eqI) (auto simp: bit_bf_get bit_simps)

lemma pte_bits: "present e = of_bool (bit e 0)" "rw e = of_bool (bit e 1)" "user e = of_bool (bit e 2)"
  by (simp_all only: pte_field_defs bf_get_bit)

lemma unat_pbase_addr: "unat (pbase_addr e) = unat e div 4096"
proof -
  have "pbase_addr e = drop_bit 12 e"
    by (rule bit_word_eqI) (auto simp: pbase_addr_def bit_bf_get bit_simps dest: bit_imp_le_length)
  then have "unat (pbase_addr e) = drop_bit 12 (unat e)" by (simp only: unat_drop_bit_eq)
  then show ?thesis by (simp add: drop_bit_eq_div)
qed

lemma pte_write_bits:
  "bit (set_present v e) n = (if n = 0 then bit v 0 else bit e n)"
  "bit (set_rw v e) n = (if n = 1 then bit v 0 else bit e n)"
  "bit (set_user v e) n = (if n = 2 then bit v 0 else bit e n)"
  "bit (set_pbase_addr v e) n = (if 12 \<le> n \<and> n < 32 then bit v (n - 12) else bit e n)"
  by (auto simp: pte_field_defs bit_bf_set le_Suc_eq numeral_2_eq_2)

section \<open>Splitting and reassembling\<close>

text \<open>The handler address the processor reads from a gate, and the base it reads from a
  descriptor.\<close>

definition gate_offset :: "Gate \<Rightarrow> DWord" where
  "gate_offset g = push_bit 16 (ucast (highOffset g)) OR ucast (lowOffset g)"

definition descriptor_base :: "Descriptor \<Rightarrow> DWord" where
  "descriptor_base d =
     push_bit 24 (ucast (highBase d)) OR push_bit 16 (ucast (midBase d)) OR ucast (lowBase d)"

lemma numeral_masks:
  "(0xFFFF :: DWord) = mask 16" "(0xFF :: DWord) = mask 8"
  by (simp_all add: mask_eq_exp_minus_1)

lemma word_split: "push_bit 16 (ucast (highWord a)) OR ucast (lowWord a) = a"
  by (rule bit_word_eqI) (auto simp: highWord_def lowWord_def numeral_masks bit_simps)

lemma base_split:
  "push_bit 24 (ucast (highByte a)) OR push_bit 16 (ucast (midByte a)) OR ucast (lowWord a) = a"
proof (rule bit_word_eqI)
  fix n assume "n < LENGTH(32)"
  then show "bit (push_bit 24 (ucast (highByte a)) OR push_bit 16 (ucast (midByte a))
      OR ucast (lowWord a) :: DWord) n = bit a n"
    by (cases "n < 16"; cases "n < 24")
      (auto simp: highByte_def midByte_def lowWord_def numeral_masks bit_simps)
qed

end
