(* ===== verification/ZList.thy ===== *)
theory ZList
  imports Prelude
begin

text \<open>
  \<^verbatim>\<open>list.c\<close> and \<^verbatim>\<open>include/list.h\<close>: the intrusive circular doubly linked
  lists on which every queue of the kernel is built. The operations work on an
  explicit store of list nodes, so aliasing between queues is visible. The second
  half relates a well-formed ring to a HOL list and states the contract of the
  operations as a locale, in which facts about whole families of disjoint queues
  are derived once.
\<close>

section \<open>Nodes and the store\<close>

text \<open>
  Addresses of all \<^verbatim>\<open>struct list_head\<close> objects of the kernel: the three global
  queues and, for each slot of the task array, the members \<^verbatim>\<open>anchor\<close>,
  \<^verbatim>\<open>child_anchor\<close> and \<^verbatim>\<open>childs\<close> of its \<^verbatim>\<open>task_struct\<close>.
\<close>

datatype lptr = Null | ReadyQ | FreeQ | Blocked
  | Anchor nat | ChildAnchor nat | Childs nat

record list_head =
  lnext :: lptr
  lprev :: lptr

type_synonym lheap = "lptr \<Rightarrow> list_head"

text \<open>Page 0 is never mapped, so an access through \<^const>\<open>Null\<close> faults.\<close>

definition deref :: "lheap \<Rightarrow> lptr \<Rightarrow> list_head option" where
  "deref h p = (if p = Null then None else Some (h p))"

definition set_next :: "lptr \<Rightarrow> lptr \<Rightarrow> lheap \<Rightarrow> lheap option" where
  "set_next p v h = (if p = Null then None else Some (h(p := (h p)\<lparr>lnext := v\<rparr>)))"

definition set_prev :: "lptr \<Rightarrow> lptr \<Rightarrow> lheap \<Rightarrow> lheap option" where
  "set_prev p v h = (if p = Null then None else Some (h(p := (h p)\<lparr>lprev := v\<rparr>)))"

section \<open>The operations of list.c\<close>

definition INIT_LIST_HEAD :: "lptr \<Rightarrow> lheap \<Rightarrow> lheap option" where
  "INIT_LIST_HEAD l h = do {
     h \<leftarrow> set_next l l h;
     set_prev l l h }"

definition list_add_between :: "lptr \<Rightarrow> lptr \<Rightarrow> lptr \<Rightarrow> lheap \<Rightarrow> lheap option" where
  "list_add_between new prev nxt h = do {
     h \<leftarrow> set_prev nxt new h;
     h \<leftarrow> set_next new nxt h;
     h \<leftarrow> set_prev new prev h;
     set_next prev new h }"

definition list_add :: "lptr \<Rightarrow> lptr \<Rightarrow> lheap \<Rightarrow> lheap option" where
  "list_add new head h = do {
     hd \<leftarrow> deref h head;
     list_add_between new head (lnext hd) h }"

definition list_add_tail :: "lptr \<Rightarrow> lptr \<Rightarrow> lheap \<Rightarrow> lheap option" where
  "list_add_tail new head h = do {
     hd \<leftarrow> deref h head;
     list_add_between new (lprev hd) head h }"

definition list_del_between :: "lptr \<Rightarrow> lptr \<Rightarrow> lheap \<Rightarrow> lheap option" where
  "list_del_between prev nxt h = do {
     h \<leftarrow> set_prev nxt prev h;
     set_next prev nxt h }"

definition list_del :: "lptr \<Rightarrow> lheap \<Rightarrow> lheap option" where
  "list_del entry h = do {
     e \<leftarrow> deref h entry;
     h \<leftarrow> list_del_between (lprev e) (lnext e) h;
     h \<leftarrow> set_next entry Null h;
     set_prev entry Null h }"

definition list_is_last :: "lptr \<Rightarrow> lptr \<Rightarrow> lheap \<Rightarrow> bool option" where
  "list_is_last l head h = do { n \<leftarrow> deref h l; Some (lnext n = head) }"

definition list_empty :: "lptr \<Rightarrow> lheap \<Rightarrow> bool option" where
  "list_empty head h = do { n \<leftarrow> deref h head; Some (lnext n = head) }"

definition list_first :: "lptr \<Rightarrow> lheap \<Rightarrow> lptr option" where
  "list_first head h = do { n \<leftarrow> deref h head; Some (lnext n) }"

text \<open>
  \<^verbatim>\<open>list_for_each\<close> with a \<^verbatim>\<open>break\<close> on the first node that satisfies a test:
  \<open>Some (Some p)\<close> when the loop breaks at \<open>p\<close>, \<open>Some None\<close> when it runs to
  the end, \<open>None\<close> when it faults or never ends.
\<close>

partial_function (option) list_find_from ::
  "(lptr \<Rightarrow> bool) \<Rightarrow> lptr \<Rightarrow> lptr \<Rightarrow> lheap \<Rightarrow> lptr option option" where
  "list_find_from P pos head h =
     (if pos = head then Some None
      else if P pos then Some (Some pos)
      else do { n \<leftarrow> deref h pos; list_find_from P (lnext n) head h })"

definition list_for_each_find :: "(lptr \<Rightarrow> bool) \<Rightarrow> lptr \<Rightarrow> lheap \<Rightarrow> lptr option option" where
  "list_for_each_find P head h = do {
     n \<leftarrow> deref h head;
     list_find_from P (lnext n) head h }"

text \<open>
  \<^verbatim>\<open>list_for_each\<close> without a break, as the list of cursor positions it visits.
\<close>

partial_function (option) list_walk_from :: "lptr \<Rightarrow> lptr \<Rightarrow> lheap \<Rightarrow> lptr list option" where
  "list_walk_from pos head h =
     (if pos = head then Some []
      else do {
        n \<leftarrow> deref h pos;
        r \<leftarrow> list_walk_from (lnext n) head h;
        Some (pos # r) })"

definition list_for_each :: "lptr \<Rightarrow> lheap \<Rightarrow> lptr list option" where
  "list_for_each head h = do { n \<leftarrow> deref h head; list_walk_from (lnext n) head h }"

text \<open>
  \<^verbatim>\<open>list_for_each_safe\<close>: the successor is read before the body runs, so the body may take the
  node out of the ring. \<open>heap\<close> is where the state of the body keeps the nodes.
\<close>

partial_function (option) list_safe_from ::
  "('s \<Rightarrow> lheap) \<Rightarrow> (lptr \<Rightarrow> 's \<Rightarrow> 's option) \<Rightarrow> lptr \<Rightarrow> lptr \<Rightarrow> lptr \<Rightarrow> 's \<Rightarrow> 's option" where
  "list_safe_from heap body head pos n s =
     (if pos = head then Some s
      else do {
        s \<leftarrow> body pos s;
        nn \<leftarrow> deref (heap s) n;
        list_safe_from heap body head n (lnext nn) s })"

definition list_for_each_safe :: "('s \<Rightarrow> lheap) \<Rightarrow> (lptr \<Rightarrow> 's \<Rightarrow> 's option) \<Rightarrow> lptr \<Rightarrow> 's \<Rightarrow> 's option" where
  "list_for_each_safe heap body head s = do {
     h \<leftarrow> deref (heap s) head;
     let pos = lnext h;
     p \<leftarrow> deref (heap s) pos;
     list_safe_from heap body head pos (lnext p) s }"

section \<open>Rings and HOL lists\<close>

text \<open>Consecutive nodes of a path point at each other.\<close>

fun links :: "lheap \<Rightarrow> lptr list \<Rightarrow> bool" where
  "links h (a # b # r) = (lnext (h a) = b \<and> lprev (h b) = a \<and> links h (b # r))"
| "links h _ = True"

text \<open>\<open>dll h a xs\<close>: the ring with head \<open>a\<close> holds exactly the nodes \<open>xs\<close>, in order.\<close>

definition dll :: "lheap \<Rightarrow> lptr \<Rightarrow> lptr list \<Rightarrow> bool" where
  "dll h a xs \<longleftrightarrow> links h (a # xs @ [a]) \<and> distinct (a # xs) \<and> Null \<notin> set (a # xs)"

definition detached :: "list_head \<Rightarrow> bool" where
  "detached n \<longleftrightarrow> lnext n = Null \<and> lprev n = Null"

lemmas list_prims = deref_def set_next_def set_prev_def

lemma links_append:
  "links h (xs @ a # ys) \<longleftrightarrow> links h (xs @ [a]) \<and> links h (a # ys)"
  by (induction h xs rule: links.induct) auto

lemma links_snoc2: "links h (xs @ [a, b]) \<longleftrightarrow> links h (xs @ [a]) \<and> lnext (h a) = b \<and> lprev (h b) = a"
  using links_append [of h xs a "[b]"] by simp

lemma links_agree:
  assumes "links h ps"
    and "\<And>p. p \<in> set (butlast ps) \<Longrightarrow> lnext (h' p) = lnext (h p)"
    and "\<And>p. p \<in> set (tl ps) \<Longrightarrow> lprev (h' p) = lprev (h p)"
  shows "links h' ps"
  using assms by (induction h ps rule: links.induct) auto


lemma links_prefix: "links h (xs @ ys) \<Longrightarrow> links h xs"
  by (induction h xs rule: links.induct) auto

lemma links_join:
  assumes "zs \<noteq> []"
  shows "links h (zs @ b # r) \<longleftrightarrow>
    links h zs \<and> lnext (h (last zs)) = b \<and> lprev (h b) = last zs \<and> links h (b # r)"
proof -
  obtain bs p where zs: "zs = bs @ [p]"
    using assms by (metis append_butlast_last_id)
  show ?thesis
    using links_append [of h bs p "b # r"] by (auto simp: zs)
qed

lemma dll_prev: "dll h a xs \<Longrightarrow> lprev (h a) = last (a # xs)"
  using links_join [of "a # xs" h a "[]"] by (simp add: dll_def)

lemma dll_next: "dll h a xs \<Longrightarrow> lnext (h a) = hd (xs @ [a])"
  by (cases xs) (simp_all add: dll_def)

lemma dll_deref: "dll h a xs \<Longrightarrow> deref h a = Some (h a)"
  by (auto simp: dll_def deref_def)

lemma dll_distinct: "dll h a xs \<Longrightarrow> distinct (a # xs)"
  by (simp add: dll_def)

lemma dll_frame:
  assumes "dll h a xs" and "\<And>p. p \<in> set (a # xs) \<Longrightarrow> h' p = h p"
  shows "dll h' a xs"
  using assms unfolding dll_def
  by (auto elim!: links_agree simp: butlast_append split: if_splits dest: in_set_butlastD)

lemma dll_init:
  "a \<noteq> Null \<Longrightarrow> \<exists>h'. INIT_LIST_HEAD a h = Some h' \<and> dll h' a [] \<and> (\<forall>p. p \<noteq> a \<longrightarrow> h' p = h p)"
  by (simp add: INIT_LIST_HEAD_def list_prims dll_def)

text \<open>
  Splitting a ring at one place: writes to the \<^const>\<open>lnext\<close> of the node before the
  place and to the \<^const>\<open>lprev\<close> of the node after it leave both halves linked.
\<close>

lemma ring_halves:
  assumes l: "links h (a # xs)" "links h (ys @ [a])" and dist: "distinct (a # xs @ ys)"
    and nxt: "\<And>q. q \<in> set (a # xs @ ys) \<Longrightarrow> q \<noteq> last (a # xs) \<Longrightarrow> lnext (h' q) = lnext (h q)"
    and prv: "\<And>q. q \<in> set (a # xs @ ys) \<Longrightarrow> q \<noteq> hd (ys @ [a]) \<Longrightarrow> lprev (h' q) = lprev (h q)"
  shows "links h' (a # xs)" and "links h' (ys @ [a])"
proof -
  show "links h' (a # xs)"
    using l(1)
  proof (rule links_agree)
    fix q assume q: "q \<in> set (butlast (a # xs))"
    have "q \<noteq> last (a # xs)" by (rule last_notin_butlast [OF _ q]) (use dist in auto)
    then show "lnext (h' q) = lnext (h q)" using in_set_butlastD [OF q] by (intro nxt) auto
  next
    fix q assume "q \<in> set (tl (a # xs))"
    then show "lprev (h' q) = lprev (h q)" using dist by (intro prv) (cases ys; auto)+
  qed
  show "links h' (ys @ [a])"
    using l(2)
  proof (rule links_agree)
    fix q assume "q \<in> set (butlast (ys @ [a]))"
    then show "lnext (h' q) = lnext (h q)"
      using dist last_in_set [of "a # xs"] by (intro nxt) auto
  next
    fix q assume "q \<in> set (tl (ys @ [a]))"
    then show "lprev (h' q) = lprev (h q)" using dist by (intro prv) (cases ys; auto)+
  qed
qed

lemma dll_add_between:
  assumes ring: "dll h a (xs @ ys)" and new: "new \<noteq> Null" "new \<notin> set (a # xs @ ys)"
  shows "\<exists>h'. list_add_between new (last (a # xs)) (hd (ys @ [a])) h = Some h'
    \<and> dll h' a (xs @ new # ys) \<and> (\<forall>p. p \<notin> set (new # a # xs @ ys) \<longrightarrow> h' p = h p)"
proof -
  let ?p = "last (a # xs)"
  obtain n r where n: "ys @ [a] = n # r" by (cases "ys @ [a]") auto
  have mem: "?p \<in> set (a # xs)" "n \<in> set (a # ys)"
    using n by (auto simp: last_in_set) (cases ys; auto)
  have nn: "?p \<noteq> Null" "n \<noteq> Null" "new \<noteq> ?p" "new \<noteq> n"
    using ring new mem unfolding dll_def by auto
  define h' where "h' = (\<lambda>q. \<lparr>lnext = (if q = ?p then new else if q = new then n else lnext (h q)),
    lprev = (if q = new then ?p else if q = n then new else lprev (h q))\<rparr>)"
  have run: "list_add_between new ?p n h = Some h'"
    using nn new by (simp add: list_add_between_def list_prims h'_def fun_eq_iff)
  have "links h (a # xs)" "links h (ys @ [a])"
    using ring n links_join [of "a # xs" h n r] by (simp_all add: dll_def)
  then have "links h' (a # xs)" "links h' (ys @ [a])"
    by (rule ring_halves; use ring new n in \<open>auto simp: dll_def h'_def\<close>)+
  then have "links h' ((a # xs) @ new # ys @ [a])"
    using nn by (subst links_join) (simp_all add: n h'_def)
  then have "dll h' a (xs @ new # ys)" using ring new by (auto simp: dll_def)
  moreover have "\<forall>p. p \<notin> set (new # a # xs @ ys) \<longrightarrow> h' p = h p"
    using mem by (auto simp: h'_def)
  ultimately show ?thesis using run n by auto
qed

lemma dll_add_tail:
  assumes "dll h a xs" and "new \<noteq> Null" and "new \<notin> set (a # xs)"
  shows "\<exists>h'. list_add_tail new a h = Some h' \<and> dll h' a (xs @ [new])
    \<and> (\<forall>p. p \<notin> set (new # a # xs) \<longrightarrow> h' p = h p)"
  using dll_add_between [of h a xs "[]" new] dll_prev [OF assms(1)] dll_deref [OF assms(1)] assms
  by (simp add: list_add_tail_def)

lemma dll_add:
  assumes "dll h a xs" and "new \<noteq> Null" and "new \<notin> set (a # xs)"
  shows "\<exists>h'. list_add new a h = Some h' \<and> dll h' a (new # xs)
    \<and> (\<forall>p. p \<notin> set (new # a # xs) \<longrightarrow> h' p = h p)"
  using dll_add_between [of h a "[]" xs new] dll_next [OF assms(1)] dll_deref [OF assms(1)] assms
  by (simp add: list_add_def)

lemma dll_del:
  assumes ring: "dll h a (xs @ e # ys)"
  shows "\<exists>h'. list_del e h = Some h' \<and> dll h' a (xs @ ys) \<and> detached (h' e)
    \<and> (\<forall>p. p \<notin> set (a # xs @ e # ys) \<longrightarrow> h' p = h p)"
proof -
  let ?p = "last (a # xs)"
  obtain n r where n: "ys @ [a] = n # r" by (cases "ys @ [a]") auto
  have mem: "?p \<in> set (a # xs)" "n \<in> set (a # ys)"
    using n by (auto simp: last_in_set) (cases ys; auto)
  have parts: "links h (a # xs)" "links h (ys @ [a])" "lprev (h e) = ?p" "lnext (h e) = n"
    using ring n links_join [of "a # xs" h e "n # r"] by (simp_all add: dll_def)
  have nn: "?p \<noteq> Null" "n \<noteq> Null" "e \<noteq> ?p" "e \<noteq> n" "e \<noteq> Null"
    using ring mem unfolding dll_def by auto
  define h' where "h' = (\<lambda>q. \<lparr>lnext = (if q = e then Null else if q = ?p then n else lnext (h q)),
    lprev = (if q = e then Null else if q = n then ?p else lprev (h q))\<rparr>)"
  have run: "list_del e h = Some h'"
    using nn parts(3,4)
    by (simp add: list_del_def list_del_between_def list_prims h'_def fun_eq_iff)
  have "links h' (a # xs)" "links h' (ys @ [a])"
    using parts(1,2) by (rule ring_halves; use ring n in \<open>auto simp: dll_def h'_def\<close>)+
  then have "links h' ((a # xs) @ n # r)"
    using nn n by (subst links_join) (simp_all add: h'_def)
  then have "dll h' a (xs @ ys)" using ring n by (simp add: dll_def)
  moreover have "\<forall>p. p \<notin> set (a # xs @ e # ys) \<longrightarrow> h' p = h p"
    using mem by (auto simp: h'_def)
  moreover have "detached (h' e)" by (simp add: detached_def h'_def)
  ultimately show ?thesis using run by blast
qed

lemma dll_empty: "dll h a xs \<Longrightarrow> list_empty a h = Some (xs = [])"
  using dll_next [of h a xs] by (cases xs) (auto simp: list_empty_def deref_def dll_def)

lemma dll_first: "dll h a (x # xs) \<Longrightarrow> list_first a h = Some x"
  using dll_next [of h a "x # xs"] by (auto simp: list_first_def deref_def dll_def)

lemma dll_is_last: "dll h a (xs @ [x]) \<Longrightarrow> y \<in> set (xs @ [x]) \<Longrightarrow> list_is_last y a h = Some (y = x)"
proof -
  assume ring: "dll h a (xs @ [x])" and y: "y \<in> set (xs @ [x])"
  obtain us vs where s: "xs @ [x] = us @ y # vs" using y by (meson split_list)
  have "links h ((a # us) @ y # vs @ [a])" using ring s by (simp add: dll_def)
  then have "lnext (h y) = hd (vs @ [a])"
    using links_join [of "a # us" h y "vs @ [a]"] by (cases vs) auto
  moreover have "(y = x) = (vs = [])"
    using ring s by (cases vs rule: rev_cases) (auto simp: dll_def)
  moreover have "a \<notin> set vs" "y \<noteq> Null" using ring s by (auto simp: dll_def)
  ultimately show ?thesis
    by (cases vs) (auto simp: list_is_last_def deref_def)
qed

text \<open>A traversal of a well-formed ring ends, and visits the nodes in order.\<close>

lemma walk_from_ring:
  assumes "links h (xs @ [a])" and "a \<notin> set xs" and "Null \<notin> set xs"
  shows "list_walk_from (hd (xs @ [a])) a h = Some xs"
  using assms
proof (induction xs)
  case Nil
  then show ?case by (simp add: list_walk_from.simps)
next
  case (Cons x xs)
  have "lnext (h x) = hd (xs @ [a])" "links h (xs @ [a])"
    using Cons.prems(1) by (cases xs; simp)+
  with Cons show ?case
    by (subst list_walk_from.simps) (auto simp: deref_def)
qed

lemma find_from_ring:
  assumes "links h (xs @ [a])" and "a \<notin> set xs" and "Null \<notin> set xs"
  shows "list_find_from P (hd (xs @ [a])) a h = Some (find P xs)"
  using assms
proof (induction xs)
  case Nil
  then show ?case by (simp add: list_find_from.simps)
next
  case (Cons x xs)
  have "lnext (h x) = hd (xs @ [a])" "links h (xs @ [a])"
    using Cons.prems(1) by (cases xs; simp)+
  with Cons show ?case
    by (subst list_find_from.simps) (auto simp: deref_def)
qed

lemma links_tl: "links h (a # r) \<Longrightarrow> links h r"
  by (cases r) auto

lemma dll_for_each: "dll h a xs \<Longrightarrow> list_for_each a h = Some xs"
  using walk_from_ring [of h xs a] dll_next [of h a xs]
  by (auto simp: list_for_each_def deref_def dll_def dest: links_tl)

lemma dll_find: "dll h a xs \<Longrightarrow> list_for_each_find P a h = Some (find P xs)"
  using find_from_ring [of h xs a P] dll_next [of h a xs]
  by (auto simp: list_for_each_find_def deref_def dll_def dest: links_tl)

section \<open>The queue contract\<close>

text \<open>
  A family of queues: every head of \<open>H\<close> represents its list and no node belongs to
  two of them. This is the shape of the kernel's queues: ready, blocked and free,
  and one list of children per process.
\<close>

definition family :: "(('p \<Rightarrow> 'n) \<Rightarrow> 'p \<Rightarrow> 'p list \<Rightarrow> bool) \<Rightarrow> ('p \<Rightarrow> 'n) \<Rightarrow> 'p set \<Rightarrow> ('p \<Rightarrow> 'p list) \<Rightarrow> bool" where
  "family rep h H Q \<longleftrightarrow> (\<forall>a\<in>H. rep h a (Q a)) \<and>
     (\<forall>a\<in>H. \<forall>b\<in>H. a \<noteq> b \<longrightarrow> set (a # Q a) \<inter> set (b # Q b) = {})"

definition nodes :: "'p set \<Rightarrow> ('p \<Rightarrow> 'p list) \<Rightarrow> 'p set" where
  "nodes H Q = (\<Union>a\<in>H. set (a # Q a))"

lemma nodes_init: "nodes (insert c H) (Q(c := [])) \<subseteq> insert c (nodes H Q)"
  by (auto simp: nodes_def split: if_splits)

lemma nodes_snoc: "q \<in> H \<Longrightarrow> nodes H (Q(q := Q q @ [e])) \<subseteq> insert e (nodes H Q)"
  by (auto simp: nodes_def split: if_splits)

locale queue_ops =
  fixes rep :: "('p \<Rightarrow> 'n) \<Rightarrow> 'p \<Rightarrow> 'p list \<Rightarrow> bool"
    and valid :: "'p \<Rightarrow> bool"
    and loose :: "'n \<Rightarrow> bool"
    and init :: "'p \<Rightarrow> ('p \<Rightarrow> 'n) \<Rightarrow> ('p \<Rightarrow> 'n) option"
    and add_tail :: "'p \<Rightarrow> 'p \<Rightarrow> ('p \<Rightarrow> 'n) \<Rightarrow> ('p \<Rightarrow> 'n) option"
    and del :: "'p \<Rightarrow> ('p \<Rightarrow> 'n) \<Rightarrow> ('p \<Rightarrow> 'n) option"
    and is_empty :: "'p \<Rightarrow> ('p \<Rightarrow> 'n) \<Rightarrow> bool option"
    and first :: "'p \<Rightarrow> ('p \<Rightarrow> 'n) \<Rightarrow> 'p option"
  assumes rep_distinct: "rep h a xs \<Longrightarrow> distinct (a # xs)"
    and rep_frame: "rep h a xs \<Longrightarrow> (\<And>p. p \<in> set (a # xs) \<Longrightarrow> h' p = h p) \<Longrightarrow> rep h' a xs"
    and init_spec: "valid a \<Longrightarrow> \<exists>h'. init a h = Some h' \<and> rep h' a [] \<and> (\<forall>p. p \<noteq> a \<longrightarrow> h' p = h p)"
    and add_tail_spec: "rep h a xs \<Longrightarrow> valid e \<Longrightarrow> e \<notin> set (a # xs) \<Longrightarrow>
      \<exists>h'. add_tail e a h = Some h' \<and> rep h' a (xs @ [e]) \<and> (\<forall>p. p \<notin> set (e # a # xs) \<longrightarrow> h' p = h p)"
    and del_spec: "rep h a (xs @ e # ys) \<Longrightarrow>
      \<exists>h'. del e h = Some h' \<and> rep h' a (xs @ ys) \<and> loose (h' e) \<and>
        (\<forall>p. p \<notin> set (a # xs @ e # ys) \<longrightarrow> h' p = h p)"
    and empty_spec: "rep h a xs \<Longrightarrow> is_empty a h = Some (xs = [])"
    and first_spec: "rep h a (x # xs) \<Longrightarrow> first a h = Some x"
begin

lemma family_frame:
  "family rep h H Q \<Longrightarrow> (\<And>p. p \<in> nodes H Q \<Longrightarrow> h' p = h p) \<Longrightarrow> family rep h' H Q"
  unfolding family_def nodes_def by (blast intro: rep_frame)

lemma family_mono: "family rep h H Q \<Longrightarrow> H' \<subseteq> H \<Longrightarrow> family rep h H' Q"
  unfolding family_def by blast

lemma family_update:
  assumes fam: "family rep h H Q" and a: "a \<in> H" and r: "rep h' a xs"
    and same: "\<And>p. p \<notin> insert a (set (Q a) \<union> set xs) \<Longrightarrow> h' p = h p"
    and fresh: "\<And>p. p \<in> set xs \<Longrightarrow> p \<notin> set (Q a) \<Longrightarrow> p \<notin> nodes H Q"
  shows "family rep h' H (Q(a := xs))"
proof -
  have other: "rep h' b (Q b) \<and> set (a # xs) \<inter> set (b # Q b) = {}" if "b \<in> H" "b \<noteq> a" for b
  proof -
    have dis: "set (a # Q a) \<inter> set (b # Q b) = {}"
      using fam a that unfolding family_def by blast
    moreover have "set (b # Q b) \<subseteq> nodes H Q" using that by (auto simp: nodes_def)
    ultimately have dis': "set (a # xs) \<inter> set (b # Q b) = {}"
      using fresh by fastforce
    have "rep h b (Q b)" using fam that by (simp add: family_def)
    moreover have "h' p = h p" if "p \<in> set (b # Q b)" for p
      using that dis dis' by (intro same) auto
    ultimately have "rep h' b (Q b)" by (rule rep_frame)
    with dis' show ?thesis by blast
  qed
  show ?thesis
    unfolding family_def
  proof (intro conjI ballI impI)
    fix b assume "b \<in> H"
    then show "rep h' b ((Q(a := xs)) b)" using other r by simp
  next
    fix b c assume "b \<in> H" "c \<in> H" "b \<noteq> c"
    then show "set (b # (Q(a := xs)) b) \<inter> set (c # (Q(a := xs)) c) = {}"
      using other [of b] other [of c] fam unfolding family_def
      by (cases "b = a"; cases "c = a") auto
  qed
qed

text \<open>The three operations, on a whole family.\<close>

lemma family_init:
  assumes "family rep h H Q" and "valid a" and "a \<notin> nodes H Q"
  shows "\<exists>h'. init a h = Some h' \<and> family rep h' (insert a H) (Q(a := [])) \<and>
    (\<forall>p. p \<noteq> a \<longrightarrow> h' p = h p)"
proof -
  obtain h' where h': "init a h = Some h'" "rep h' a []" "\<forall>p. p \<noteq> a \<longrightarrow> h' p = h p"
    using init_spec [OF assms(2)] by blast
  have "a \<notin> H" using assms(3) by (auto simp: nodes_def)
  have "family rep h' H Q"
    by (rule family_frame [OF assms(1)]) (use assms(3) h' in metis)
  then have "family rep h' (insert a H) (Q(a := []))"
    using h'(2) \<open>a \<notin> H\<close> assms(3) unfolding family_def nodes_def by auto
  with h' show ?thesis by blast
qed

lemma family_add_tail:
  assumes "family rep h H Q" and "a \<in> H" and "valid e" and "e \<notin> nodes H Q"
  shows "\<exists>h'. add_tail e a h = Some h' \<and> family rep h' H (Q(a := Q a @ [e])) \<and>
    (\<forall>p. p \<notin> insert e (nodes H Q) \<longrightarrow> h' p = h p)"
proof -
  have na: "set (a # Q a) \<subseteq> nodes H Q" using assms(2) by (auto simp: nodes_def)
  have "rep h a (Q a)" using assms(1,2) by (simp add: family_def)
  then obtain h' where h': "add_tail e a h = Some h'" "rep h' a (Q a @ [e])"
    "\<forall>p. p \<notin> set (e # a # Q a) \<longrightarrow> h' p = h p"
    using add_tail_spec assms(3,4) na by (metis subsetD)
  have "family rep h' H (Q(a := Q a @ [e]))"
    by (rule family_update [OF assms(1,2) h'(2)]) (use h'(3) assms(4) in auto)
  with h' na show ?thesis by auto
qed

lemma family_del:
  assumes "family rep h H Q" and "a \<in> H" and "e \<in> set (Q a)"
  shows "\<exists>h'. del e h = Some h' \<and> family rep h' H (Q(a := remove1 e (Q a))) \<and> loose (h' e) \<and>
    e \<notin> nodes H (Q(a := remove1 e (Q a))) \<and> (\<forall>p. p \<notin> nodes H Q \<longrightarrow> h' p = h p)"
proof -
  have na: "set (a # Q a) \<subseteq> nodes H Q" using assms(2) by (auto simp: nodes_def)
  have r: "rep h a (Q a)" using assms(1,2) by (simp add: family_def)
  obtain xs ys where q: "Q a = xs @ e # ys" "e \<notin> set xs"
    using split_list_first [OF assms(3)] by blast
  have rem: "remove1 e (Q a) = xs @ ys" using q by (simp add: remove1_append)
  obtain h' where h': "del e h = Some h'" "rep h' a (xs @ ys)" "loose (h' e)"
    "\<forall>p. p \<notin> set (a # xs @ e # ys) \<longrightarrow> h' p = h p"
    using del_spec r q by metis
  have fam: "family rep h' H (Q(a := xs @ ys))"
    by (rule family_update [OF assms(1,2) h'(2)]) (use h'(4) q in auto)
  have "e \<notin> set (a # xs @ ys)" using rep_distinct [OF r] q by auto
  moreover have "e \<notin> set (b # Q b)" if "b \<in> H" "b \<noteq> a" for b
    using assms that unfolding family_def by auto
  ultimately have "e \<notin> nodes H (Q(a := xs @ ys))"
    by (auto simp: nodes_def split: if_splits)
  then show ?thesis
    using fam h' na q rem by auto
qed

end

text \<open>The rings of \<^verbatim>\<open>list.c\<close> meet the contract.\<close>

interpretation zq: queue_ops dll "\<lambda>p. p \<noteq> Null" detached
  INIT_LIST_HEAD list_add_tail list_del list_empty list_first
proof unfold_locales
  show "distinct (a # xs)" if "dll h a xs" for h a xs
    using that by (rule dll_distinct)
  show "dll h' a xs" if "dll h a xs" "\<And>p. p \<in> set (a # xs) \<Longrightarrow> h' p = h p" for h h' a xs
    using that by (rule dll_frame)
qed (use dll_init dll_add_tail dll_del dll_empty dll_first in auto)

end
