(* ===== verification/Layout.thy ===== *)
theory Layout
  imports Types_H ZList
begin

text \<open>
  Where the objects of the kernel lie in memory: the byte offsets of
  \<^verbatim>\<open>struct task_struct\<close> (\<^verbatim>\<open>include/sched.h\<close>), the address of every
  slot of the task array and of every list node, and the address arithmetic the
  code performs on them (\<^verbatim>\<open>list_entry\<close>, the position computed by
  \<^verbatim>\<open>allocate_DIR\<close>, the mask in \<^verbatim>\<open>current\<close>). The addresses the linker
  chooses are a parameter; \<open>linked\<close> states what \<^verbatim>\<open>system.lds\<close> guarantees
  about them.
\<close>

section \<open>Link-time addresses\<close>

record symbols =
  a_readyq :: DWord
  a_freeq :: DWord
  a_blocked :: DWord
  a_task :: DWord
  a_dir_pages :: DWord
  a_pagusr_table :: DWord
  a_tss :: DWord
  a_idt :: DWord
  a_cpu_idle :: DWord
  a_ret_from_fork :: DWord

section \<open>Offsets of struct task_struct\<close>

definition OFF_anchor :: DWord where "OFF_anchor = 4"
definition OFF_child_anchor :: DWord where "OFF_child_anchor = 32"
definition OFF_childs :: DWord where "OFF_childs = 40"
definition SIZEOF_task_struct :: nat where "SIZEOF_task_struct = 52"
definition SIZEOF_task_union :: nat where "SIZEOF_task_union = 4 * KERNEL_STACK_SIZE"

lemmas offset_defs = OFF_anchor_def OFF_child_anchor_def OFF_childs_def

section \<open>Address arithmetic\<close>

text \<open>\<^verbatim>\<open>&task[i]\<close>, \<^verbatim>\<open>&task[i].stack[j]\<close>, \<^verbatim>\<open>&dir_pages[i]\<close>,
  \<^verbatim>\<open>&pagusr_table[i]\<close>.\<close>

definition task_addr :: "symbols \<Rightarrow> nat \<Rightarrow> DWord" where
  "task_addr sy i = a_task sy + of_nat (SIZEOF_task_union * i)"

definition stack_addr :: "symbols \<Rightarrow> nat \<Rightarrow> nat \<Rightarrow> DWord" where
  "stack_addr sy i j = task_addr sy i + of_nat (4 * j)"

definition dir_addr :: "symbols \<Rightarrow> nat \<Rightarrow> DWord" where
  "dir_addr sy i = a_dir_pages sy + of_nat (4 * TOTAL_PAGES * i)"

definition pt_addr :: "symbols \<Rightarrow> nat \<Rightarrow> DWord" where
  "pt_addr sy i = a_pagusr_table sy + of_nat (4 * TOTAL_PAGES * i)"

text \<open>\<^verbatim>\<open>((int)t-(int)task)/sizeof(union task_union)\<close>: the subtraction wraps, and the
  division is unsigned because \<^verbatim>\<open>sizeof\<close> is.\<close>

definition task_pos :: "symbols \<Rightarrow> DWord \<Rightarrow> nat" where
  "task_pos sy t = unat (t - a_task sy) div SIZEOF_task_union"

text \<open>The address of a list node, and \<^verbatim>\<open>list_entry\<close>: the container of a node, as the
  slot of the task array it is.\<close>

fun lptr_addr :: "symbols \<Rightarrow> lptr \<Rightarrow> DWord" where
  "lptr_addr sy Null = 0"
| "lptr_addr sy ReadyQ = a_readyq sy"
| "lptr_addr sy FreeQ = a_freeq sy"
| "lptr_addr sy Blocked = a_blocked sy"
| "lptr_addr sy (Anchor i) = task_addr sy i + OFF_anchor"
| "lptr_addr sy (ChildAnchor i) = task_addr sy i + OFF_child_anchor"
| "lptr_addr sy (Childs i) = task_addr sy i + OFF_childs"

definition list_entry :: "symbols \<Rightarrow> lptr \<Rightarrow> DWord \<Rightarrow> nat" where
  "list_entry sy ptr member = task_pos sy (lptr_addr sy ptr - member)"

text \<open>\<^verbatim>\<open>current()\<close> rounds the stack pointer down to the start of its 4 KB page.\<close>

definition current_of_esp :: "symbols \<Rightarrow> DWord \<Rightarrow> nat" where
  "current_of_esp sy esp = task_pos sy (esp AND 0xfffff000)"

section \<open>What the linker guarantees\<close>

text \<open>
  The image lies below 1 MB (the 256 kernel pages), the section \<^verbatim>\<open>.data.task\<close> is
  page aligned and holds the three page-sized arrays one after another, and the three
  global queue heads are distinct 8-byte objects outside it.
\<close>

definition linked :: "symbols \<Rightarrow> bool" where
  "linked sy \<longleftrightarrow>
     4096 dvd unat (a_task sy) \<and> 4096 dvd unat (a_dir_pages sy) \<and> 4096 dvd unat (a_pagusr_table sy) \<and>
     0 < unat (a_task sy) \<and> 0 < unat (a_dir_pages sy) \<and> 0 < unat (a_pagusr_table sy) \<and>
     unat (a_task sy) + SIZEOF_task_union * NR_TASKS \<le> 2 ^ 20 \<and>
     unat (a_dir_pages sy) + 4 * TOTAL_PAGES * NR_TASKS \<le> 2 ^ 20 \<and>
     unat (a_pagusr_table sy) + 4 * TOTAL_PAGES * NR_TASKS \<le> 2 ^ 20 \<and>
     (\<forall>a\<in>{a_readyq sy, a_freeq sy, a_blocked sy}. 0 < unat a \<and>
        (unat a + 8 \<le> unat (a_task sy) \<or> unat (a_task sy) + SIZEOF_task_union * NR_TASKS \<le> unat a)) \<and>
     a_readyq sy \<noteq> a_freeq sy \<and> a_readyq sy \<noteq> a_blocked sy \<and> a_freeq sy \<noteq> a_blocked sy"

lemmas size_defs = SIZEOF_task_union_def SIZEOF_task_struct_def

lemma linked_task:
  assumes "linked sy"
  shows "4096 dvd unat (a_task sy)" "0 < unat (a_task sy)" "unat (a_task sy) + 40960 \<le> 2 ^ 20"
  using assms unfolding linked_def size_defs zeos_consts by simp_all

lemma linked_dir:
  assumes "linked sy"
  shows "4096 dvd unat (a_dir_pages sy)" "0 < unat (a_dir_pages sy)"
    "unat (a_dir_pages sy) + 40960 \<le> 2 ^ 20"
  using assms unfolding linked_def zeos_consts by simp_all

lemma linked_pt:
  assumes "linked sy"
  shows "4096 dvd unat (a_pagusr_table sy)" "0 < unat (a_pagusr_table sy)"
    "unat (a_pagusr_table sy) + 40960 \<le> 2 ^ 20"
  using assms unfolding linked_def zeos_consts by simp_all

text \<open>An array of ten page-sized elements below 1 MB.\<close>

lemma unat_slot:
  assumes "unat base + 40960 \<le> 2 ^ 20" and "4096 * i + unat k \<le> 40960"
  shows "unat (base + of_nat (4096 * i) + k :: DWord) = unat base + 4096 * i + unat k"
proof -
  have u: "unat (of_nat (4096 * i) :: DWord) = 4096 * i"
    by (rule unat_of_nat32) (use assms in simp)
  have v: "unat (base + of_nat (4096 * i)) = unat base + 4096 * i"
    using assms u by (subst unat_add32) (simp_all del: of_nat_mult)
  show ?thesis
    using assms v by (subst unat_add32) (simp_all del: of_nat_mult)
qed

lemma slot_pos:
  assumes "i < 10" and "unat k < 4096"
  shows "unat (base + of_nat (4096 * i) + k - base :: DWord) div 4096 = i"
proof -
  have "unat (0 + of_nat (4096 * i) + k) = 4096 * i + unat k"
    by (subst unat_slot) (use assms in auto)
  moreover have "base + of_nat (4096 * i) + k - base = 0 + of_nat (4096 * i) + k" by simp
  ultimately show ?thesis using assms(2) by simp
qed

lemma task_addr_slot: "task_addr sy i = a_task sy + of_nat (4096 * i)"
  by (simp add: task_addr_def size_defs zeos_consts)

lemma unat_task_off:
  assumes "linked sy" and "i < NR_TASKS" and "unat k \<le> 4096"
  shows "unat (task_addr sy i + k) = unat (a_task sy) + 4096 * i + unat k"
  unfolding task_addr_slot
  by (rule unat_slot) (use linked_task [OF assms(1)] assms in \<open>auto simp: zeos_consts\<close>)

lemma unat_task_addr:
  "linked sy \<Longrightarrow> i < NR_TASKS \<Longrightarrow> unat (task_addr sy i) = unat (a_task sy) + 4096 * i"
  using unat_task_off [of sy i 0] by simp

lemma task_pos_off [layout_simps]:
  "i < NR_TASKS \<Longrightarrow> unat k < 4096 \<Longrightarrow> task_pos sy (task_addr sy i + k) = i"
  unfolding task_pos_def task_addr_slot using slot_pos [of i k]
  by (simp add: size_defs zeos_consts del: of_nat_mult)

lemma task_pos_addr [layout_simps]: "i < NR_TASKS \<Longrightarrow> task_pos sy (task_addr sy i) = i"
  using task_pos_off [of i 0] by simp

lemma list_entry_ok [layout_simps]:
  assumes "i < NR_TASKS"
  shows "list_entry sy (Anchor i) OFF_anchor = i"
    and "list_entry sy (ChildAnchor i) OFF_child_anchor = i"
  using assms by (simp_all add: list_entry_def layout_simps)

lemma and_page_mask: "unat (x AND 0xfffff000 :: DWord) = 4096 * (unat x div 4096)"
proof -
  have "(0xfffff000 :: DWord) = NOT (mask 12)" by (simp add: mask_eq_exp_minus_1)
  moreover have "x AND NOT (mask 12) = push_bit 12 (drop_bit 12 x)"
    by (rule bit_word_eqI) (auto simp: bit_simps)
  ultimately have eq: "x AND 0xfffff000 = push_bit 12 (drop_bit 12 x)" by simp
  have "unat x div 4096 * 4096 \<le> unat x" by simp
  moreover have "unat x < 2 ^ 32" using unat_lt32 [of x] by simp
  ultimately have "unat x div 4096 * 4096 < 2 ^ 32" by linarith
  then show ?thesis
    unfolding eq by (simp add: push_bit_eq_mult drop_bit_eq_div unat_word_ariths unat_div)
qed

lemma page_mask_task:
  assumes "linked sy" and "i < NR_TASKS" and "unat k < 4096"
  shows "(task_addr sy i + k) AND 0xfffff000 = task_addr sy i"
proof -
  have "unat (task_addr sy i + k) = unat (task_addr sy i) + unat k"
    using assms unat_task_addr [of sy i] unat_task_off [of sy i k] by simp
  moreover have "4096 dvd unat (task_addr sy i)"
    using assms unat_task_addr [of sy i] linked_task(1) [of sy] by simp
  ultimately have "unat ((task_addr sy i + k) AND 0xfffff000) = unat (task_addr sy i)"
    using assms(3) unfolding and_page_mask by (auto elim!: dvdE)
  then show ?thesis by (simp add: word_unat_eq_iff)
qed

lemma current_of_stack:
  "linked sy \<Longrightarrow> i < NR_TASKS \<Longrightarrow> unat k < 4096 \<Longrightarrow> current_of_esp sy (task_addr sy i + k) = i"
  by (simp add: current_of_esp_def page_mask_task layout_simps)

lemma current_of_stack_addr:
  "linked sy \<Longrightarrow> i < NR_TASKS \<Longrightarrow> j < KERNEL_STACK_SIZE \<Longrightarrow> current_of_esp sy (stack_addr sy i j) = i"
  unfolding stack_addr_def by (rule current_of_stack) (simp_all add: zeos_consts del: of_nat_mult)

text \<open>
  Distinct list nodes of the model have distinct addresses in the linked image, so
  comparing two node pointers in C is comparing two nodes here.
\<close>

fun valid_lptr :: "lptr \<Rightarrow> bool" where
  "valid_lptr (Anchor i) \<longleftrightarrow> i < NR_TASKS"
| "valid_lptr (ChildAnchor i) \<longleftrightarrow> i < NR_TASKS"
| "valid_lptr (Childs i) \<longleftrightarrow> i < NR_TASKS"
| "valid_lptr _ \<longleftrightarrow> True"

text \<open>The slot a task-owned node belongs to, and its offset there.\<close>

fun node_slot :: "lptr \<Rightarrow> nat \<times> nat" where
  "node_slot (Anchor i) = (i, 4)"
| "node_slot (ChildAnchor i) = (i, 32)"
| "node_slot (Childs i) = (i, 40)"
| "node_slot _ = (0, 0)"

lemma unat_node_addr:
  assumes "linked sy" and "valid_lptr p" and "p \<notin> {Null, ReadyQ, FreeQ, Blocked}"
  shows "unat (lptr_addr sy p) = unat (a_task sy) + (4096 * fst (node_slot p) + snd (node_slot p))"
    and "fst (node_slot p) < NR_TASKS" and "0 < snd (node_slot p)" and "snd (node_slot p) < 4096"
  using assms by (cases p; simp add: unat_task_off offset_defs)+

lemma unat_head_addr:
  assumes "linked sy" and "p \<in> {ReadyQ, FreeQ, Blocked}"
  shows "0 < unat (lptr_addr sy p)"
    "unat (lptr_addr sy p) + 8 \<le> unat (a_task sy) \<or> unat (a_task sy) + 40960 \<le> unat (lptr_addr sy p)"
  using assms unfolding linked_def size_defs zeos_consts by auto

lemma head_addr_distinct:
  assumes "linked sy" and "p \<in> {ReadyQ, FreeQ, Blocked}" and "q \<in> {ReadyQ, FreeQ, Blocked}"
    and "lptr_addr sy p = lptr_addr sy q"
  shows "p = q"
  using assms unfolding linked_def by auto

lemma slot_inj:
  assumes "4096 * i + a = 4096 * j + (b :: nat)" and "a < 4096" and "b < 4096"
  shows "i = j \<and> a = b"
proof -
  have "(4096 * i + a) div 4096 = i" "(4096 * j + b) div 4096 = j" using assms(2,3) by simp_all
  with assms(1) show ?thesis by simp
qed

lemma node_slot_inj:
  "node_slot p = node_slot q \<Longrightarrow> p \<notin> {Null, ReadyQ, FreeQ, Blocked} \<Longrightarrow>
    q \<notin> {Null, ReadyQ, FreeQ, Blocked} \<Longrightarrow> p = q"
  by (cases p; cases q; simp)

lemma node_addr_distinct:
  assumes sy: "linked sy" and p: "valid_lptr p" "p \<notin> {Null, ReadyQ, FreeQ, Blocked}"
    and q: "valid_lptr q" and eq: "lptr_addr sy p = lptr_addr sy q"
  shows "p = q"
proof (cases "q \<in> {Null, ReadyQ, FreeQ, Blocked}")
  case True
  have "unat (a_task sy) < unat (lptr_addr sy p)" "unat (lptr_addr sy p) < unat (a_task sy) + 40960"
    using unat_node_addr [OF sy p] by (simp_all add: zeos_consts)
  then show ?thesis using True unat_head_addr [OF sy, of q] eq by auto
next
  case False
  have "unat (lptr_addr sy p) = unat (lptr_addr sy q)" using eq by simp
  then show ?thesis
    using unat_node_addr [OF sy p] unat_node_addr [OF sy q False] slot_inj
    by (metis add_left_cancel node_slot_inj p(2) False prod_eqI)
qed

lemma lptr_addr_inj:
  assumes "linked sy" and "valid_lptr p" and "valid_lptr q" and "lptr_addr sy p = lptr_addr sy q"
  shows "p = q"
proof (cases "p \<in> {Null, ReadyQ, FreeQ, Blocked} \<and> q \<in> {Null, ReadyQ, FreeQ, Blocked}")
  case True
  then show ?thesis
    using assms head_addr_distinct [of sy p q] unat_head_addr(1) [of sy p] unat_head_addr(1) [of sy q]
    by auto
next
  case False
  then show ?thesis
    using assms node_addr_distinct [of sy p q] node_addr_distinct [of sy q p] by metis
qed

end
