(* ===== verification/Frames.thy ===== *)
theory Frames
  imports Prelude
begin

text \<open>
  The physical frame allocator of \<^verbatim>\<open>mm.c\<close> (\<^verbatim>\<open>init_frames\<close>,
  \<^verbatim>\<open>alloc_frame\<close>, \<^verbatim>\<open>free_frame\<close>), a byte map over the 1024 frames. The
  search goes over every second frame only. The allocator's contract is a locale;
  sequences of allocations are treated there once.
\<close>

type_synonym frame_map = "nat \<Rightarrow> Byte"

definition FREE_FRAME :: Byte where "FREE_FRAME = 0"
definition USED_FRAME :: Byte where "USED_FRAME = 1"

definition init_frames :: "frame_map \<Rightarrow> frame_map" where
  "init_frames m =
     (let m = fold (\<lambda>i m. m(i := FREE_FRAME)) [0..<TOTAL_PAGES] m
      in fold (\<lambda>i m. m(i := USED_FRAME)) [0..<NUM_PAG_KERNEL] m)"

text \<open>The search loop of \<^verbatim>\<open>alloc_frame\<close>, from frame \<open>i\<close> on.\<close>

function alloc_from :: "nat \<Rightarrow> frame_map \<Rightarrow> int \<times> frame_map" where
  "alloc_from i m =
     (if i < TOTAL_PAGES then
        (if m i = FREE_FRAME then (int i, m(i := USED_FRAME))
         else alloc_from (i + 2) m)
      else (-1, m))"
  by pat_completeness auto
termination
  by (relation "measure (\<lambda>(i, m). TOTAL_PAGES - i)") auto

declare alloc_from.simps [simp del]

definition alloc_frame :: "frame_map \<Rightarrow> int \<times> frame_map" where
  "alloc_frame m = alloc_from NUM_PAG_KERNEL m"

definition free_frame :: "DWord \<Rightarrow> frame_map \<Rightarrow> frame_map" where
  "free_frame frame m =
     (if NUM_PAG_KERNEL < unat frame \<and> unat frame < TOTAL_PAGES
      then m(unat frame := FREE_FRAME) else m)"

section \<open>The contract of a frame allocator\<close>

locale frame_allocator =
  fixes alloc :: "'m \<Rightarrow> int \<times> 'm"
    and free :: "DWord \<Rightarrow> 'm \<Rightarrow> 'm"
    and avail :: "'m \<Rightarrow> nat set"
    and releasable :: "nat set"
  assumes finite_avail: "finite (avail m)"
    and alloc_some: "avail m \<noteq> {} \<Longrightarrow>
      \<exists>f\<in>avail m. \<exists>m'. alloc m = (int f, m') \<and> avail m' = avail m - {f}"
    and alloc_none: "avail m = {} \<Longrightarrow> alloc m = (-1, m)"
    and free_avail: "unat f \<in> releasable \<Longrightarrow> avail (free f m) = insert (unat f) (avail m)"
begin

text \<open>Allocation fails exactly when nothing is available.\<close>

lemma alloc_fails_iff: "fst (alloc m) = -1 \<longleftrightarrow> avail m = {}"
proof
  assume "fst (alloc m) = -1"
  then show "avail m = {}" using alloc_some [of m] by force
qed (simp add: alloc_none)

lemma alloc_card:
  assumes "n < card (avail m)"
  shows "\<exists>f\<in>avail m. \<exists>m'. alloc m = (int f, m') \<and> avail m' = avail m - {f} \<and> n \<le> card (avail m')"
proof -
  have "avail m \<noteq> {}" using assms by auto
  then obtain f m' where f: "f \<in> avail m" "alloc m = (int f, m')" "avail m' = avail m - {f}"
    using alloc_some by blast
  with assms have "n \<le> card (avail m')" by (simp add: finite_avail)
  with f show ?thesis by blast
qed

text \<open>What was just allocated can be given back: the pool is as before.\<close>

lemma alloc_free:
  assumes "alloc m = (int f, m')" and "avail m \<noteq> {}" and "f \<in> releasable" and "f < 2 ^ 32"
  shows "avail (free (of_nat f) m') = avail m"
proof -
  have u: "unat (of_nat f :: DWord) = f" using assms(4) by (rule unat_of_nat32)
  obtain g m'' where "g \<in> avail m" "alloc m = (int g, m'')" "avail m'' = avail m - {g}"
    using alloc_some [OF assms(2)] by blast
  with assms(1) have "f \<in> avail m" "avail m' = avail m - {f}" by auto
  then show ?thesis using free_avail [of "of_nat f" m'] u assms(3) by auto
qed

end

section \<open>The allocator of mm.c meets it\<close>

definition avail_frames :: "frame_map \<Rightarrow> nat set" where
  "avail_frames m = {f. NUM_PAG_KERNEL \<le> f \<and> f < TOTAL_PAGES \<and> even f \<and> m f = FREE_FRAME}"

definition releasable_frames :: "nat set" where
  "releasable_frames = {f. NUM_PAG_KERNEL < f \<and> f < TOTAL_PAGES \<and> even f}"

lemma finite_avail_frames: "finite (avail_frames m)"
  by (rule finite_subset [of _ "{..<TOTAL_PAGES}"]) (auto simp: avail_frames_def)

lemma alloc_from_spec:
  "even i \<Longrightarrow>
   (\<exists>f. i \<le> f \<and> f < TOTAL_PAGES \<and> even f \<and> m f = FREE_FRAME \<and>
      (\<forall>g. i \<le> g \<and> g < f \<and> even g \<longrightarrow> m g \<noteq> FREE_FRAME) \<and>
      alloc_from i m = (int f, m(f := USED_FRAME))) \<or>
   (\<forall>f. i \<le> f \<and> f < TOTAL_PAGES \<and> even f \<longrightarrow> m f \<noteq> FREE_FRAME) \<and> alloc_from i m = (-1, m)"
proof (induction i m rule: alloc_from.induct)
  case (1 i m)
  have step: "g = i \<or> i + 2 \<le> g" if "i \<le> g" "even g" for g
    using that 1(2) by (cases "g = i + 1") auto
  show ?case
  proof (cases "i < TOTAL_PAGES \<and> m i \<noteq> FREE_FRAME")
    case False
    with 1(2) show ?thesis by (auto simp: alloc_from.simps [of i m])
  next
    case True
    have "even (i + 2)" using 1(2) by simp
    note IH = 1(1) [OF conjunct1 [OF True] conjunct2 [OF True] this]
    have "alloc_from i m = alloc_from (i + 2) m" using True by (simp add: alloc_from.simps [of i m])
    then show ?thesis using IH
    proof (elim disjE exE conjE, goal_cases)
      case (1 f)
      then show ?case using step True by (intro disjI1 exI [of _ f]) fastforce
    next
      case 2
      then show ?case using step True by (intro disjI2) fastforce
    qed
  qed
qed

lemma frame_values [simp]: "FREE_FRAME \<noteq> USED_FRAME" "USED_FRAME \<noteq> FREE_FRAME"
  by (simp_all add: FREE_FRAME_def USED_FRAME_def)

lemma alloc_frame_cases:
  obtains (found) f where "f \<in> avail_frames m" "\<And>g. g \<in> avail_frames m \<Longrightarrow> f \<le> g"
      "alloc_frame m = (int f, m(f := USED_FRAME))" "avail_frames (m(f := USED_FRAME)) = avail_frames m - {f}"
  | (full) "avail_frames m = {}" "alloc_frame m = (-1, m)"
proof -
  have "even NUM_PAG_KERNEL" by (simp add: zeos_consts)
  from alloc_from_spec [OF this, of m] show ?thesis
  proof (elim disjE exE conjE, goal_cases)
    case (1 f)
    then show ?case
      by (intro found [of f]) (auto simp: avail_frames_def alloc_frame_def not_le [symmetric])
  next
    case 2
    then show ?case by (intro full) (auto simp: avail_frames_def alloc_frame_def)
  qed
qed

interpretation fa: frame_allocator alloc_frame free_frame avail_frames releasable_frames
proof unfold_locales
  fix m
  show "finite (avail_frames m)" by (rule finite_avail_frames)
  show "\<exists>f\<in>avail_frames m. \<exists>m'. alloc_frame m = (int f, m') \<and> avail_frames m' = avail_frames m - {f}"
    if "avail_frames m \<noteq> {}"
    by (cases m rule: alloc_frame_cases) (use that in auto)
  show "alloc_frame m = (-1, m)" if "avail_frames m = {}"
    by (cases m rule: alloc_frame_cases) (use that in auto)
next
  fix f m
  show "avail_frames (free_frame f m) = insert (unat f) (avail_frames m)" if "unat f \<in> releasable_frames"
    using that by (auto simp: avail_frames_def releasable_frames_def free_frame_def)
qed

section \<open>Initialisation\<close>

lemma fold_upd_apply: "fold (\<lambda>i m. m(i := v)) xs m k = (if k \<in> set xs then v else m k)"
  by (induction xs arbitrary: m) auto

lemma init_frames_apply:
  "init_frames m f = (if f < NUM_PAG_KERNEL then USED_FRAME else if f < TOTAL_PAGES then FREE_FRAME else m f)"
  by (auto simp: init_frames_def fold_upd_apply)

lemma avail_init: "avail_frames (init_frames m) = {f. NUM_PAG_KERNEL \<le> f \<and> f < TOTAL_PAGES \<and> even f}"
  by (auto simp: avail_frames_def init_frames_apply)

lemma even_frames_image: "{f. 256 \<le> f \<and> f < 1024 \<and> even f} = (\<lambda>k. 256 + 2 * k) ` {..<384::nat}"
proof (intro set_eqI iffI)
  fix f :: nat assume "f \<in> {f. 256 \<le> f \<and> f < 1024 \<and> even f}"
  then have "f = 256 + 2 * ((f - 256) div 2)" "(f - 256) div 2 < 384" by auto
  then show "f \<in> (\<lambda>k. 256 + 2 * k) ` {..<384}" by blast
qed auto

lemma card_even_frames: "card {f. NUM_PAG_KERNEL \<le> f \<and> f < TOTAL_PAGES \<and> even f} = 384"
  unfolding zeos_consts even_frames_image by (subst card_image) (auto simp: inj_on_def)

end
