(* ===== verification/Paging.thy ===== *)
theory Paging
  imports Layout Frames
begin

text \<open>
  The paging half of \<^verbatim>\<open>mm.c\<close>: page directories, page tables, the routines that
  map and unmap user pages, and the hardware they program. The processor's address
  translation is modelled with its TLB: a translation is cached when first used and
  stays cached until \<^verbatim>\<open>CR3\<close> is written, whatever happens to the page table in
  between. Supervisor accesses ignore the \<^verbatim>\<open>rw\<close> and \<^verbatim>\<open>user\<close> bits, as
  \<^verbatim>\<open>CR0.WP\<close> is never set.
\<close>

section \<open>State\<close>

record mm =
  phys_mem :: frame_map
  dir_pages :: "nat \<Rightarrow> nat \<Rightarrow> page_table_entry"
  pagusr_table :: "nat \<Rightarrow> nat \<Rightarrow> page_table_entry"
  ram :: "nat \<Rightarrow> nat \<Rightarrow> Byte"          \<comment> \<open>frame, offset\<close>
  cr0 :: DWord
  cr3 :: DWord
  tlb :: "nat \<rightharpoonup> page_table_entry"   \<comment> \<open>by logical page\<close>

text \<open>
  The arrays \<^verbatim>\<open>dir_pages\<close> and \<^verbatim>\<open>pagusr_table\<close> are reached through
  pointers; a pointer that is not the start of one of their rows faults.
\<close>

definition row_index :: "DWord \<Rightarrow> DWord \<Rightarrow> nat option" where
  "row_index base p =
     (let d = unat (p - base) in
      if d mod 4096 = 0 \<and> d div 4096 < NR_TASKS then Some (d div 4096) else None)"

definition dir_index :: "symbols \<Rightarrow> DWord \<Rightarrow> nat option" where
  "dir_index sy p = row_index (a_dir_pages sy) p"

definition pt_index :: "symbols \<Rightarrow> DWord \<Rightarrow> nat option" where
  "pt_index sy p = row_index (a_pagusr_table sy) p"

text \<open>\<^verbatim>\<open>PT[page]\<close> as a value and as the target of an assignment.\<close>

definition pt_read :: "symbols \<Rightarrow> DWord \<Rightarrow> nat \<Rightarrow> mm \<Rightarrow> page_table_entry option" where
  "pt_read sy PT page m = do {
     j \<leftarrow> pt_index sy PT;
     if page < TOTAL_PAGES then Some (pagusr_table m j page) else None }"

definition pt_write :: "symbols \<Rightarrow> DWord \<Rightarrow> nat \<Rightarrow> page_table_entry \<Rightarrow> mm \<Rightarrow> mm option" where
  "pt_write sy PT page e m = do {
     j \<leftarrow> pt_index sy PT;
     if page < TOTAL_PAGES
     then Some (m\<lparr>pagusr_table := (pagusr_table m)(j := (pagusr_table m j)(page := e))\<rparr>)
     else None }"

text \<open>The entries the code writes, field by field.\<close>

definition user_entry :: "DWord \<Rightarrow> page_table_entry" where
  "user_entry f = set_present 1 (set_user 1 (set_pbase_addr f 0))"

definition user_rw_entry :: "DWord \<Rightarrow> page_table_entry" where
  "user_rw_entry f = set_present 1 (set_rw 1 (set_user 1 (set_pbase_addr f 0)))"

section \<open>Routines of mm.c\<close>

definition init_dir_pages :: "symbols \<Rightarrow> mm \<Rightarrow> mm" where
  "init_dir_pages sy m = fold (\<lambda>i m.
     m\<lparr>dir_pages := (dir_pages m)(i := (dir_pages m i)
       (ENTRY_DIR_PAGES := user_rw_entry (drop_bit 12 (pt_addr sy i))))\<rparr>) [0..<NR_TASKS] m"

definition init_table_pages :: "mm \<Rightarrow> mm" where
  "init_table_pages m = fold (\<lambda>j m.
     let m = fold (\<lambda>i m. m\<lparr>pagusr_table := (pagusr_table m)(j := (pagusr_table m j)(i := 0))\<rparr>)
               [0..<TOTAL_PAGES] m
     in fold (\<lambda>i m. m\<lparr>pagusr_table := (pagusr_table m)(j := (pagusr_table m j)
               (i := set_present 1 (set_rw 1 (set_pbase_addr (of_nat i) (pagusr_table m j i)))))\<rparr>)
               [1..<NUM_PAG_KERNEL] m) [0..<NR_TASKS] m"

text \<open>\<^verbatim>\<open>get_PT\<close>: the address in the directory's first entry (\<^verbatim>\<open>sched.c\<close>).\<close>

definition get_PT :: "symbols \<Rightarrow> DWord \<Rightarrow> mm \<Rightarrow> DWord option" where
  "get_PT sy dir m = do {
     d \<leftarrow> dir_index sy dir;
     Some (push_bit 12 (pbase_addr (dir_pages m d ENTRY_DIR_PAGES))) }"

text \<open>One iteration of the two loops of \<^verbatim>\<open>set_user_pages\<close>; the result of
  \<^verbatim>\<open>alloc_frame\<close> is stored without a check, truncated to the 20-bit field.\<close>

fun map_new_pages :: "symbols \<Rightarrow> DWord \<Rightarrow> (DWord \<Rightarrow> page_table_entry) \<Rightarrow> nat list \<Rightarrow> mm \<Rightarrow> mm option" where
  "map_new_pages sy PT entry [] m = Some m"
| "map_new_pages sy PT entry (page # pages) m =
     (let (new_ph_pag, fm) = alloc_frame (phys_mem m);
          m = m\<lparr>phys_mem := fm\<rparr> in
      do { m \<leftarrow> pt_write sy PT page (entry (of_int new_ph_pag)) m;
           map_new_pages sy PT entry pages m })"

definition set_user_pages :: "symbols \<Rightarrow> DWord \<Rightarrow> mm \<Rightarrow> mm option" where
  "set_user_pages sy dir m = do {
     process_PT \<leftarrow> get_PT sy dir m;
     m \<leftarrow> map_new_pages sy process_PT user_entry
            (map (\<lambda>pag. PAG_LOG_INIT_CODE + pag) [0..<NUM_PAG_CODE]) m;
     map_new_pages sy process_PT user_rw_entry
            (map (\<lambda>pag. PAG_LOG_INIT_DATA + pag) [0..<NUM_PAG_DATA]) m }"

text \<open>Writing \<^verbatim>\<open>CR3\<close> flushes the TLB.\<close>

definition set_cr3 :: "DWord \<Rightarrow> mm \<Rightarrow> mm" where
  "set_cr3 dir m = m\<lparr>cr3 := dir, tlb := Map.empty\<rparr>"

definition set_pe_flag :: "mm \<Rightarrow> mm" where
  "set_pe_flag m = m\<lparr>cr0 := cr0 m OR 0x80000000\<rparr>"

fun unmap_pages :: "symbols \<Rightarrow> DWord \<Rightarrow> nat list \<Rightarrow> mm \<Rightarrow> mm option" where
  "unmap_pages sy PT [] m = Some m"
| "unmap_pages sy PT (page # pages) m = do {
     e \<leftarrow> pt_read sy PT page m;
     let m = m\<lparr>phys_mem := free_frame (pbase_addr e) (phys_mem m)\<rparr>;
     m \<leftarrow> pt_write sy PT page 0 m;
     unmap_pages sy PT pages m }"

definition free_user_pages :: "symbols \<Rightarrow> DWord \<Rightarrow> mm \<Rightarrow> mm option" where
  "free_user_pages sy dir m = do {
     process_PT \<leftarrow> get_PT sy dir m;
     unmap_pages sy process_PT (map (\<lambda>pag. PAG_LOG_INIT_DATA + pag) [0..<NUM_PAG_DATA]) m }"

definition set_ss_pag :: "symbols \<Rightarrow> DWord \<Rightarrow> nat \<Rightarrow> DWord \<Rightarrow> mm \<Rightarrow> mm option" where
  "set_ss_pag sy PT page frame m = pt_write sy PT page (user_rw_entry frame) m"

definition del_ss_pag :: "symbols \<Rightarrow> DWord \<Rightarrow> nat \<Rightarrow> mm \<Rightarrow> mm option" where
  "del_ss_pag sy PT logical_page m = pt_write sy PT logical_page 0 m"

definition get_frame :: "symbols \<Rightarrow> DWord \<Rightarrow> nat \<Rightarrow> mm \<Rightarrow> DWord option" where
  "get_frame sy PT logical_page m = map_option pbase_addr (pt_read sy PT logical_page m)"

section \<open>Address translation\<close>

text \<open>The page walk: directory entry, then page-table entry, both present.\<close>

definition walk :: "symbols \<Rightarrow> mm \<Rightarrow> nat \<Rightarrow> page_table_entry option" where
  "walk sy m page = do {
     d \<leftarrow> dir_index sy (cr3 m);
     let e = dir_pages m d (page div 1024);
     if present e = 0 then None
     else do {
       j \<leftarrow> pt_index sy (push_bit 12 (pbase_addr e));
       let e = pagusr_table m j (page mod 1024);
       if present e = 0 then None else Some e } }"

text \<open>A translation comes from the TLB when it is cached there, stale or not.\<close>

definition translate :: "symbols \<Rightarrow> mm \<Rightarrow> nat \<Rightarrow> (page_table_entry \<times> mm) option" where
  "translate sy m page =
     (case tlb m page of
        Some e \<Rightarrow> Some (e, m)
      | None \<Rightarrow> (case walk sy m page of
          None \<Rightarrow> None
        | Some e \<Rightarrow> Some (e, m\<lparr>tlb := (tlb m)(page \<mapsto> e)\<rparr>)))"

definition page_of :: "DWord \<Rightarrow> nat" where "page_of a = unat (drop_bit 12 a)"
definition offset_of :: "DWord \<Rightarrow> nat" where "offset_of a = unat (a AND 0xFFF)"

definition load8 :: "symbols \<Rightarrow> mm \<Rightarrow> DWord \<Rightarrow> (Byte \<times> mm) option" where
  "load8 sy m a = do {
     (e, m) \<leftarrow> translate sy m (page_of a);
     Some (ram m (unat (pbase_addr e)) (offset_of a), m) }"

definition store8 :: "symbols \<Rightarrow> mm \<Rightarrow> DWord \<Rightarrow> Byte \<Rightarrow> mm option" where
  "store8 sy m a v = do {
     (e, m) \<leftarrow> translate sy m (page_of a);
     let f = unat (pbase_addr e);
     Some (m\<lparr>ram := (ram m)(f := (ram m f)(offset_of a := v))\<rparr>) }"

section \<open>Rows and entries\<close>

lemma row_index_slot:
  "i < NR_TASKS \<Longrightarrow> row_index base (base + of_nat (4096 * i)) = Some i"
proof -
  assume i: "i < NR_TASKS"
  have "unat (of_nat (4096 * i) :: DWord) = 4096 * i"
    by (rule unat_of_nat32) (use i in \<open>simp add: zeos_consts\<close>)
  with i show ?thesis by (simp add: row_index_def Let_def del: of_nat_mult)
qed

lemma dir_index_addr [layout_simps]: "i < NR_TASKS \<Longrightarrow> dir_index sy (dir_addr sy i) = Some i"
  using row_index_slot [of i "a_dir_pages sy"]
  by (simp add: dir_index_def dir_addr_def zeos_consts del: of_nat_mult)

lemma pt_index_addr [layout_simps]: "i < NR_TASKS \<Longrightarrow> pt_index sy (pt_addr sy i) = Some i"
  using row_index_slot [of i "a_pagusr_table sy"]
  by (simp add: pt_index_def pt_addr_def zeos_consts del: of_nat_mult)

text \<open>Page tables are page aligned, so the directory entry keeps their whole address.\<close>

lemma pt_addr_frame:
  assumes "linked sy" and "i < NR_TASKS"
  shows "push_bit 12 (drop_bit 12 (pt_addr sy i)) = pt_addr sy i"
    and "unat (drop_bit 12 (pt_addr sy i)) < 2 ^ 20"
proof -
  have u: "unat (pt_addr sy i) = unat (a_pagusr_table sy) + 4096 * i"
    using unat_slot [of "a_pagusr_table sy" i 0] linked_pt [OF assms(1)] assms(2)
    by (simp add: pt_addr_def zeos_consts del: of_nat_mult)
  have d: "unat (drop_bit 12 (pt_addr sy i)) = unat (pt_addr sy i) div 4096"
    by (simp add: drop_bit_eq_div unat_div)
  have "4096 dvd unat (pt_addr sy i)" using u linked_pt [OF assms(1)] by simp
  then have "unat (push_bit 12 (drop_bit 12 (pt_addr sy i))) = unat (pt_addr sy i)"
    using unat_lt32 [of "pt_addr sy i"]
    by (simp add: push_bit_eq_mult drop_bit_eq_div unat_word_ariths unat_div)
  then show "push_bit 12 (drop_bit 12 (pt_addr sy i)) = pt_addr sy i"
    by (simp add: word_unat_eq_iff)
  show "unat (drop_bit 12 (pt_addr sy i)) < 2 ^ 20"
    using d unat_lt32 [of "pt_addr sy i"] by simp
qed

lemma entry_fields [simp]:
  "present (user_rw_entry f) = 1" "present (user_entry f) = 1"
  "user (user_rw_entry f) = 1" "user (user_entry f) = 1"
  "rw (user_rw_entry f) = 1" "rw (user_entry f) = 0"
  by (simp_all add: user_rw_entry_def user_entry_def)

lemma entry_pbase [simp]:
  "unat f < 2 ^ 20 \<Longrightarrow> pbase_addr (user_rw_entry f) = f"
  "unat f < 2 ^ 20 \<Longrightarrow> pbase_addr (user_entry f) = f"
  by (simp_all add: user_rw_entry_def user_entry_def and_mask20_small)

lemma entry_frame:
  "f < 1024 \<Longrightarrow> unat (pbase_addr (user_rw_entry (of_nat f))) = f"
  "f < 1024 \<Longrightarrow> unat (pbase_addr (user_entry (of_nat f))) = f"
  by simp_all

text \<open>A kernel page maps to the frame of the same number, for supervisor mode only.\<close>

definition kernel_entry :: "nat \<Rightarrow> page_table_entry" where
  "kernel_entry i = set_present 1 (set_rw 1 (set_pbase_addr (of_nat i) 0))"

definition initial_table :: "nat \<Rightarrow> page_table_entry" where
  "initial_table i = (if 1 \<le> i \<and> i < NUM_PAG_KERNEL then kernel_entry i else 0)"

lemma kernel_entry_fields [simp]:
  "present (kernel_entry i) = 1" "user (kernel_entry i) = 0" "i < 1024 \<Longrightarrow> unat (pbase_addr (kernel_entry i)) = i"
  by (simp_all add: kernel_entry_def and_mask20_small)

lemma zero_entry [simp]: "present 0 = 0" "user 0 = 0"
  by (simp_all add: present_def user_def bf_get_def)

end
