(* ===== verification/Utils.thy ===== *)
theory Utils
  imports Paging
begin

text \<open>
  \<^verbatim>\<open>utils.c\<close>: the copy loops, the user-pointer check, and the 64-bit division behind
  \<^verbatim>\<open>get_ticks\<close>. The copy routines are written once over the machine's byte load and
  store, because the same C code runs between user pages, kernel objects and local
  arrays; what a memory must offer for the copy to be right is a locale.
\<close>

section \<open>copy_data, copy_from_user, copy_to_user\<close>

type_synonym 's loader = "'s \<Rightarrow> DWord \<Rightarrow> (Byte \<times> 's) option"
type_synonym 's storer = "'s \<Rightarrow> DWord \<Rightarrow> Byte \<Rightarrow> 's option"

text \<open>A wide access is a run of byte accesses: all loads, then all stores.\<close>

fun load_bytes :: "'s loader \<Rightarrow> nat \<Rightarrow> DWord \<Rightarrow> 's \<Rightarrow> (Byte list \<times> 's) option" where
  "load_bytes ld 0 p s = Some ([], s)"
| "load_bytes ld (Suc n) p s = do {
     (b, s) \<leftarrow> ld s p;
     (bs, s) \<leftarrow> load_bytes ld n (p + 1) s;
     Some (b # bs, s) }"

fun store_bytes :: "'s storer \<Rightarrow> DWord \<Rightarrow> Byte list \<Rightarrow> 's \<Rightarrow> 's option" where
  "store_bytes st q [] s = Some s"
| "store_bytes st q (b # bs) s = do { s \<leftarrow> st s q b; store_bytes st (q + 1) bs s }"

function copy_dwords :: "'s loader \<Rightarrow> 's storer \<Rightarrow> DWord \<Rightarrow> DWord \<Rightarrow> int \<Rightarrow> 's
    \<Rightarrow> (DWord \<times> DWord \<times> int \<times> 's) option" where
  "copy_dwords ld st p q sz s =
     (if 4 < sz then do {
        (w, s) \<leftarrow> load_bytes ld 4 p s;
        s \<leftarrow> store_bytes st q w s;
        copy_dwords ld st (p + 4) (q + 4) (sz - 4) s }
      else Some (p, q, sz, s))"
  by pat_completeness auto
termination
  by (relation "measure (\<lambda>(ld, st, p, q, sz, s). nat sz)") auto

function copy_tail :: "'s loader \<Rightarrow> 's storer \<Rightarrow> DWord \<Rightarrow> DWord \<Rightarrow> int \<Rightarrow> 's \<Rightarrow> 's option" where
  "copy_tail ld st p q sz s =
     (if 0 < sz then do {
        (b, s) \<leftarrow> ld s p;
        s \<leftarrow> st s q b;
        copy_tail ld st (p + 1) (q + 1) (sz - 1) s }
      else Some s)"
  by pat_completeness auto
termination
  by (relation "measure (\<lambda>(ld, st, p, q, sz, s). nat sz)") auto

declare copy_dwords.simps [simp del] copy_tail.simps [simp del]

definition copy_data :: "'s loader \<Rightarrow> 's storer \<Rightarrow> DWord \<Rightarrow> DWord \<Rightarrow> int \<Rightarrow> 's \<Rightarrow> 's option" where
  "copy_data ld st start dest sz s = do {
     (p, q, sz, s) \<leftarrow> copy_dwords ld st start dest sz s;
     copy_tail ld st p q sz s }"

definition copy_from_user :: "'s loader \<Rightarrow> 's storer \<Rightarrow> DWord \<Rightarrow> DWord \<Rightarrow> int \<Rightarrow> 's \<Rightarrow> (cint \<times> 's) option" where
  "copy_from_user ld st start dest sz s = do {
     (p, q, sz, s) \<leftarrow> copy_dwords ld st start dest sz s;
     s \<leftarrow> copy_tail ld st p q sz s;
     Some (0, s) }"

definition copy_to_user :: "'s loader \<Rightarrow> 's storer \<Rightarrow> DWord \<Rightarrow> DWord \<Rightarrow> int \<Rightarrow> 's \<Rightarrow> (cint \<times> 's) option" where
  "copy_to_user ld st start dest sz s = do {
     (p, q, sz, s) \<leftarrow> copy_dwords ld st start dest sz s;
     s \<leftarrow> copy_tail ld st p q sz s;
     Some (0, s) }"

section \<open>access_ok\<close>

definition VERIFY_READ :: cint where "VERIFY_READ = 0"
definition VERIFY_WRITE :: cint where "VERIFY_WRITE = 1"

definition access_ok :: "cint \<Rightarrow> DWord \<Rightarrow> DWord \<Rightarrow> bool" where
  "access_ok type addr sz =
     (let addr_ini = drop_bit 12 addr;
          addr_fin = drop_bit 12 (addr + sz) in
      if addr_fin < addr_ini then False
      else if type = VERIFY_WRITE \<and> of_nat USER_FIRST_PAGE \<le> addr_ini
              \<and> addr_fin \<le> of_nat (USER_FIRST_PAGE + NUM_PAG_DATA) then True
      else of_nat USER_FIRST_PAGE \<le> addr_ini
           \<and> addr_fin \<le> of_nat (USER_FIRST_PAGE + NUM_PAG_CODE + NUM_PAG_DATA))"

section \<open>get_ticks\<close>

definition CYCLESPERTICK :: DWord where "CYCLESPERTICK = 109000"

text \<open>
  The macro \<^verbatim>\<open>do_div(n,base)\<close>: the 64-bit dividend is split into two halves; the
  \<^verbatim>\<open>divl\<close> instruction divides the 64-bit value \<open>upper:low\<close> by the base and faults
  when the base is zero or the quotient does not fit 32 bits. Result: the new value of
  \<open>n\<close> and the remainder.
\<close>

definition divl :: "DWord \<Rightarrow> DWord \<Rightarrow> DWord \<Rightarrow> (DWord \<times> DWord) option" where
  "divl hi lo d =
     (let n = unat hi * 2 ^ 32 + unat lo in
      if d = 0 \<or> 2 ^ 32 \<le> n div unat d then None
      else Some (of_nat (n div unat d), of_nat (n mod unat d)))"

definition do_div :: "64 word \<Rightarrow> DWord \<Rightarrow> (64 word \<times> DWord) option" where
  "do_div n base =
     (let low = ucast n :: DWord; high = ucast (drop_bit 32 n) :: DWord;
          upper = (if high \<noteq> 0 then high mod base else high);
          high' = (if high \<noteq> 0 then high div base else high)
      in do {
        (q, r) \<leftarrow> divl upper low base;
        Some (push_bit 32 (ucast high') OR ucast q, r) })"

text \<open>\<^verbatim>\<open>rdtsc\<close> and \<^verbatim>\<open>get_ticks\<close>, given the time-stamp counter.\<close>

definition rdtsc :: "64 word \<Rightarrow> DWord \<times> DWord" where
  "rdtsc tsc = (ucast tsc, ucast (drop_bit 32 tsc))"

definition get_ticks :: "64 word \<Rightarrow> DWord option" where
  "get_ticks tsc = do {
     let (eax, edx) = rdtsc tsc;
     let ticks = push_bit 32 (ucast edx) + ucast eax;
     (ticks, _) \<leftarrow> do_div ticks CYCLESPERTICK;
     Some (ucast ticks) }"

section \<open>Copying through a byte memory\<close>

locale byte_memory =
  fixes ld :: "'s loader" and st :: "'s storer"
    and inv :: "'s \<Rightarrow> bool" and keeps :: "'s \<Rightarrow> 's \<Rightarrow> bool"
    and R :: "DWord set" and rview :: "'s \<Rightarrow> DWord \<Rightarrow> Byte"
    and W :: "DWord set" and wview :: "'s \<Rightarrow> DWord \<Rightarrow> Byte"
  assumes keeps_refl: "keeps s s"
    and keeps_trans: "keeps s t \<Longrightarrow> keeps t u \<Longrightarrow> keeps s u"
    and load_ok: "inv s \<Longrightarrow> a \<in> R \<Longrightarrow> \<exists>s'. ld s a = Some (rview s a, s') \<and> inv s' \<and> keeps s s' \<and>
      (\<forall>x\<in>R. rview s' x = rview s x) \<and> (\<forall>x\<in>W. wview s' x = wview s x)"
    and store_ok: "inv s \<Longrightarrow> a \<in> W \<Longrightarrow> \<exists>s'. st s a b = Some s' \<and> inv s' \<and> keeps s s' \<and>
      (\<forall>x\<in>R. rview s' x = rview s x) \<and> (\<forall>x\<in>W. wview s' x = (if x = a then b else wview s x))"
begin

text \<open>The effect of copying \<open>n\<close> bytes from \<open>p\<close> to \<open>q\<close>, and its composition.\<close>

definition copied :: "nat \<Rightarrow> DWord \<Rightarrow> DWord \<Rightarrow> 's \<Rightarrow> 's \<Rightarrow> bool" where
  "copied n p q s s' \<longleftrightarrow> inv s' \<and> keeps s s' \<and> (\<forall>x\<in>R. rview s' x = rview s x) \<and>
     (\<forall>x\<in>W. wview s' x = (if unat (x - q) < n then rview s (p + (x - q)) else wview s x))"

lemma copied_zero: "inv s \<Longrightarrow> copied 0 p q s s"
  by (simp add: copied_def keeps_refl)

lemma copied_append:
  assumes "copied n p q s t" and "copied m (p + of_nat n) (q + of_nat n) t u"
    and "n + m \<le> 2 ^ 32" and "\<And>i. i < m \<Longrightarrow> p + of_nat n + of_nat i \<in> R"
  shows "copied (n + m) p q s u"
  unfolding copied_def
proof (intro conjI ballI)
  show "inv u" "keeps s u" using assms(1,2) keeps_trans unfolding copied_def by blast+
  show "rview u x = rview s x" if "x \<in> R" for x using assms(1,2) that unfolding copied_def by simp
  fix x assume x: "x \<in> W"
  let ?d = "x - q"
  have sub: "x - (q + of_nat n) = ?d - of_nat n" by simp
  have window: "unat (?d - of_nat n) < m \<longleftrightarrow> n \<le> unat ?d \<and> unat ?d < n + m"
    by (rule unat_shift_window) (rule assms(3))
  have u: "wview u x = (if unat (?d - of_nat n) < m then rview t (p + of_nat n + (?d - of_nat n)) else wview t x)"
    using assms(2) x unfolding sub [symmetric] copied_def by blast
  have t: "wview t x = (if unat ?d < n then rview s (p + ?d) else wview s x)"
    using assms(1) x unfolding copied_def by blast
  show "wview u x = (if unat ?d < n + m then rview s (p + ?d) else wview s x)"
  proof (cases "unat (?d - of_nat n) < m")
    case True
    have "p + of_nat n + of_nat (unat (?d - of_nat n)) \<in> R" by (rule assms(4)) (rule True)
    then have "rview t (p + of_nat n + (?d - of_nat n)) = rview s (p + of_nat n + (?d - of_nat n))"
      using assms(1) unfolding copied_def by simp
    with u True window show ?thesis by simp
  next
    case False
    with u t window show ?thesis by auto
  qed
qed

lemma copied_byte:
  assumes "inv s" and "p \<in> R" and "q \<in> W"
  shows "\<exists>s1 s2. ld s p = Some (rview s p, s1) \<and> st s1 q (rview s p) = Some s2 \<and> copied 1 p q s s2"
proof -
  obtain s1 where s1: "ld s p = Some (rview s p, s1)" "inv s1" "keeps s s1"
    "\<forall>x\<in>R. rview s1 x = rview s x" "\<forall>x\<in>W. wview s1 x = wview s x"
    using load_ok [OF assms(1,2)] by blast
  obtain s2 where s2: "st s1 q (rview s p) = Some s2" "inv s2" "keeps s1 s2"
    "\<forall>x\<in>R. rview s2 x = rview s1 x" "\<forall>x\<in>W. wview s2 x = (if x = q then rview s p else wview s1 x)"
    using store_ok [OF s1(2) assms(3)] by blast
  have "keeps s s2" using s1(3) s2(3) by (rule keeps_trans)
  then have "copied 1 p q s s2"
    using s1 s2 by (auto simp: copied_def unat_eq_zero)
  with s1 s2 show ?thesis by blast
qed

lemma load_bytes_ok:
  assumes "inv s" and "\<And>i. i < n \<Longrightarrow> p + of_nat i \<in> R"
  shows "\<exists>s'. load_bytes ld n p s = Some (map (\<lambda>i. rview s (p + of_nat i)) [0..<n], s') \<and> inv s' \<and>
    keeps s s' \<and> (\<forall>x\<in>R. rview s' x = rview s x) \<and> (\<forall>x\<in>W. wview s' x = wview s x)"
  using assms
proof (induction n arbitrary: p s)
  case 0
  then show ?case by (simp add: keeps_refl)
next
  case (Suc n)
  have "p \<in> R" using Suc.prems(2) [of 0] by simp
  then obtain s1 where s1: "ld s p = Some (rview s p, s1)" "inv s1" "keeps s s1"
    "\<forall>x\<in>R. rview s1 x = rview s x" "\<forall>x\<in>W. wview s1 x = wview s x"
    using load_ok [OF Suc.prems(1)] by blast
  have R: "p + 1 + of_nat i \<in> R" if "i < n" for i
    using Suc.prems(2) [of "Suc i"] that by (simp add: add.assoc)
  obtain s2 where s2: "load_bytes ld n (p + 1) s1 = Some (map (\<lambda>i. rview s1 (p + 1 + of_nat i)) [0..<n], s2)"
    "inv s2" "keeps s1 s2" "\<forall>x\<in>R. rview s2 x = rview s1 x" "\<forall>x\<in>W. wview s2 x = wview s1 x"
    using Suc.IH [OF s1(2) R] by blast
  have "map (\<lambda>i. rview s1 (p + 1 + of_nat i)) [0..<n] = map (\<lambda>i. rview s (p + of_nat (Suc i))) [0..<n]"
    using s1(4) R by (auto simp: add.assoc)
  moreover have "keeps s s2" using s1(3) s2(3) by (rule keeps_trans)
  ultimately show ?case
    using s1 s2 by (simp add: upt_conv_Cons map_Suc_upt [symmetric] del: upt_Suc)
qed

lemma store_bytes_ok:
  assumes "inv s" and "\<And>i. i < length bs \<Longrightarrow> q + of_nat i \<in> W" and "length bs \<le> 2 ^ 32"
  shows "\<exists>s'. store_bytes st q bs s = Some s' \<and> inv s' \<and> keeps s s' \<and> (\<forall>x\<in>R. rview s' x = rview s x) \<and>
    (\<forall>x\<in>W. wview s' x = (if unat (x - q) < length bs then bs ! unat (x - q) else wview s x))"
  using assms
proof (induction bs arbitrary: q s)
  case Nil
  then show ?case by (simp add: keeps_refl)
next
  case (Cons b bs)
  have "q \<in> W" using Cons.prems(2) [of 0] by simp
  then obtain s1 where s1: "st s q b = Some s1" "inv s1" "keeps s s1"
    "\<forall>x\<in>R. rview s1 x = rview s x" "\<forall>x\<in>W. wview s1 x = (if x = q then b else wview s x)"
    using store_ok [OF Cons.prems(1)] by blast
  have W: "q + 1 + of_nat i \<in> W" if "i < length bs" for i
    using Cons.prems(2) [of "Suc i"] that by (simp add: add.assoc)
  have len: "length bs \<le> 2 ^ 32" using Cons.prems(3) by simp
  obtain s2 where s2: "store_bytes st (q + 1) bs s1 = Some s2" "inv s2" "keeps s1 s2"
    "\<forall>x\<in>R. rview s2 x = rview s1 x"
    "\<forall>x\<in>W. wview s2 x = (if unat (x - (q + 1)) < length bs then bs ! unat (x - (q + 1)) else wview s1 x)"
    using Cons.IH [OF s1(2) W len] by blast
  have view: "wview s2 x = (if unat (x - q) < Suc (length bs) then (b # bs) ! unat (x - q) else wview s x)"
    if "x \<in> W" for x
  proof -
    let ?d = "x - q"
    have sub: "x - (q + 1) = ?d - of_nat 1" by simp
    have window: "unat (?d - of_nat 1) < length bs \<longleftrightarrow> 1 \<le> unat ?d \<and> unat ?d < 1 + length bs"
      by (rule unat_shift_window) (use Cons.prems(3) in simp)
    have pred: "unat ?d = Suc (unat (?d - of_nat 1))" if "1 \<le> unat ?d"
      using that by (simp add: unat_sub_if')
    have v: "wview s2 x = (if unat (?d - of_nat 1) < length bs then bs ! unat (?d - of_nat 1) else wview s1 x)"
      using s2(5) that unfolding sub [symmetric] by blast
    show ?thesis
    proof (cases "x = q")
      case False
      then have "0 < unat ?d" by (simp add: unat_gt_0)
      then have pos: "1 \<le> unat ?d" by simp
      then show ?thesis using v s1(5) that window pred [OF pos] False by auto
    qed (use v s1(5) that window in auto)
  qed
  have "keeps s s2" using s1(3) s2(3) by (rule keeps_trans)
  with s1 s2 view show ?case by auto
qed

lemma copied_dword:
  assumes "inv s" and "\<And>i. i < 4 \<Longrightarrow> p + of_nat i \<in> R" and "\<And>i. i < 4 \<Longrightarrow> q + of_nat i \<in> W"
  shows "\<exists>w s1 s2. load_bytes ld 4 p s = Some (w, s1) \<and> store_bytes st q w s1 = Some s2 \<and> copied 4 p q s s2"
proof -
  let ?w = "map (\<lambda>i. rview s (p + of_nat i)) [0..<4]"
  obtain s1 where s1: "load_bytes ld 4 p s = Some (?w, s1)" "inv s1" "keeps s s1"
    "\<forall>x\<in>R. rview s1 x = rview s x" "\<forall>x\<in>W. wview s1 x = wview s x"
    using load_bytes_ok [OF assms(1,2)] by blast
  obtain s2 where s2: "store_bytes st q ?w s1 = Some s2" "inv s2" "keeps s1 s2"
    "\<forall>x\<in>R. rview s2 x = rview s1 x"
    "\<forall>x\<in>W. wview s2 x = (if unat (x - q) < length ?w then ?w ! unat (x - q) else wview s1 x)"
    using store_bytes_ok [OF s1(2), of ?w q] assms(3) by auto
  have "keeps s s2" using s1(3) s2(3) by (rule keeps_trans)
  then have "copied 4 p q s s2"
    using s1 s2 by (auto simp: copied_def)
  with s1 s2 show ?thesis by blast
qed

lemma copy_tail_ok:
  assumes "inv s" and "\<And>i. i < nat sz \<Longrightarrow> p + of_nat i \<in> R" and "\<And>i. i < nat sz \<Longrightarrow> q + of_nat i \<in> W"
    and "nat sz \<le> 2 ^ 32"
  shows "\<exists>s'. copy_tail ld st p q sz s = Some s' \<and> copied (nat sz) p q s s'"
  using assms
proof (induction "nat sz" arbitrary: sz p q s)
  case 0
  then show ?case by (simp add: copy_tail.simps [of _ _ _ _ sz] copied_zero)
next
  case (Suc n)
  have sz: "0 < sz" "n = nat (sz - 1)" "nat sz = 1 + n" using Suc.hyps(2) by auto
  obtain s1 s2 where b: "ld s p = Some (rview s p, s1)" "st s1 q (rview s p) = Some s2" "copied 1 p q s s2"
    using copied_byte [of s p q] Suc.prems(1) Suc.prems(2,3) [of 0] sz by auto
  have R: "p + 1 + of_nat i \<in> R" and W: "q + 1 + of_nat i \<in> W" if "i < nat (sz - 1)" for i
    using Suc.prems(2,3) [of "Suc i"] that sz by (simp_all add: add.assoc)
  have "inv s2" using b(3) by (simp add: copied_def)
  moreover have "nat (sz - 1) \<le> 2 ^ 32" using Suc.prems(4) sz by simp
  ultimately obtain s3 where s3: "copy_tail ld st (p + 1) (q + 1) (sz - 1) s2 = Some s3"
    "copied n (p + 1) (q + 1) s2 s3"
    using Suc.hyps(1) [of "sz - 1" s2 "p + 1" "q + 1"] sz R W by auto
  have "copied (1 + n) p q s s3"
    using copied_append [of 1 p q s s2 n s3] b(3) s3(2) R Suc.prems(4) sz by (simp add: add.assoc)
  with b s3 sz show ?case by (simp add: copy_tail.simps [of _ _ p])
qed

lemma copy_data_ok:
  assumes "inv s" and "\<And>i. i < nat sz \<Longrightarrow> p + of_nat i \<in> R" and "\<And>i. i < nat sz \<Longrightarrow> q + of_nat i \<in> W"
    and "nat sz \<le> 2 ^ 32"
  shows "\<exists>s'. copy_data ld st p q sz s = Some s' \<and> copied (nat sz) p q s s'"
  using assms
proof (induction "nat sz" arbitrary: sz p q s rule: less_induct)
  case less
  show ?case
  proof (cases "4 < sz")
    case False
    then show ?thesis
      using copy_tail_ok [OF less.prems] by (simp add: copy_data_def copy_dwords.simps [of _ _ p])
  next
    case True
    then have sz: "nat (sz - 4) < nat sz" "nat sz = 4 + nat (sz - 4)" by auto
    obtain w s1 s2 where b: "load_bytes ld 4 p s = Some (w, s1)" "store_bytes st q w s1 = Some s2"
      "copied 4 p q s s2"
      using copied_dword [of s p q] less.prems sz by auto
    have R: "p + 4 + of_nat i \<in> R" and W: "q + 4 + of_nat i \<in> W" if "i < nat (sz - 4)" for i
      using less.prems(2,3) [of "4 + i"] that sz by (simp_all add: add.assoc)
    have "inv s2" using b(3) by (simp add: copied_def)
    then obtain s3 where s3: "copy_data ld st (p + 4) (q + 4) (sz - 4) s2 = Some s3"
      "copied (nat (sz - 4)) (p + 4) (q + 4) s2 s3"
      using less.hyps [OF sz(1), of s2 "p + 4" "q + 4"] R W less.prems(4) sz by auto
    have "copied (4 + nat (sz - 4)) p q s s3"
      using copied_append [of 4 p q s s2 "nat (sz - 4)" s3] b(3) s3(2) R less.prems(4) sz
      by (simp add: add.assoc)
    with b s3 sz True show ?thesis
      by (simp add: copy_data_def copy_dwords.simps [of _ _ p])
  qed
qed

end

section \<open>Copies through tracked accesses\<close>

text \<open>Whatever relation every successful access keeps, a successful copy keeps.\<close>

locale tracked_memory =
  fixes ld :: "'s loader" and st :: "'s storer" and kept :: "'s \<Rightarrow> 's \<Rightarrow> bool"
  assumes kept_refl: "kept s s"
    and kept_trans: "kept s t \<Longrightarrow> kept t u \<Longrightarrow> kept s u"
    and kept_load: "ld s a = Some (b, s') \<Longrightarrow> kept s s'"
    and kept_store: "st s a b = Some s' \<Longrightarrow> kept s s'"
begin

lemma load_bytes_keeps: "load_bytes ld n p s = Some (bs, s') \<Longrightarrow> kept s s'"
proof (induction n arbitrary: p s bs)
  case (Suc n)
  then obtain b s1 bs' where "ld s p = Some (b, s1)" "load_bytes ld n (p + 1) s1 = Some (bs', s')"
    by (auto simp: bind_Some_iff split: prod.splits)
  then show ?case using Suc.IH kept_load kept_trans by blast
qed (simp add: kept_refl)

lemma store_bytes_keeps: "store_bytes st q bs s = Some s' \<Longrightarrow> kept s s'"
proof (induction bs arbitrary: q s)
  case (Cons b bs)
  then obtain s1 where "st s q b = Some s1" "store_bytes st (q + 1) bs s1 = Some s'" by (auto simp: bind_Some_iff)
  then show ?case using Cons.IH kept_store kept_trans by blast
qed (simp add: kept_refl)

lemma copy_dwords_keeps: "copy_dwords ld st p q sz s = Some (p', q', sz', s') \<Longrightarrow> kept s s'"
proof (induction "nat sz" arbitrary: p q sz s rule: less_induct)
  case less
  show ?case
  proof (cases "4 < sz")
    case True
    with less.prems obtain w s1 s2 where "load_bytes ld 4 p s = Some (w, s1)" "store_bytes st q w s1 = Some s2"
      and rest: "copy_dwords ld st (p + 4) (q + 4) (sz - 4) s2 = Some (p', q', sz', s')"
      by (auto simp: copy_dwords.simps [of ld st p] bind_Some_iff split: prod.splits)
    then have "kept s s2" using load_bytes_keeps store_bytes_keeps kept_trans by blast
    moreover have "kept s2 s'" by (rule less.hyps [OF _ rest]) (use True in simp)
    ultimately show ?thesis by (rule kept_trans)
  qed (use less.prems in \<open>simp add: copy_dwords.simps [of ld st p] kept_refl\<close>)
qed

lemma copy_tail_keeps: "copy_tail ld st p q sz s = Some s' \<Longrightarrow> kept s s'"
proof (induction "nat sz" arbitrary: p q sz s rule: less_induct)
  case less
  show ?case
  proof (cases "0 < sz")
    case True
    with less.prems obtain b s1 s2 where "ld s p = Some (b, s1)" "st s1 q b = Some s2"
      and rest: "copy_tail ld st (p + 1) (q + 1) (sz - 1) s2 = Some s'"
      by (auto simp: copy_tail.simps [of ld st p] bind_Some_iff split: prod.splits)
    then have "kept s s2" using kept_load kept_store kept_trans by blast
    moreover have "kept s2 s'" by (rule less.hyps [OF _ rest]) (use True in simp)
    ultimately show ?thesis by (rule kept_trans)
  qed (use less.prems in \<open>simp add: copy_tail.simps [of ld st p] kept_refl\<close>)
qed

lemma copy_from_user_keeps:
  assumes "copy_from_user ld st p q sz s = Some (v, s')"
  shows "kept s s'"
proof -
  obtain p' q' sz' s1 where c: "copy_dwords ld st p q sz s = Some (p', q', sz', s1)"
    using assms by (cases "copy_dwords ld st p q sz s") (auto simp: copy_from_user_def)
  then have "copy_tail ld st p' q' sz' s1 = Some s'"
    using assms by (cases "copy_tail ld st p' q' sz' s1") (simp_all add: copy_from_user_def)
  then show ?thesis using copy_dwords_keeps [OF c] copy_tail_keeps kept_trans by blast
qed

end

section \<open>Time-stamp arithmetic\<close>

text \<open>A 64-bit word is its two halves, and long division of the halves is division.\<close>

lemma join64: "unat (push_bit 32 (ucast (h :: 32 word)) OR ucast (l :: 32 word) :: 64 word) = unat h * 2 ^ 32 + unat l"
proof -
  have d: "push_bit 32 (ucast h) AND (ucast l :: 64 word) = 0"
    by (rule bit_word_eqI) (auto simp: bit_simps dest: bit_imp_le_length)
  have "unat l < 2 ^ 32" "unat h < 2 ^ 32" using unsigned_less [of l] unsigned_less [of h] by simp_all
  then have l: "unat (ucast l :: 64 word) = unat l" by (simp add: unsigned_ucast_eq take_bit_nat_eq_self)
  have h: "unat (push_bit 32 (ucast h) :: 64 word) = unat h * 2 ^ 32"
  proof -
    have "unat (ucast h :: 64 word) = unat h"
      using \<open>unat h < 2 ^ 32\<close> by (simp add: unsigned_ucast_eq take_bit_nat_eq_self)
    then show ?thesis using \<open>unat h < 2 ^ 32\<close> by (simp add: push_bit_eq_mult unat_word_ariths)
  qed
  have "push_bit 32 (ucast h) OR ucast l = push_bit 32 (ucast h) + (ucast l :: 64 word)"
    using disjunctive_add_eq_or [OF d] by simp
  then show ?thesis using h l \<open>unat l < 2 ^ 32\<close> \<open>unat h < 2 ^ 32\<close> by (simp add: unat_word_ariths)
qed
lemma split64: "unat (n :: 64 word) = unat (ucast (drop_bit 32 n) :: 32 word) * 2 ^ 32 + unat (ucast n :: 32 word)"
proof -
  have "n = push_bit 32 (ucast (ucast (drop_bit 32 n) :: 32 word)) OR ucast (ucast n :: 32 word)"
    by (rule bit_word_eqI) (auto simp: bit_simps dest: bit_imp_le_length)
  then show ?thesis using join64 by metis
qed

lemma div_mod_halves:
  fixes h l b :: nat
  assumes "0 < b" and "l < 2 ^ 32"
  shows "(h * 2 ^ 32 + l) div b = h div b * 2 ^ 32 + (h mod b * 2 ^ 32 + l) div b"
    and "(h * 2 ^ 32 + l) mod b = (h mod b * 2 ^ 32 + l) mod b"
    and "(h mod b * 2 ^ 32 + l) div b < 2 ^ 32"
proof -
  have "h * 2 ^ 32 + l = (h div b * 2 ^ 32) * b + (h mod b * 2 ^ 32 + l)"
    using div_mult_mod_eq [of h b] by (metis add.assoc add_mult_distrib mult.assoc mult.commute)
  then have "(h * 2 ^ 32 + l) div b = ((h mod b * 2 ^ 32 + l) + (h div b * 2 ^ 32) * b) div b"
    "(h * 2 ^ 32 + l) mod b = ((h mod b * 2 ^ 32 + l) + (h div b * 2 ^ 32) * b) mod b"
    by (simp_all only: add.commute)
  then show "(h * 2 ^ 32 + l) div b = h div b * 2 ^ 32 + (h mod b * 2 ^ 32 + l) div b"
    "(h * 2 ^ 32 + l) mod b = (h mod b * 2 ^ 32 + l) mod b"
    using assms(1) by (simp_all only: div_mult_self1 mod_mult_self1 add.commute)
  have "h mod b * 2 ^ 32 + l < Suc (h mod b) * 2 ^ 32" using assms(2) by simp
  also have "\<dots> \<le> b * 2 ^ 32" using assms(1) by (intro mult_right_mono) (simp_all add: Suc_leI)
  finally show "(h mod b * 2 ^ 32 + l) div b < 2 ^ 32" using assms(1) by (simp add: less_mult_imp_div_less mult.commute)
qed

lemma do_div_ok:
  assumes "base \<noteq> 0"
  shows "do_div n base = Some (of_nat (unat n div unat base), of_nat (unat n mod unat base))"
proof -
  define low :: DWord where "low = ucast n"
  define high :: DWord where "high = ucast (drop_bit 32 n)"
  have n: "unat n = unat high * 2 ^ 32 + unat low" unfolding low_def high_def by (rule split64)
  have b: "0 < unat base" using assms by (simp add: unat_gt_0)
  have l: "unat low < 2 ^ 32" using unsigned_less [of low] by simp
  have u: "(if high \<noteq> 0 then high mod base else high) = high mod base" "(if high \<noteq> 0 then high div base else high) = high div base"
    by auto
  note D = div_mod_halves [OF b l, of "unat high"]
  define q where "q = (unat high mod unat base * 2 ^ 32 + unat low) div unat base"
  have uh: "unat (high mod base) = unat high mod unat base" "unat (high div base) = unat high div unat base"
    by (simp_all add: unat_mod unat_div)
  have dv: "divl (high mod base) low base = Some (of_nat q, of_nat (unat n mod unat base))"
    using D(3) assms unfolding divl_def Let_def uh n D(2) by (simp add: q_def)
  have "unat (push_bit 32 (ucast (high div base)) OR ucast (of_nat q :: DWord) :: 64 word) = unat n div unat base"
    using D(1,3) by (simp add: join64 uh n q_def unat_of_nat take_bit_nat_eq_self)
  then have "push_bit 32 (ucast (high div base)) OR ucast (of_nat q :: DWord) = (of_nat (unat n div unat base) :: 64 word)"
    by (metis of_nat_unat ucast_id)
  then show ?thesis unfolding do_div_def Let_def low_def [symmetric] high_def [symmetric] u dv by simp
qed

lemma rdtsc_join: "rdtsc tsc = (eax, edx) \<Longrightarrow> push_bit 32 (ucast edx) + ucast eax = tsc"
proof -
  assume r: "rdtsc tsc = (eax, edx)"
  have "push_bit 32 (ucast edx) AND (ucast eax :: 64 word) = 0"
    by (rule bit_word_eqI) (auto simp: bit_simps dest: bit_imp_le_length)
  then have "push_bit 32 (ucast edx) + ucast eax = push_bit 32 (ucast edx) OR (ucast eax :: 64 word)"
    by (rule disjunctive_add_eq_or)
  also have "\<dots> = tsc"
    using r by (intro bit_word_eqI) (auto simp: rdtsc_def bit_simps dest: bit_imp_le_length)
  finally show ?thesis .
qed

lemma get_ticks_ok: "get_ticks tsc = Some (of_nat (unat tsc div unat CYCLESPERTICK))"
proof -
  let ?x = "unat tsc div unat CYCLESPERTICK"
  have "unat tsc < 2 ^ 64" using unsigned_less [of tsc] by simp
  then have "?x < 2 ^ 64" by (rule le_less_trans [OF div_le_dividend])
  then have "ucast (of_nat ?x :: 64 word) = (of_nat ?x :: DWord)"
    by (simp only: unsigned_of_nat) (simp add: take_bit_nat_eq_self)
  moreover have "CYCLESPERTICK \<noteq> 0" by (simp add: CYCLESPERTICK_def)
  moreover obtain eax edx where "rdtsc tsc = (eax, edx)" by fastforce
  ultimately show ?thesis by (simp add: get_ticks_def rdtsc_join do_div_ok)
qed

end
