(* ===== verification/Libc.thy ===== *)
theory Libc
  imports Prelude
begin

text \<open>
  \<^verbatim>\<open>libc.c\<close> and the number printer of \<^verbatim>\<open>utils.c\<close>: \<^verbatim>\<open>itoa\<close>,
  \<^verbatim>\<open>itoa_hex\<close> and \<^verbatim>\<open>strlen\<close>. A C character array is the list of its
  bytes; a store or load outside it is undefined and gives \<open>None\<close>, so a call of
  \<^verbatim>\<open>itoa\<close> on a caller's buffer succeeds exactly when the digits and the
  terminating zero fit.
\<close>

section \<open>Character arrays\<close>

definition buf_store :: "Byte list \<Rightarrow> nat \<Rightarrow> Byte \<Rightarrow> Byte list option" where
  "buf_store b i v = (if i < length b then Some (b[i := v]) else None)"

definition buf_load :: "Byte list \<Rightarrow> nat \<Rightarrow> Byte option" where
  "buf_load b i = (if i < length b then Some (b ! i) else None)"

lemmas buf_prims = buf_store_def buf_load_def

definition cstring :: "string \<Rightarrow> Byte list" where
  "cstring s = map of_char s"

section \<open>itoa and itoa_hex\<close>

text \<open>
  The two functions differ only in the base and in the digit characters. The loop
  writes the digits least significant first.
\<close>

function digit_loop :: "int \<Rightarrow> (int \<Rightarrow> Byte) \<Rightarrow> int \<Rightarrow> nat \<Rightarrow> Byte list \<Rightarrow> (nat \<times> Byte list) option" where
  "digit_loop base dig a i b =
     (if 0 < a \<and> 1 < base then do {
        b \<leftarrow> buf_store b i (dig (a mod base));
        digit_loop base dig (a div base) (Suc i) b }
      else Some (i, b))"
  by pat_completeness auto
termination
proof (relation "measure (\<lambda>(base, dig, a, i, b). nat a)")
  fix base :: int and dig :: "int \<Rightarrow> Byte" and a :: int and i :: nat and b b' :: "Byte list"
  assume "0 < a \<and> 1 < base"
  then have "a div base < a" by (simp add: int_div_less_self)
  then show "((base, dig, a div base, Suc i, b'), base, dig, a, i, b)
      \<in> measure (\<lambda>(base, dig, a, i, b). nat a)"
    using \<open>0 < a \<and> 1 < base\<close> by simp
qed simp

text \<open>\<^verbatim>\<open>for (i1=0; i1<i/2; i1++)\<close>: swap the digits end for end.\<close>

function swap_loop :: "nat \<Rightarrow> nat \<Rightarrow> Byte list \<Rightarrow> Byte list option" where
  "swap_loop i1 i b =
     (if i1 < i div 2 then do {
        c \<leftarrow> buf_load b i1;
        d \<leftarrow> buf_load b (i - i1 - 1);
        b \<leftarrow> buf_store b i1 d;
        b \<leftarrow> buf_store b (i - i1 - 1) c;
        swap_loop (Suc i1) i b }
      else Some b)"
  by pat_completeness auto
termination
  by (relation "measure (\<lambda>(i1, i, b). i div 2 - i1)") auto

declare digit_loop.simps [simp del] swap_loop.simps [simp del]

definition print_number :: "int \<Rightarrow> (int \<Rightarrow> Byte) \<Rightarrow> int \<Rightarrow> Byte list \<Rightarrow> Byte list option" where
  "print_number base dig a b =
     (if a = 0 then do { b \<leftarrow> buf_store b 0 (of_char (CHR ''0'')); buf_store b 1 0 }
      else do {
        (i, b) \<leftarrow> digit_loop base dig a 0 b;
        b \<leftarrow> swap_loop 0 i b;
        buf_store b i 0 })"

definition dec_digit :: "int \<Rightarrow> Byte" where
  "dec_digit d = of_int d + of_char (CHR ''0'')"

definition hex_digit :: "int \<Rightarrow> Byte" where
  "hex_digit d = of_char (''0123456789ABCDEF'' ! nat d)"

definition itoa :: "cint \<Rightarrow> Byte list \<Rightarrow> Byte list option" where
  "itoa a b = print_number 10 dec_digit (sint a) b"

definition itoa_hex :: "cint \<Rightarrow> Byte list \<Rightarrow> Byte list option" where
  "itoa_hex a b = print_number 16 hex_digit (sint a) b"

section \<open>strlen\<close>

function strlen_from :: "Byte list \<Rightarrow> nat \<Rightarrow> nat option" where
  "strlen_from a i =
     (if i < length a then (if a ! i \<noteq> 0 then strlen_from a (Suc i) else Some i) else None)"
  by pat_completeness auto
termination
  by (relation "measure (\<lambda>(a, i). length a - i)") auto

declare strlen_from.simps [simp del]

definition strlen :: "Byte list \<Rightarrow> nat option" where
  "strlen a = strlen_from a 0"

text \<open>\<^verbatim>\<open>perror\<close>: the bytes it hands to \<^verbatim>\<open>write(1, ...)\<close>.\<close>

definition perror :: "cint \<Rightarrow> Byte list option" where
  "perror errno = do {
     b \<leftarrow> itoa errno (replicate 10 0);
     n \<leftarrow> strlen b;
     Some (take n b) }"

section \<open>Positional notation\<close>

text \<open>The reference: the digits of a number, most significant first, and their value.\<close>

function digits :: "int \<Rightarrow> int \<Rightarrow> int list" where
  "digits base a = (if a \<le> 0 \<or> base \<le> 1 then [] else digits base (a div base) @ [a mod base])"
  by pat_completeness auto
termination
proof (relation "measure (\<lambda>(base, a). nat a)")
  fix base a :: int
  assume "\<not> (a \<le> 0 \<or> base \<le> 1)"
  then have "0 < a" "a div base < a" by (simp_all add: int_div_less_self)
  then show "((base, a div base), base, a) \<in> measure (\<lambda>(base, a). nat a)" by simp
qed simp

declare digits.simps [simp del]

definition digits_value :: "int \<Rightarrow> int list \<Rightarrow> int" where
  "digits_value base ds = foldl (\<lambda>v d. v * base + d) 0 ds"

lemma digits_value_snoc: "digits_value base (ds @ [d]) = digits_value base ds * base + d"
  by (simp add: digits_value_def)

lemma digits_value_digits: "1 < base \<Longrightarrow> 0 \<le> a \<Longrightarrow> digits_value base (digits base a) = a"
proof (induction base a rule: digits.induct)
  case (1 base a)
  show ?case
  proof (cases "a \<le> 0")
    case True
    with 1 have "a = 0" by simp
    then show ?thesis by (simp add: digits.simps [of base 0] digits_value_def)
  next
    case False
    with 1 have "digits_value base (digits base (a div base)) = a div base"
      by (simp add: pos_imp_zdiv_nonneg_iff)
    with False 1(2) show ?thesis
      by (simp add: digits.simps [of base a] digits_value_snoc)
  qed
qed

lemma digits_range: "d \<in> set (digits base a) \<Longrightarrow> 0 \<le> d \<and> d < base"
proof (induction base a rule: digits.induct)
  case (1 base a)
  show ?case
  proof (cases "a \<le> 0 \<or> base \<le> 1")
    case True
    with 1(2) show ?thesis by (simp add: digits.simps [of base a])
  next
    case False
    with 1 show ?thesis by (auto simp: digits.simps [of base a])
  qed
qed

lemma le_div_iff:
  assumes "0 < (b :: int)"
  shows "k \<le> a div b \<longleftrightarrow> k * b \<le> a"
proof
  assume "k \<le> a div b"
  then have "k * b \<le> a div b * b" using assms by simp
  also have "\<dots> = a - a mod b" by (simp add: minus_mod_eq_div_mult)
  finally show "k * b \<le> a" using assms pos_mod_sign [of b a] by linarith
next
  assume "k * b \<le> a"
  then have "k * b div b \<le> a div b" using assms by (rule zdiv_mono1)
  then show "k \<le> a div b" using assms by simp
qed

lemma length_digits_le: "1 < base \<Longrightarrow> a < base ^ k \<Longrightarrow> length (digits base a) \<le> k"
proof (induction k arbitrary: a)
  case 0
  then show ?case by (simp add: digits.simps [of base a])
next
  case (Suc k)
  show ?case
  proof (cases "a \<le> 0")
    case True
    then show ?thesis by (simp add: digits.simps [of base a])
  next
    case False
    have "a div base < base ^ k"
      using Suc.prems le_div_iff [of base "base ^ k" a] by (simp add: not_le [symmetric] mult.commute)
    with Suc.IH Suc.prems False show ?thesis by (simp add: digits.simps [of base a])
  qed
qed

lemma length_digits_gt: "1 < base \<Longrightarrow> base ^ k \<le> a \<Longrightarrow> k < length (digits base a)"
proof (induction k arbitrary: a)
  case 0
  then show ?case by (simp add: digits.simps [of base a])
next
  case (Suc k)
  have "0 < base ^ Suc k" using Suc.prems(1) by simp
  then have "0 < a" using Suc.prems(2) by linarith
  have "base ^ k \<le> a div base"
    using Suc.prems by (simp add: le_div_iff mult.commute)
  with Suc.IH Suc.prems \<open>0 < a\<close> show ?case by (simp add: digits.simps [of base a])
qed

section \<open>Correctness of the loops\<close>

lemma digit_loop_spec:
  assumes "1 < base"
  shows "digit_loop base dig a (length p) (p @ r) =
    (let ds = map dig (rev (digits base a)) in
     if length ds \<le> length r then Some (length p + length ds, p @ ds @ drop (length ds) r) else None)"
proof (induction base a arbitrary: p r rule: digits.induct)
  case (1 base a)
  show ?case
  proof (cases "a \<le> 0 \<or> base \<le> 1")
    case True
    then show ?thesis
      by (auto simp: digit_loop.simps [of base dig a] digits.simps [of base a])
  next
    case False
    note ds = digits.simps [of base a]
    show ?thesis
    proof (cases r)
      case Nil
      with False show ?thesis
        by (simp add: digit_loop.simps [of base dig a] ds buf_store_def)
    next
      case (Cons x xs)
      have "digit_loop base dig (a div base) (length (p @ [dig (a mod base)])) ((p @ [dig (a mod base)]) @ xs)
        = (let ds = map dig (rev (digits base (a div base))) in
           if length ds \<le> length xs then Some (length (p @ [dig (a mod base)]) + length ds,
             (p @ [dig (a mod base)]) @ ds @ drop (length ds) xs) else None)"
        using 1 False by blast
      with False Cons show ?thesis
        by (simp add: digit_loop.simps [of base dig a] ds buf_store_def Let_def)
    qed
  qed
qed

lemma swap_loop_spec: "swap_loop (length p) (2 * length p + length m) (p @ m @ s) = Some (p @ rev m @ s)"
proof (induction m arbitrary: p s rule: length_induct)
  case (1 m)
  show ?case
  proof (cases "length m \<le> 1")
    case True
    then have "rev m = m" by (cases m) auto
    with True show ?thesis by (simp add: swap_loop.simps [of "length p"])
  next
    case False
    then obtain x m' y where m: "m = x # m' @ [y]"
      by (cases m; cases "tl m" rule: rev_cases) auto
    have "swap_loop (length (p @ [y])) (2 * length (p @ [y]) + length m') ((p @ [y]) @ m' @ x # s)
      = Some ((p @ [y]) @ rev m' @ x # s)"
      using 1 [rule_format, of m' "p @ [y]" "x # s"] m by simp
    then show ?thesis
      by (simp add: swap_loop.simps [of "length p"] m buf_prims nth_append list_update_append)
  qed
qed

text \<open>
  The printer succeeds exactly when the number's digits and the terminating zero fit,
  and then leaves the digits, most significant first, followed by a zero byte.
  A negative number prints as the empty string: the digit loop never runs.
\<close>

lemma print_number_spec:
  assumes "1 < base"
  shows "print_number base dig a b =
    (if a = 0 then (if 2 \<le> length b then Some (of_char (CHR ''0'') # 0 # drop 2 b) else None)
     else let ds = map dig (digits base a) in
       if length ds < length b then Some (ds @ 0 # drop (Suc (length ds)) b) else None)"
proof (cases "a = 0")
  case True
  then show ?thesis
    by (cases b; cases "tl b") (auto simp: print_number_def buf_store_def)
next
  case False
  let ?ds = "map dig (digits base a)"
  have loop: "digit_loop base dig a 0 b =
    (if length ?ds \<le> length b then Some (length ?ds, rev ?ds @ drop (length ?ds) b) else None)"
    using digit_loop_spec [OF assms, of dig a "[]" b] by (simp add: Let_def rev_map)
  have swap: "swap_loop 0 (length ?ds) (rev ?ds @ drop (length ?ds) b) = Some (?ds @ drop (length ?ds) b)"
    using swap_loop_spec [of "[]" "rev ?ds" "drop (length ?ds) b"] by simp
  show ?thesis
    using False loop swap
    by (auto simp: print_number_def buf_store_def Let_def list_update_append Cons_nth_drop_Suc [symmetric])
qed

lemma strlen_spec: "0 \<notin> set xs \<Longrightarrow> strlen (xs @ 0 # r) = Some (length xs)"
proof -
  assume nz: "0 \<notin> set xs"
  have "strlen_from (p @ xs @ 0 # r) (length p) = Some (length p + length xs)" for p
    using nz
  proof (induction xs arbitrary: p)
    case Nil
    then show ?case by (simp add: strlen_from.simps)
  next
    case (Cons x xs)
    then show ?case
      using Cons.IH [of "p @ [x]"] by (auto simp: strlen_from.simps [of _ "length p"])
  qed
  from this [of "[]"] show ?thesis by (simp add: strlen_def)
qed

lemma dec_digit_table: "list_all (\<lambda>d. uint (dec_digit d) = d + 48) [0..9]"
  by code_simp

lemma dec_digit_value: "0 \<le> d \<Longrightarrow> d < 10 \<Longrightarrow> uint (dec_digit d) = d + 48"
  using dec_digit_table by (auto simp: list_all_iff)

lemma dec_digit_nonzero: "0 \<le> d \<Longrightarrow> d < 10 \<Longrightarrow> dec_digit d \<noteq> 0"
  using dec_digit_value [of d] by auto

lemma hex_digit_table: "list_all (\<lambda>d. hex_digit d \<noteq> 0) [0..15]"
  by code_simp

lemma hex_digit_nonzero: "0 \<le> d \<Longrightarrow> d < 16 \<Longrightarrow> hex_digit d \<noteq> 0"
  using hex_digit_table by (auto simp: list_all_iff)

text \<open>The text a printed number consists of, zero included.\<close>

definition number_text :: "int \<Rightarrow> (int \<Rightarrow> Byte) \<Rightarrow> int \<Rightarrow> Byte list" where
  "number_text base dig a = (if a = 0 then [of_char (CHR ''0'')] else map dig (digits base a))"

lemma print_number_text:
  "1 < base \<Longrightarrow> print_number base dig a b =
    (let t = number_text base dig a in
     if length t < length b then Some (t @ 0 # drop (Suc (length t)) b) else None)"
  by (simp add: print_number_spec number_text_def Let_def numeral_2_eq_2 Suc_le_eq)

lemma itoa_text:
  "itoa a b = (let t = number_text 10 dec_digit (sint a) in
     if length t < length b then Some (t @ 0 # drop (Suc (length t)) b) else None)"
  by (simp add: itoa_def print_number_text)

lemma itoa_hex_text:
  "itoa_hex a b = (let t = number_text 16 hex_digit (sint a) in
     if length t < length b then Some (t @ 0 # drop (Suc (length t)) b) else None)"
  by (simp add: itoa_hex_def print_number_text)

lemma number_text_dec_nonzero: "0 \<notin> set (number_text 10 dec_digit a)"
proof -
  have "dec_digit d \<noteq> 0" if "d \<in> set (digits 10 a)" for d
    using digits_range [OF that] by (intro dec_digit_nonzero) auto
  then show ?thesis by (auto simp: number_text_def)
qed

lemma number_text_hex_nonzero: "0 \<notin> set (number_text 16 hex_digit a)"
proof -
  have "hex_digit d \<noteq> 0" if "d \<in> set (digits 16 a)" for d
    using digits_range [OF that] by (intro hex_digit_nonzero) auto
  then show ?thesis by (auto simp: number_text_def)
qed

lemma number_text_dec_value:
  "0 \<le> a \<Longrightarrow> digits_value 10 (map (\<lambda>c. uint c - 48) (number_text 10 dec_digit a)) = a"
proof -
  assume a: "0 \<le> a"
  have "map (\<lambda>c. uint c - 48) (map dec_digit (digits 10 a)) = digits 10 a"
    using digits_range [of _ 10 a] dec_digit_value by (auto intro!: map_idI)
  with a show ?thesis
    using digits_value_digits [of 10 a] by (auto simp: number_text_def digits_value_def)
qed

lemma length_number_text_le: "1 < base \<Longrightarrow> a < base ^ k \<Longrightarrow> 0 < k \<Longrightarrow> length (number_text base dig a) \<le> k"
  by (auto simp: number_text_def length_digits_le)

lemma length_number_text_gt: "1 < base \<Longrightarrow> base ^ k \<le> a \<Longrightarrow> k < length (number_text base dig a)"
proof -
  assume a: "1 < base" "base ^ k \<le> a"
  have "0 < base ^ k" using a(1) by simp
  with a have "a \<noteq> 0" by linarith
  with a show ?thesis using length_digits_gt [of base k a] by (simp add: number_text_def)
qed

text \<open>When the text and its final zero fit: a negative number has no digits at all.\<close>

lemma number_text_negative: "a < 0 \<Longrightarrow> number_text base dig a = []"
  by (simp add: number_text_def digits.simps)

lemma number_fits:
  assumes "1 < base"
  shows "length (number_text base dig a) < n \<longleftrightarrow> (if a < 0 then 0 < n else 1 < n \<and> a < base ^ (n - 1))"
proof (cases "a < 0")
  case False
  have ne: "number_text base dig a \<noteq> []"
    using False assms by (auto simp: number_text_def digits.simps [of base a])
  show ?thesis
  proof (cases "1 < n")
    case True
    then have "length (number_text base dig a) < n \<longleftrightarrow> length (number_text base dig a) \<le> n - 1" by linarith
    moreover have "length (number_text base dig a) \<le> n - 1 \<longleftrightarrow> a < base ^ (n - 1)"
    proof (cases "a < base ^ (n - 1)")
      case a: True
      then show ?thesis using length_number_text_le [OF assms a, of dig] True by simp
    next
      case a: False
      then show ?thesis using length_number_text_gt [OF assms, of "n - 1" a dig] by simp
    qed
    ultimately show ?thesis using False True by simp
  next
    case n: False
    then have "\<not> length (number_text base dig a) < n" using ne by (cases "number_text base dig a") auto
    then show ?thesis using n False by simp
  qed
qed (simp add: number_text_negative)

end
