(* ===== verification/Screen.thy ===== *)
theory Screen
  imports Libc
begin

text \<open>
  \<^verbatim>\<open>io.c\<close> and \<^verbatim>\<open>devices.c\<close>: the text console. The state is the cursor, the
  80 by 25 cells of video memory at \<^verbatim>\<open>0xb8000\<close>, and the bytes sent to the Bochs
  debug port, which record everything ever printed.
\<close>

definition NUM_COLUMNS :: nat where [zeos_consts]: "NUM_COLUMNS = 80"
definition NUM_ROWS :: nat where [zeos_consts]: "NUM_ROWS = 25"

record screen =
  scr_x :: Byte
  scr_y :: Byte
  video :: "nat \<Rightarrow> Word16"
  port_e9 :: "Byte list"

text \<open>\<^verbatim>\<open>inb\<close> reads a port; what the ports answer is a parameter.\<close>

definition inb :: "(Word16 \<Rightarrow> Byte) \<Rightarrow> Word16 \<Rightarrow> Byte" where
  "inb ports port = (let v = ports port in v)"

definition init_screen :: screen where
  "init_screen = \<lparr>scr_x = 0, scr_y = 19, video = (\<lambda>_. 0), port_e9 = []\<rparr>"

section \<open>io.c\<close>

definition next_row :: "Byte \<Rightarrow> Byte" where
  "next_row y = of_nat ((unat y + 1) mod NUM_ROWS)"

definition printc :: "Byte \<Rightarrow> screen \<Rightarrow> screen" where
  "printc c s0 =
     (let s = s0\<lparr>port_e9 := port_e9 s0 @ [c]\<rparr> in
      if c = of_char (CHR 0x0A) then s\<lparr>scr_x := 0, scr_y := next_row (scr_y s)\<rparr>
      else
        let ch = (ucast c AND 0x00FF) OR 0x0200;
            s = s\<lparr>video := (video s)(unat (scr_y s) * NUM_COLUMNS + unat (scr_x s) := ch)\<rparr>;
            s = s\<lparr>scr_x := scr_x s + 1\<rparr>
        in if NUM_COLUMNS \<le> unat (scr_x s) then s\<lparr>scr_x := 0, scr_y := next_row (scr_y s)\<rparr> else s)"

definition printc_xy :: "Byte \<Rightarrow> Byte \<Rightarrow> Byte \<Rightarrow> screen \<Rightarrow> screen" where
  "printc_xy mx my c s =
     (let cx = scr_x s; cy = scr_y s in
      (printc c (s\<lparr>scr_x := mx, scr_y := my\<rparr>))\<lparr>scr_x := cx, scr_y := cy\<rparr>)"

text \<open>\<^verbatim>\<open>printk\<close> reads the array up to its zero byte; running past the end is undefined.\<close>

fun printk :: "Byte list \<Rightarrow> screen \<Rightarrow> screen option" where
  "printk [] s = None"
| "printk (c # string) s = (if c = 0 then Some s else printk string (printc c s))"

text \<open>A string literal.\<close>

definition lit :: "string \<Rightarrow> Byte list" where
  "lit t = cstring t @ [0]"

section \<open>devices.c\<close>

function write_loop :: "int \<Rightarrow> int \<Rightarrow> Byte list \<Rightarrow> screen \<Rightarrow> screen option" where
  "write_loop i sz buffer s =
     (if i < sz then do {
        c \<leftarrow> buf_load buffer (nat i);
        write_loop (i + 1) sz buffer (printc c s) }
      else Some s)"
  by pat_completeness auto
termination
  by (relation "measure (\<lambda>(i, sz, buffer, s). nat (sz - i))") auto

declare write_loop.simps [simp del]

definition sys_write_console :: "Byte list \<Rightarrow> cint \<Rightarrow> screen \<Rightarrow> (cint \<times> screen) option" where
  "sys_write_console buffer sz s = do {
     s \<leftarrow> write_loop 0 (sint sz) buffer s;
     Some (sz, s) }"

section \<open>A character device\<close>

text \<open>
  What the printing routines need of \<^const>\<open>printc\<close>: it keeps the device well formed
  and emits exactly its argument. Everything printed through it is then known.
\<close>

locale char_device =
  fixes put :: "Byte \<Rightarrow> 's \<Rightarrow> 's" and ok :: "'s \<Rightarrow> bool" and out :: "'s \<Rightarrow> Byte list"
  assumes ok_put: "ok s \<Longrightarrow> ok (put c s)"
    and out_put: "out (put c s) = out s @ [c]"
begin

lemma ok_fold: "ok s \<Longrightarrow> ok (fold put cs s)"
  by (induction cs arbitrary: s) (auto intro: ok_put)

lemma out_fold: "out (fold put cs s) = out s @ cs"
  by (induction cs arbitrary: s) (auto simp: out_put)

end

definition cursor_ok :: "screen \<Rightarrow> bool" where
  "cursor_ok s \<longleftrightarrow> unat (scr_x s) < NUM_COLUMNS \<and> unat (scr_y s) < NUM_ROWS"

lemma unat_next_row: "unat (next_row y) = (unat y + 1) mod 25"
proof -
  have "(unat y + 1) mod 25 < 2 ^ 8" by (rule less_trans [of _ 25]) simp_all
  then show ?thesis
    by (simp add: next_row_def zeos_consts unat_of_nat take_bit_nat_eq_self)
qed

lemma unat_inc8: "unat (x :: Byte) < 80 \<Longrightarrow> unat (x + 1) = unat x + 1"
  by (simp add: unat_word_ariths)

lemma cursor_printc: "cursor_ok s \<Longrightarrow> cursor_ok (printc c s)"
  by (auto simp: cursor_ok_def printc_def Let_def unat_next_row unat_inc8 zeos_consts)

lemma out_printc: "port_e9 (printc c s) = port_e9 s @ [c]"
  by (simp add: printc_def Let_def)

interpretation console: char_device printc cursor_ok port_e9
  by unfold_locales (simp_all add: cursor_printc out_printc)

section \<open>The printing routines emit their argument\<close>

lemma printk_text: "0 \<notin> set xs \<Longrightarrow> printk (xs @ 0 # r) s = Some (fold printc xs s)"
  by (induction xs arbitrary: s) auto

lemma printk_lit: "0 \<notin> set (cstring t) \<Longrightarrow> printk (lit t) s = Some (fold printc (cstring t) s)"
  unfolding lit_def by (rule printk_text)

lemma write_loop_spec:
  "0 \<le> i \<Longrightarrow> write_loop i n b s =
    (if i < n \<and> length b < nat n then None else Some (fold printc (drop (nat i) (take (nat n) b)) s))"
proof (induction i n b s rule: write_loop.induct)
  case (1 i n b s)
  show ?case
  proof (cases "i < n")
    case False
    with 1(2) show ?thesis by (simp add: write_loop.simps [of i n])
  next
    case True
    then obtain ni where ni: "nat i = ni" "nat (i + 1) = Suc ni" "ni < nat n" using 1(2) by auto
    show ?thesis
    proof (cases "ni < length b")
      case False
      with True ni show ?thesis by (simp add: write_loop.simps [of i n] buf_load_def)
    next
      case in_range: True
      then have "drop ni (take (nat n) b) = b ! ni # drop (Suc ni) (take (nat n) b)"
        using ni by (simp add: Cons_nth_drop_Suc [symmetric])
      with 1 True ni in_range show ?thesis
        by (auto simp: write_loop.simps [of i n] buf_load_def)
    qed
  qed
qed

lemma sys_write_console_spec:
  "nat (sint n) \<le> length b \<Longrightarrow>
    sys_write_console b n s = Some (n, fold printc (take (nat (sint n)) b) s)"
  by (simp add: sys_write_console_def write_loop_spec)

lemma sys_write_console_cursor: "sys_write_console b n s = Some (v, s') \<Longrightarrow> cursor_ok s \<Longrightarrow> cursor_ok s'"
  by (auto simp: sys_write_console_def write_loop_spec bind_Some_iff intro: console.ok_fold split: if_splits)

text \<open>Printing stays inside the screen.\<close>

definition off_screen :: "screen \<Rightarrow> nat \<Rightarrow> Word16" where
  "off_screen s = (\<lambda>i. if i < NUM_ROWS * NUM_COLUMNS then 0 else video s i)"

lemma off_screen_printc: "cursor_ok s \<Longrightarrow> off_screen (printc c s) = off_screen s"
  by (auto simp: off_screen_def printc_def cursor_ok_def Let_def fun_eq_iff NUM_ROWS_def NUM_COLUMNS_def)

lemma off_screen_prints: "cursor_ok s \<Longrightarrow> off_screen (fold printc cs s) = off_screen s"
  by (induction cs arbitrary: s) (simp_all add: off_screen_printc cursor_printc)

end
