(* ===== verification/Sched.thy ===== *)
theory Sched
  imports Utils Screen
begin

text \<open>
  \<^verbatim>\<open>sched.c\<close> and \<^verbatim>\<open>include/sched.h\<close>: process control blocks, the round-robin
  scheduler and the context switch, over one record that holds the kernel's global
  variables and the processor registers they interact with.
\<close>

section \<open>Process control blocks and kernel state\<close>

datatype state_t = ST_RUN | ST_READY | ST_BLOCKED

text \<open>
  A slot of \<^verbatim>\<open>union task_union\<close>: the scalar fields of the \<^verbatim>\<open>task_struct\<close>
  and the words of the kernel stack above it. The list members live in the node store
  (\<^typ>\<open>lheap\<close>). A task pointer is the slot it points to, \<open>None\<close> for \<^verbatim>\<open>NULL\<close>.
\<close>

record task_struct =
  PID :: cint
  kernel_esp :: DWord
  tstate :: state_t
  quantum :: DWord
  dir_pages_baseAddr :: DWord
  parent :: "nat option"
  pending_unblocks :: cint
  stack :: "nat \<Rightarrow> DWord"

text \<open>
  \<open>esp\<close> is the stack pointer during the current kernel entry (read by
  \<^verbatim>\<open>current()\<close>); \<open>ebp_fork\<close> and \<open>ebp_switch\<close> are what
  \<^verbatim>\<open>ebp_value()\<close> returns in the frames of \<^verbatim>\<open>sys_fork\<close> and
  \<^verbatim>\<open>inner_task_switch\<close>, which the compiler lays out; \<open>ebp\<close> and \<open>eip\<close> are
  loaded when a context is resumed.
\<close>

record kernel =
  lists :: lheap
  task :: "nat \<Rightarrow> task_struct"
  idle_task :: "nat option"
  quantum_ticks :: cint
  last_pid :: cint
  zeos_ticks :: cint
  tss :: TSS
  mem :: mm
  scr :: screen
  esp :: DWord
  ebp_fork :: DWord
  ebp_switch :: DWord
  ebp :: DWord
  eip :: DWord

definition upd_task :: "nat \<Rightarrow> (task_struct \<Rightarrow> task_struct) \<Rightarrow> kernel \<Rightarrow> kernel" where
  "upd_task t f k = k\<lparr>task := (task k)(t := f (task k t))\<rparr>"

definition on_lists :: "(lheap \<Rightarrow> lheap option) \<Rightarrow> kernel \<Rightarrow> kernel option" where
  "on_lists f k = do { h \<leftarrow> f (lists k); Some (k\<lparr>lists := h\<rparr>) }"

definition on_scr :: "(screen \<Rightarrow> screen option) \<Rightarrow> kernel \<Rightarrow> kernel option" where
  "on_scr f k = do { s \<leftarrow> f (scr k); Some (k\<lparr>scr := s\<rparr>) }"

definition on_mem :: "(mm \<Rightarrow> mm option) \<Rightarrow> kernel \<Rightarrow> kernel option" where
  "on_mem f k = do { m \<leftarrow> f (mem k); Some (k\<lparr>mem := m\<rparr>) }"

text \<open>Printing a number through a local array of the given size. A number that does not fit makes
  \<^verbatim>\<open>itoa\<close> write outside the array, which C leaves undefined: the result is \<^const>\<open>None\<close>, although
  the compiled program may go on with other words of its stack changed. The kernel links
  \<^verbatim>\<open>itoa\<close> from \<^verbatim>\<open>libzeos.a\<close> (see the \<^verbatim>\<open>Makefile\<close>), which holds the compiled form of the
  routine in \<^verbatim>\<open>libc.c\<close>.\<close>

definition print_num :: "nat \<Rightarrow> cint \<Rightarrow> kernel \<Rightarrow> kernel option" where
  "print_num sz a k = do {
     buff \<leftarrow> itoa a (replicate sz 0);
     on_scr (printk buff) k }"

section \<open>sched.c\<close>

definition get_DIR :: "nat \<Rightarrow> kernel \<Rightarrow> DWord" where
  "get_DIR t k = dir_pages_baseAddr (task k t)"

definition allocate_DIR :: "symbols \<Rightarrow> nat \<Rightarrow> kernel \<Rightarrow> kernel" where
  "allocate_DIR sy t k =
     (let pos = task_pos sy (task_addr sy t)
      in upd_task t (\<lambda>ts. ts\<lparr>dir_pages_baseAddr := dir_addr sy pos\<rparr>) k)"

definition current :: "symbols \<Rightarrow> kernel \<Rightarrow> nat" where
  "current sy k = current_of_esp sy (esp k)"

definition init_idle :: "symbols \<Rightarrow> kernel \<Rightarrow> kernel option" where
  "init_idle sy k = do {
     let k = k\<lparr>idle_task := Some 0\<rparr>;
     let k = upd_task 0 (\<lambda>ts. ts\<lparr>PID := 0, kernel_esp := stack_addr sy 0 (KERNEL_STACK_SIZE - 2),
                                quantum := 1\<rparr>) k;
     k \<leftarrow> on_lists (INIT_LIST_HEAD (Childs 0)) k;
     let k = allocate_DIR sy 0 k;
     Some (upd_task 0 (\<lambda>ts. ts\<lparr>stack := (stack ts)
       (KERNEL_STACK_SIZE - 1 := a_cpu_idle sy,
        KERNEL_STACK_SIZE - 2 := stack_addr sy 0 (KERNEL_STACK_SIZE - 1))\<rparr>) k) }"

definition init_task1 :: "symbols \<Rightarrow> kernel \<Rightarrow> kernel option" where
  "init_task1 sy k = do {
     let k = upd_task 1 (\<lambda>ts. ts\<lparr>PID := 1, kernel_esp := stack_addr sy 1 (KERNEL_STACK_SIZE - 2),
                                quantum := 100\<rparr>) k;
     let k = k\<lparr>quantum_ticks := 100\<rparr>;
     k \<leftarrow> on_lists (INIT_LIST_HEAD (Childs 1)) k;
     let k = allocate_DIR sy 1 k;
     k \<leftarrow> on_mem (set_user_pages sy (get_DIR 1 k)) k;
     on_mem (\<lambda>m. Some (set_cr3 (get_DIR 1 k) m)) k }"

fun add_all_tail :: "lptr list \<Rightarrow> lptr \<Rightarrow> lheap \<Rightarrow> lheap option" where
  "add_all_tail [] q h = Some h"
| "add_all_tail (p # ps) q h = do { h \<leftarrow> list_add_tail p q h; add_all_tail ps q h }"

definition init_sched :: "kernel \<Rightarrow> kernel option" where
  "init_sched k = do {
     k \<leftarrow> on_lists (INIT_LIST_HEAD ReadyQ) k;
     k \<leftarrow> on_lists (INIT_LIST_HEAD FreeQ) k;
     k \<leftarrow> on_lists (INIT_LIST_HEAD Blocked) k;
     on_lists (add_all_tail (map Anchor [2..<NR_TASKS]) FreeQ) k }"

definition update_sched_data_rr :: "kernel \<Rightarrow> kernel" where
  "update_sched_data_rr k = k\<lparr>quantum_ticks := quantum_ticks k - 1\<rparr>"

text \<open>Returns the truth value of the C result.\<close>

definition needs_sched_rr :: "symbols \<Rightarrow> kernel \<Rightarrow> (bool \<times> kernel) option" where
  "needs_sched_rr sy k = do {
     e \<leftarrow> list_empty ReadyQ (lists k);
     let k = (if e then k\<lparr>quantum_ticks := quantum (task k (current sy k))\<rparr> else k);
     Some (sint (quantum_ticks k) < 0, k) }"

definition update_process_state_rr :: "nat \<Rightarrow> lptr \<Rightarrow> kernel \<Rightarrow> kernel option" where
  "update_process_state_rr t dest k = do {
     let t_elem = Anchor t;
     n \<leftarrow> deref (lists k) t_elem;
     k \<leftarrow> (if \<not> (lnext n = Null \<and> lprev n = Null) then on_lists (list_del t_elem) k else Some k);
     if dest \<noteq> Null then on_lists (list_add_tail t_elem dest) k else Some k }"

text \<open>The word at an address of some kernel stack.\<close>

definition stack_word :: "symbols \<Rightarrow> kernel \<Rightarrow> DWord \<Rightarrow> DWord option" where
  "stack_word sy k a =
     (let i = task_pos sy a; d = unat (a - task_addr sy i) in
      if i < NR_TASKS \<and> d mod 4 = 0 then Some (stack (task k i) (d div 4)) else None)"

text \<open>
  \<^verbatim>\<open>movl t->kernel_esp, %esp; popl %ebp; ret\<close> of \<^verbatim>\<open>inner_task_switch\<close>.
\<close>

definition resume :: "symbols \<Rightarrow> nat \<Rightarrow> kernel \<Rightarrow> kernel option" where
  "resume sy t k = do {
     let e = kernel_esp (task k t);
     b \<leftarrow> stack_word sy k e;
     r \<leftarrow> stack_word sy k (e + 4);
     Some (k\<lparr>esp := e + 8, ebp := b, eip := r\<rparr>) }"

definition inner_task_switch :: "symbols \<Rightarrow> nat \<Rightarrow> kernel \<Rightarrow> kernel option" where
  "inner_task_switch sy t k = do {
     let k = k\<lparr>mem := set_cr3 (get_DIR t k) (mem k)\<rparr>;
     let k = k\<lparr>tss := (tss k)\<lparr>esp0 := stack_addr sy t (KERNEL_STACK_SIZE - 1)\<rparr>\<rparr>;
     let k = upd_task (current sy k) (\<lambda>ts. ts\<lparr>kernel_esp := ebp_switch k\<rparr>) k;
     resume sy t k }"

text \<open>\<^verbatim>\<open>task_switch\<close> of \<^verbatim>\<open>entry.S\<close> saves callee registers around it.\<close>

definition task_switch :: "symbols \<Rightarrow> nat \<Rightarrow> kernel \<Rightarrow> kernel option" where
  "task_switch sy t k = inner_task_switch sy t k"

text \<open>The first half of \<^verbatim>\<open>sched_next_rr\<close> chooses the process, the second announces it
  and switches.\<close>

definition pick_next :: "symbols \<Rightarrow> kernel \<Rightarrow> (nat \<times> kernel) option" where
  "pick_next sy k = do {
     e \<leftarrow> list_empty ReadyQ (lists k);
     if e then do { i \<leftarrow> idle_task k; Some (i, k) }
     else do {
       next_l \<leftarrow> list_first ReadyQ (lists k);
       let next = list_entry sy next_l OFF_anchor;
       k \<leftarrow> update_process_state_rr next Null k;
       Some (next, k) } }"

definition sched_next_rr :: "symbols \<Rightarrow> kernel \<Rightarrow> kernel option" where
  "sched_next_rr sy k = do {
     (next, k) \<leftarrow> pick_next sy k;
     k \<leftarrow> print_num 3 (PID (task k next)) k;
     k \<leftarrow> on_scr (printk (lit [CHR 0x0A])) k;
     task_switch sy next k }"

definition scheduler :: "symbols \<Rightarrow> kernel \<Rightarrow> kernel option" where
  "scheduler sy k = do {
     let k = update_sched_data_rr k;
     (needs, k) \<leftarrow> needs_sched_rr sy k;
     if needs then do {
       k \<leftarrow> update_process_state_rr (current sy k) ReadyQ k;
       k \<leftarrow> on_scr (printk (lit (CHR 0x0A # ''scheudled next task PID: ''))) k;
       sched_next_rr sy k }
     else Some k }"

definition new_pid :: "kernel \<Rightarrow> cint \<times> kernel" where
  "new_pid k = (let k = k\<lparr>last_pid := last_pid k + 1\<rparr> in (last_pid k, k))"

end
