(* ===== verification/Sys.thy ===== *)
theory Sys
  imports Sched
begin

text \<open>
  \<^verbatim>\<open>sys.c\<close>: the system calls. Each returns the value of the C function together
  with the new kernel state.
\<close>

definition LECTURA :: cint where "LECTURA = 0"
definition ESCRIPTURA :: cint where "ESCRIPTURA = 1"

definition check_fd :: "cint \<Rightarrow> cint \<Rightarrow> cint" where
  "check_fd fd permissions =
     (if fd \<noteq> 1 then -9 else if permissions \<noteq> ESCRIPTURA then -13 else 0)"

definition sys_ni_syscall :: "kernel \<Rightarrow> (cint \<times> kernel) option" where
  "sys_ni_syscall k = Some (-38, k)"

section \<open>write\<close>

text \<open>
  The local array \<^verbatim>\<open>char buff[size]\<close> lives on the kernel stack, between the stack
  pointer and the \<^verbatim>\<open>task_struct\<close> at the bottom of the page; a larger one
  overwrites the control block, and a size that is not positive is undefined in C. The array is
  allocated before any argument is checked.
\<close>

definition vla_fits :: "symbols \<Rightarrow> kernel \<Rightarrow> cint \<Rightarrow> bool" where
  "vla_fits sy k sz \<longleftrightarrow> 0 < sint sz \<and>
     sint sz + int SIZEOF_task_struct \<le> int (unat (esp k - task_addr sy (current sy k)))"

text \<open>Loads come from the caller's address space, stores go to the local array.\<close>

definition ld_user :: "symbols \<Rightarrow> (mm \<times> Byte list) loader" where
  "ld_user sy s a = do { (b, m) \<leftarrow> load8 sy (fst s) a; Some (b, (m, snd s)) }"

definition st_local :: "(mm \<times> Byte list) storer" where
  "st_local s a v = do { b \<leftarrow> buf_store (snd s) (unat a) v; Some (fst s, b) }"

definition sys_write :: "symbols \<Rightarrow> cint \<Rightarrow> DWord \<Rightarrow> cint \<Rightarrow> kernel \<Rightarrow> (cint \<times> kernel) option" where
  "sys_write sy fd buffer sz k =
     (if \<not> vla_fits sy k sz then None
      else
        let buff = replicate (nat (sint sz)) 0; valor = check_fd fd ESCRIPTURA in
        if valor \<noteq> 0 then Some (valor, k)
        else if sint sz \<le> 0 \<or> buffer = 0 then Some (-22, k)
        else if \<not> access_ok VERIFY_READ buffer sz then Some (-13, k)
        else do {
          (_, m, buff) \<leftarrow> copy_from_user (ld_user sy) st_local buffer 0 (sint sz) (mem k, buff);
          (valor, s) \<leftarrow> sys_write_console buff sz (scr k);
          Some (valor, k\<lparr>mem := m, scr := s\<rparr>) })"

section \<open>gettime, getpid\<close>

definition sys_gettime :: "kernel \<Rightarrow> (cint \<times> kernel) option" where
  "sys_gettime k = Some (zeos_ticks k, k)"

definition sys_getpid :: "symbols \<Rightarrow> kernel \<Rightarrow> (cint \<times> kernel) option" where
  "sys_getpid sy k = Some (PID (task k (current sy k)), k)"

section \<open>fork\<close>

text \<open>
  \<^verbatim>\<open>copy_data(current(), new_s, 4096)\<close>: the whole page of the parent, control block,
  list members and stack.
\<close>

definition copy_task_union :: "nat \<Rightarrow> nat \<Rightarrow> kernel \<Rightarrow> kernel" where
  "copy_task_union src dst k = k\<lparr>task := (task k)(dst := task k src),
     lists := (lists k)(Anchor dst := lists k (Anchor src),
                        ChildAnchor dst := lists k (ChildAnchor src),
                        Childs dst := lists k (Childs src))\<rparr>"

fun share_pages :: "symbols \<Rightarrow> DWord \<Rightarrow> DWord \<Rightarrow> nat list \<Rightarrow> mm \<Rightarrow> mm option" where
  "share_pages sy PT_new PT_cur [] m = Some m"
| "share_pages sy PT_new PT_cur (page # pages) m = do {
     e \<leftarrow> pt_read sy PT_cur page m;
     m \<leftarrow> pt_write sy PT_new page e m;
     share_pages sy PT_new PT_cur pages m }"

definition temp_pag :: nat where "temp_pag = 0x3FF000 div 2 ^ 12"

text \<open>
  The loop over the data pages: a new frame is entered in the child's table, mapped at
  the temporary page of the parent, filled from the parent's page, and unmapped; the
  first result is whether every allocation succeeded. On failure the frames given to the
  child so far are released.
\<close>

fun fork_data_pages :: "symbols \<Rightarrow> DWord \<Rightarrow> DWord \<Rightarrow> DWord \<Rightarrow> nat list \<Rightarrow> mm \<Rightarrow> (bool \<times> mm) option" where
  "fork_data_pages sy PT_new PT_cur dir [] m = Some (True, m)"
| "fork_data_pages sy PT_new PT_cur dir (pag # pags) m =
     (let (new_ph_pag, fm) = alloc_frame (phys_mem m);
          m = m\<lparr>phys_mem := fm\<rparr> in
      if new_ph_pag = -1 then do {
        m \<leftarrow> unmap_pages sy PT_new (map (\<lambda>i. PAG_LOG_INIT_DATA + i) [0..<pag]) m;
        Some (False, m) }
      else do {
        m \<leftarrow> pt_write sy PT_new (PAG_LOG_INIT_DATA + pag) (user_rw_entry (of_int new_ph_pag)) m;
        m \<leftarrow> set_ss_pag sy PT_cur temp_pag (of_int new_ph_pag) m;
        m \<leftarrow> copy_data (load8 sy) (store8 sy) (of_nat (4096 * (PAG_LOG_INIT_DATA + pag)))
               (of_nat (4096 * temp_pag)) 4096 m;
        m \<leftarrow> del_ss_pag sy PT_cur temp_pag m;
        fork_data_pages sy PT_new PT_cur dir pags (set_cr3 dir m) })"

text \<open>\<^verbatim>\<open>PID=new_pid(); while(PID==pos) PID=new_pid();\<close>\<close>

partial_function (option) pick_pid :: "nat \<Rightarrow> kernel \<Rightarrow> (cint \<times> kernel) option" where
  "pick_pid pos k =
     (let (p, k) = new_pid k in if p = of_nat pos then pick_pid pos k else Some (p, k))"

text \<open>
  The child's kernel context. \<open>ebp_diff\<close> is a difference of pointers to
  \<^verbatim>\<open>unsigned long\<close>.
\<close>

definition fork_context :: "symbols \<Rightarrow> nat \<Rightarrow> nat \<Rightarrow> kernel \<Rightarrow> kernel option" where
  "fork_context sy cur new k =
     (let curr_sys_ebp = ebp_fork k;
          ebp_diff = sint (stack_addr sy cur (KERNEL_STACK_SIZE - 1) - (curr_sys_ebp - 4)) div 4;
          i = int KERNEL_STACK_SIZE - ebp_diff in
      if 1 \<le> i \<and> i < int KERNEL_STACK_SIZE then
        Some (upd_task new (\<lambda>ts. ts\<lparr>
          kernel_esp := stack_addr sy new (KERNEL_STACK_SIZE - 1) - of_int (4 * ebp_diff),
          stack := (stack ts)(nat i := a_ret_from_fork sy, nat (i - 1) := 0)\<rparr>) k)
      else None)"

definition sys_fork :: "symbols \<Rightarrow> kernel \<Rightarrow> (cint \<times> kernel) option" where
  "sys_fork sy k = do {
     e \<leftarrow> list_empty FreeQ (lists k);
     if e then Some (-1, k)
     else do {
       new_h \<leftarrow> list_first FreeQ (lists k);
       k \<leftarrow> on_lists (list_del new_h) k;
       let new_s = list_entry sy new_h OFF_anchor;
       let cur = current sy k;
       let k = copy_task_union cur new_s k;
       let k = allocate_DIR sy new_s k;
       PT_new \<leftarrow> get_PT sy (get_DIR new_s k) (mem k);
       PT_cur \<leftarrow> get_PT sy (get_DIR cur k) (mem k);
       m \<leftarrow> share_pages sy PT_new PT_cur (map (\<lambda>pag. PAG_LOG_INIT_CODE + pag) [0..<NUM_PAG_CODE]) (mem k);
       (ok, m) \<leftarrow> fork_data_pages sy PT_new PT_cur (get_DIR cur k) [0..<NUM_PAG_DATA] m;
       if \<not> ok then Some (-1, k\<lparr>mem := m\<rparr>)
       else do {
         let k = k\<lparr>mem := set_cr3 (get_DIR cur k) m\<rparr>;
         (pid, k) \<leftarrow> pick_pid (task_pos sy (task_addr sy new_s)) k;
         let k = upd_task new_s (\<lambda>ts. ts\<lparr>PID := pid, parent := Some cur\<rparr>) k;
         k \<leftarrow> on_lists (INIT_LIST_HEAD (Childs new_s)) k;
         k \<leftarrow> on_lists (list_add_tail (ChildAnchor new_s) (Childs cur)) k;
         k \<leftarrow> fork_context sy cur new_s k;
         k \<leftarrow> on_lists (list_add_tail new_h ReadyQ) k;
         Some (pid, k) } } }"

section \<open>exit\<close>

text \<open>The body of \<^verbatim>\<open>list_for_each_safe\<close> over the children of the exiting task.\<close>

definition reparent :: "symbols \<Rightarrow> lptr \<Rightarrow> kernel \<Rightarrow> kernel option" where
  "reparent sy pos k = do {
     let tmp = list_entry sy pos OFF_child_anchor;
     let k = upd_task tmp (\<lambda>ts. ts\<lparr>parent := idle_task k\<rparr>) k;
     k \<leftarrow> on_lists (list_del pos) k;
     idle \<leftarrow> idle_task k;
     on_lists (list_add_tail pos (Childs idle)) k }"

definition sys_exit :: "symbols \<Rightarrow> kernel \<Rightarrow> kernel option" where
  "sys_exit sy k = do {
     let t = current sy k;
     k \<leftarrow> (if parent (task k t) \<noteq> None then on_lists (list_del (ChildAnchor t)) k else Some k);
     k \<leftarrow> list_for_each_safe lists (reparent sy) (Childs t) k;
     k \<leftarrow> on_mem (free_user_pages sy (get_DIR t k)) k;
     k \<leftarrow> on_lists (list_add_tail (Anchor t) FreeQ) k;
     sched_next_rr sy k }"

section \<open>block, unblock\<close>

definition sys_block :: "symbols \<Rightarrow> kernel \<Rightarrow> kernel option" where
  "sys_block sy k =
     (let t = current sy k in
      if pending_unblocks (task k t) \<noteq> 0
      then Some (upd_task t (\<lambda>ts. ts\<lparr>pending_unblocks := pending_unblocks ts - 1\<rparr>) k)
      else do {
        k \<leftarrow> on_lists (list_add_tail (Anchor t) Blocked) k;
        sched_next_rr sy k })"

definition sys_unblock :: "symbols \<Rightarrow> cint \<Rightarrow> kernel \<Rightarrow> (cint \<times> kernel) option" where
  "sys_unblock sy pid k = do {
     found \<leftarrow> list_for_each_find (\<lambda>pos. PID (task k (list_entry sy pos OFF_child_anchor)) = pid)
                (Childs (current sy k)) (lists k);
     case found of
       None \<Rightarrow> Some (-1, k)
     | Some pos \<Rightarrow> do {
         let child = list_entry sy pos OFF_child_anchor;
         trobat \<leftarrow> list_for_each_find (\<lambda>pos. Anchor child = pos) Blocked (lists k);
         if trobat = None
         then Some (0, upd_task child (\<lambda>ts. ts\<lparr>pending_unblocks := pending_unblocks ts + 1\<rparr>) k)
         else do {
           k \<leftarrow> on_lists (list_del (Anchor child)) k;
           k \<leftarrow> on_lists (list_add_tail (Anchor child) ReadyQ) k;
           Some (0, k) } } }"

end
