(* ===== verification/Interrupt.thy ===== *)
theory Interrupt
  imports Sys
begin

text \<open>
  \<^verbatim>\<open>interrupt.c\<close> and the entry points of \<^verbatim>\<open>entry.S\<close>: the interrupt
  descriptor table, the keyboard, clock and page-fault services, and the system-call
  dispatch over \<^verbatim>\<open>sys_call_table.S\<close>. The routines of \<^verbatim>\<open>libzeos.a\<close>
  (\<^verbatim>\<open>set_handlers\<close>, \<^verbatim>\<open>zeos_show_clock\<close>) are parameters.
\<close>

section \<open>Gates\<close>

definition IDT_ENTRIES :: nat where "IDT_ENTRIES = 256"

type_synonym idt_t = "nat \<Rightarrow> Gate"

definition gate_flags :: "cint \<Rightarrow> Word16" where
  "gate_flags maxAccessibleFromPL = ucast (push_bit 13 maxAccessibleFromPL) OR 0x8E00"

definition setInterruptHandler :: "nat \<Rightarrow> DWord \<Rightarrow> cint \<Rightarrow> idt_t \<Rightarrow> idt_t option" where
  "setInterruptHandler vector handler pl idt =
     (if vector < IDT_ENTRIES
      then Some (idt(vector := \<lparr>lowOffset = lowWord handler, segmentSelector = KERNEL_CS,
                               gflags = gate_flags pl, highOffset = highWord handler\<rparr>))
      else None)"

definition setTrapHandler :: "nat \<Rightarrow> DWord \<Rightarrow> cint \<Rightarrow> idt_t \<Rightarrow> idt_t option" where
  "setTrapHandler vector handler pl idt =
     (if vector < IDT_ENTRIES
      then Some (idt(vector := \<lparr>lowOffset = lowWord handler, segmentSelector = KERNEL_CS,
                               gflags = gate_flags pl, highOffset = highWord handler\<rparr>))
      else None)"

text \<open>Addresses of the entry points of \<^verbatim>\<open>entry.S\<close>.\<close>

record entry_points =
  keyboard_handler :: DWord
  clock_handler :: DWord
  segmentation_fault_handler :: DWord
  system_call_handler_addr :: DWord

definition setIdt :: "(idt_t \<Rightarrow> idt_t) \<Rightarrow> symbols \<Rightarrow> entry_points \<Rightarrow> idt_t \<Rightarrow> (idt_t \<times> Register) option" where
  "setIdt set_handlers sy ep idt = do {
     let idtR = \<lparr>r_limit = of_nat (IDT_ENTRIES * 8 - 1), r_base = a_idt sy\<rparr>;
     let idt = set_handlers idt;
     idt \<leftarrow> setInterruptHandler 33 (keyboard_handler ep) 0 idt;
     idt \<leftarrow> setInterruptHandler 32 (clock_handler ep) 0 idt;
     idt \<leftarrow> setInterruptHandler 0x0E (segmentation_fault_handler ep) 0 idt;
     idt \<leftarrow> setTrapHandler 0x80 (system_call_handler_addr ep) 3 idt;
     Some (idt, idtR) }"

section \<open>Keyboard\<close>

definition char_map :: "Byte list" where
  "char_map =
     [0, 0] @ cstring ''1234567890'' @ [0x27, 0xA1, 0, 0] @
     cstring ''qwertyuiop'' @ [0x60, 0x2B, 0, 0] @ cstring ''asdfghjkl'' @ [0xF1, 0, 0xBA, 0, 0xE7] @
     cstring ''zxcvbnm,.-'' @ [0, 0x2A] @ replicate 15 0 @ cstring ''789-456+1230'' @
     [0, 0, 0, 0x3C] @ replicate 11 0"

text \<open>
  \<^verbatim>\<open>keyboard_service\<close>, given what the ports answer. The three
  test keys switch context on the spot; what follows the call runs at once when the key switches to
  the task itself, and otherwise when the interrupted task is resumed, which is not part of this
  routine's result. The comparison with \<^verbatim>\<open>char_map[scancode]\<close> is made even when the scancode is
  beyond the table.
\<close>

definition test_target :: "Byte \<Rightarrow> nat option" where
  "test_target m =
     (if m = of_char (CHR ''d'') then Some 0
      else if m = of_char (CHR ''n'') then Some 1
      else if m = of_char (CHR ''c'') then Some 2
      else None)"

definition keyboard_service :: "symbols \<Rightarrow> (Word16 \<Rightarrow> Byte) \<Rightarrow> kernel \<Rightarrow> kernel option" where
  "keyboard_service sy ports k =
     (let c = inb ports 0x60 in
      if c \<noteq> 0 \<and> c AND 0x80 \<noteq> 0 then
        let scancode = c AND 0x7F;
            c = (if unat scancode < length char_map then char_map ! unat scancode else of_char (CHR ''C'')) in
        do {
          m \<leftarrow> buf_load char_map (unat scancode);
          case test_target m of
            None \<Rightarrow> on_scr (\<lambda>s. Some (printc_xy 0 0 c s)) k
          | Some t \<Rightarrow> do {
              k' \<leftarrow> task_switch sy t k;
              if t = current sy k then on_scr (\<lambda>s. Some (printc_xy 0 0 c s)) k' else Some k' } }
      else Some k)"

section \<open>Clock\<close>

definition clock_service :: "(screen \<Rightarrow> screen) \<Rightarrow> symbols \<Rightarrow> kernel \<Rightarrow> kernel option" where
  "clock_service show_clock sy k = do {
     let k = k\<lparr>zeos_ticks := zeos_ticks k + 1\<rparr>;
     let k = k\<lparr>scr := show_clock (scr k)\<rparr>;
     scheduler sy k }"

section \<open>Page faults\<close>

text \<open>Everything \<^verbatim>\<open>segmentation_fault_service\<close> prints before it loops for ever, through an
  array of eight characters.\<close>

definition print_hex :: "nat \<Rightarrow> cint \<Rightarrow> kernel \<Rightarrow> kernel option" where
  "print_hex sz a k = do {
     buff \<leftarrow> itoa_hex a (replicate sz 0);
     on_scr (printk buff) k }"

definition fault_kind :: "DWord \<Rightarrow> string" where
  "fault_kind err =
     (if bit err 2 then ''user '' else ''system '') @
     (if bit err 4 then ''instruction fetch '' else if bit err 1 then ''write '' else ''read '')"

definition segmentation_fault_service :: "DWord \<Rightarrow> DWord \<Rightarrow> DWord \<Rightarrow> kernel \<Rightarrow> kernel option" where
  "segmentation_fault_service ip err fault_addr k = do {
     k \<leftarrow> on_scr (printk (lit (CHR 0x0A # ''Process generates a ''))) k;
     k \<leftarrow> on_scr (printk (lit (fault_kind err))) k;
     k \<leftarrow> on_scr (printk (lit ''('')) k;
     k \<leftarrow> print_num 8 err k;
     k \<leftarrow> on_scr (printk (lit '') '')) k;
     k \<leftarrow> on_scr (printk (lit (''PAGE FAULT exception'' @ CHR 0x0A # ''EIP: 0x''))) k;
     k \<leftarrow> print_hex 8 ip k;
     k \<leftarrow> on_scr (printk (lit ''   fault address: 0x'')) k;
     print_hex 8 fault_addr k }"

section \<open>System calls\<close>

record regs =
  r_eax :: DWord
  r_ebx :: DWord
  r_ecx :: DWord
  r_edx :: DWord

text \<open>
  What a service routine leaves: a value for the caller's \<^verbatim>\<open>eax\<close>, or, for the
  \<^verbatim>\<open>void\<close> routines, only a state (in which another task may be running).
\<close>

datatype outcome = Returned cint kernel | NoValue kernel

definition ret :: "(cint \<times> kernel) option \<Rightarrow> outcome option" where
  "ret r = do { (v, k) \<leftarrow> r; Some (Returned v k) }"

definition noval :: "kernel option \<Rightarrow> outcome option" where
  "noval r = do { k \<leftarrow> r; Some (NoValue k) }"

text \<open>
  \<^verbatim>\<open>SAVE_ALL\<close> pushes \<^verbatim>\<open>edx\<close> last, so a C routine finds its arguments in
  \<^verbatim>\<open>edx\<close>, \<^verbatim>\<open>ecx\<close>, \<^verbatim>\<open>ebx\<close>.
\<close>

definition sys_call_table :: "symbols \<Rightarrow> regs \<Rightarrow> (kernel \<Rightarrow> outcome option) list" where
  "sys_call_table sy r =
     (let ni = (\<lambda>k. ret (sys_ni_syscall k)) in
      [ni,
       \<lambda>k. noval (sys_exit sy k),
       \<lambda>k. ret (sys_fork sy k),
       ni,
       \<lambda>k. ret (sys_write sy (r_edx r) (r_ecx r) (r_ebx r) k),
       \<lambda>k. noval (sys_block sy k),
       \<lambda>k. ret (sys_unblock sy (r_edx r) k),
       ni, ni, ni,
       \<lambda>k. ret (sys_gettime k),
       ni, ni, ni, ni, ni, ni, ni, ni, ni,
       \<lambda>k. ret (sys_getpid sy k)])"

definition MAX_SYSCALL :: nat where "MAX_SYSCALL = 21"

text \<open>Calling through a slot beyond the table is undefined.\<close>

definition system_call_handler :: "symbols \<Rightarrow> regs \<Rightarrow> kernel \<Rightarrow> outcome option" where
  "system_call_handler sy r k =
     (if sint (r_eax r) < 0 then Some (Returned (-38) k)
      else if int MAX_SYSCALL < sint (r_eax r) then Some (Returned (-38) k)
      else if unat (r_eax r) < length (sys_call_table sy r)
           then (sys_call_table sy r ! unat (r_eax r)) k
           else None)"

section \<open>Properties of the tables\<close>

lemma length_char_map: "length char_map = 98"
  by (simp add: char_map_def cstring_def)

lemma length_sys_call_table: "length (sys_call_table sy r) = MAX_SYSCALL"
  by (simp add: sys_call_table_def MAX_SYSCALL_def Let_def)

text \<open>A gate holds the handler's address and its privilege level.\<close>

lemma gate_flags_user: "gate_flags 3 = 0xEE00" "gate_flags 0 = 0x8E00"
  by (simp_all add: gate_flags_def)

lemma setIdt_gates:
  "\<exists>t. setIdt sh sy ep t0 = Some (t, \<lparr>r_limit = 2047, r_base = a_idt sy\<rparr>) \<and>
    gate_offset (t 32) = clock_handler ep \<and> gate_offset (t 33) = keyboard_handler ep \<and>
    gate_offset (t 14) = segmentation_fault_handler ep \<and> gate_offset (t 128) = system_call_handler_addr ep \<and>
    gflags (t 128) = 0xEE00 \<and> gflags (t 32) = 0x8E00 \<and> gflags (t 33) = 0x8E00 \<and> gflags (t 14) = 0x8E00 \<and>
    (\<forall>v. v \<notin> {14, 32, 33, 128} \<longrightarrow> t v = sh t0 v)"
  by (simp add: setIdt_def setInterruptHandler_def setTrapHandler_def IDT_ENTRIES_def gate_flags_user
      gate_offset_def word_split)

end
