(* ===== verification/Memory.thy ===== *)
theory Memory
  imports Utils
begin

text \<open>
  Invariants of the memory manager: what the address translation does under a coherent
  TLB, the accounting of physical frames, and the effect of the mapping routines of
  \<^verbatim>\<open>mm.c\<close> on both.
\<close>

section \<open>Addresses, pages and offsets\<close>

lemma unat_page_of: "page_of a = unat a div 4096"
  by (simp add: page_of_def drop_bit_eq_div unat_div)

lemma unat_offset_of: "offset_of a = unat a mod 4096"
proof -
  have "(0xFFF :: DWord) = mask 12" by (simp add: mask_eq_exp_minus_1)
  then have "a AND 0xFFF = take_bit 12 a" by (simp add: take_bit_eq_mask)
  then show ?thesis by (simp add: offset_of_def take_bit_eq_mod unat_mod)
qed

lemma page_offset_inj: "page_of a = page_of b \<Longrightarrow> offset_of a = offset_of b \<Longrightarrow> a = b"
  by (metis unat_page_of unat_offset_of div_mult_mod_eq word_unat_eq_iff)

lemma page_addr:
  assumes "page < 2 ^ 20" and "i < 4096"
  shows "page_of (of_nat (4096 * page) + of_nat i) = page"
    and "offset_of (of_nat (4096 * page) + of_nat i) = i"
proof -
  have "unat (of_nat (4096 * page + i) :: DWord) = 4096 * page + i"
    by (rule unat_of_nat32) (use assms in simp)
  then have u: "unat (of_nat (4096 * page) + of_nat i :: DWord) = 4096 * page + i"
    by (simp only: of_nat_add)
  show "page_of (of_nat (4096 * page) + of_nat i) = page"
    unfolding unat_page_of u using assms(2) by simp
  show "offset_of (of_nat (4096 * page) + of_nat i) = i"
    unfolding unat_offset_of u using assms(2) by simp
qed

section \<open>Translation\<close>

text \<open>What an access to a page uses: the cached entry if there is one, else the walk.\<close>

definition effective :: "symbols \<Rightarrow> mm \<Rightarrow> nat \<Rightarrow> page_table_entry option" where
  "effective sy m page = (case tlb m page of Some e \<Rightarrow> Some e | None \<Rightarrow> walk sy m page)"

definition coherent :: "symbols \<Rightarrow> mm \<Rightarrow> bool" where
  "coherent sy m \<longleftrightarrow> (\<forall>page e. tlb m page = Some e \<longrightarrow> walk sy m page = Some e)"

definition maps :: "symbols \<Rightarrow> mm \<Rightarrow> nat \<Rightarrow> nat \<Rightarrow> bool" where
  "maps sy m page f \<longleftrightarrow> (\<exists>e. effective sy m page = Some e \<and> unat (pbase_addr e) = f)"

lemma coherent_effective: "coherent sy m \<Longrightarrow> effective sy m page = walk sy m page"
  by (auto simp: coherent_def effective_def split: option.splits)

lemma walk_cong:
  "cr3 m' = cr3 m \<Longrightarrow> dir_pages m' = dir_pages m \<Longrightarrow> pagusr_table m' = pagusr_table m \<Longrightarrow>
    walk sy m' page = walk sy m page"
  by (simp add: walk_def Let_def cong: if_cong)

lemma effective_cong:
  "cr3 m' = cr3 m \<Longrightarrow> dir_pages m' = dir_pages m \<Longrightarrow> pagusr_table m' = pagusr_table m \<Longrightarrow>
    tlb m' = tlb m \<Longrightarrow> effective sy m' page = effective sy m page"
  by (simp add: effective_def walk_cong [of m' m] split: option.split)

text \<open>A translation changes nothing but the TLB, and no later translation.\<close>

lemma translate_effective:
  assumes "effective sy m page = Some e"
  shows "\<exists>t. translate sy m page = Some (e, m\<lparr>tlb := t\<rparr>) \<and>
    (\<forall>p. effective sy (m\<lparr>tlb := t\<rparr>) p = effective sy m p)"
proof (cases "tlb m page")
  case (Some e')
  then show ?thesis
    using assms by (intro exI [of _ "tlb m"]) (simp add: translate_def effective_def)
next
  case None
  with assms have w: "walk sy m page = Some e" by (simp add: effective_def)
  let ?m = "m\<lparr>tlb := (tlb m)(page \<mapsto> e)\<rparr>"
  have "walk sy ?m p = walk sy m p" for p by (rule walk_cong) simp_all
  then have "effective sy ?m p = effective sy m p" for p
    using None w by (simp add: effective_def split: option.split)
  with None w show ?thesis
    by (intro exI [of _ "(tlb m)(page \<mapsto> e)"]) (simp add: translate_def)
qed

lemma translate_unmapped: "effective sy m page = None \<Longrightarrow> translate sy m page = None"
  by (auto simp: effective_def translate_def split: option.splits)

text \<open>
  Two memory states that differ only in the TLB (without consequences for any
  translation) and in the contents of the frames \<open>F\<close>.
\<close>

definition same_but :: "symbols \<Rightarrow> nat set \<Rightarrow> mm \<Rightarrow> mm \<Rightarrow> bool" where
  "same_but sy F m m' \<longleftrightarrow> m' = m\<lparr>ram := ram m', tlb := tlb m'\<rparr> \<and>
     (\<forall>p. effective sy m' p = effective sy m p) \<and> (\<forall>f. f \<notin> F \<longrightarrow> ram m' f = ram m f)"

lemma same_but_refl: "same_but sy F m m"
  by (simp add: same_but_def)

lemma same_but_trans:
  assumes "same_but sy F m1 m2" and "same_but sy F m2 m3"
  shows "same_but sy F m1 m3"
proof -
  have "m3 = m2\<lparr>ram := ram m3, tlb := tlb m3\<rparr>" "m2 = m1\<lparr>ram := ram m2, tlb := tlb m2\<rparr>"
    using assms by (simp_all add: same_but_def)
  then have "m3 = m1\<lparr>ram := ram m3, tlb := tlb m3\<rparr>" by (metis mm.update_convs(4,7) mm.surjective)
  with assms show ?thesis by (simp add: same_but_def)
qed

lemma load8_maps:
  assumes "maps sy m (page_of a) f"
  shows "\<exists>m'. load8 sy m a = Some (ram m f (offset_of a), m') \<and> same_but sy {} m m'"
proof -
  obtain e where e: "effective sy m (page_of a) = Some e" "unat (pbase_addr e) = f"
    using assms by (auto simp: maps_def)
  then obtain t where "translate sy m (page_of a) = Some (e, m\<lparr>tlb := t\<rparr>)"
    "\<forall>p. effective sy (m\<lparr>tlb := t\<rparr>) p = effective sy m p"
    using translate_effective by blast
  with e show ?thesis by (auto simp: load8_def same_but_def)
qed

lemma translate_some: "translate sy m page = Some (e, m') \<Longrightarrow> effective sy m page = Some e"
  by (auto simp: translate_def effective_def split: option.splits)

lemma translate_same:
  assumes "translate sy m page = Some (e, m')"
  shows "same_but sy {} m m'"
  using translate_effective [OF translate_some [OF assms]] assms by (auto simp: same_but_def)

lemma load8_same: "load8 sy m a = Some (b, m') \<Longrightarrow> same_but sy {} m m'"
  by (auto simp: load8_def bind_Some_iff dest: translate_same split: prod.splits)

lemma store8_maps:
  assumes "maps sy m (page_of a) f"
  shows "\<exists>m'. store8 sy m a v = Some m' \<and> same_but sy {f} m m' \<and>
    ram m' f = (ram m f)(offset_of a := v)"
proof -
  obtain e where e: "effective sy m (page_of a) = Some e" "unat (pbase_addr e) = f"
    using assms by (auto simp: maps_def)
  then obtain t where t: "translate sy m (page_of a) = Some (e, m\<lparr>tlb := t\<rparr>)"
    "\<forall>p. effective sy (m\<lparr>tlb := t\<rparr>) p = effective sy m p"
    using translate_effective by blast
  let ?m = "m\<lparr>tlb := t, ram := (ram m)(f := (ram m f)(offset_of a := v))\<rparr>"
  have "effective sy ?m p = effective sy m p" for p
    using t(2) effective_cong [of ?m "m\<lparr>tlb := t\<rparr>" sy p] by simp
  with e t show ?thesis by (auto simp: store8_def same_but_def)
qed

section \<open>Copying between mapped regions\<close>

definition frame_at :: "symbols \<Rightarrow> mm \<Rightarrow> DWord \<Rightarrow> nat" where
  "frame_at sy m a = (case effective sy m (page_of a) of None \<Rightarrow> 0 | Some e \<Rightarrow> unat (pbase_addr e))"

text \<open>
  Every address of \<open>R\<close> and \<open>W\<close> is mapped, no frame of \<open>W\<close> is seen from \<open>R\<close>, and different
  pages of \<open>W\<close> have different frames.
\<close>

definition separated :: "symbols \<Rightarrow> mm \<Rightarrow> DWord set \<Rightarrow> DWord set \<Rightarrow> bool" where
  "separated sy m R W \<longleftrightarrow> (\<forall>a\<in>R \<union> W. effective sy m (page_of a) \<noteq> None) \<and>
     (\<forall>a\<in>R. \<forall>b\<in>W. frame_at sy m a \<noteq> frame_at sy m b) \<and>
     (\<forall>a\<in>W. \<forall>b\<in>W. frame_at sy m a = frame_at sy m b \<longrightarrow> page_of a = page_of b)"

definition copying :: "symbols \<Rightarrow> mm \<Rightarrow> DWord set \<Rightarrow> DWord set \<Rightarrow> mm \<Rightarrow> bool" where
  "copying sy m R W m' \<longleftrightarrow> separated sy m R W \<and> same_but sy (frame_at sy m ` W) m m'"

lemma same_but_mono: "same_but sy F m m' \<Longrightarrow> F \<subseteq> F' \<Longrightarrow> same_but sy F' m m'"
  by (auto simp: same_but_def)

lemma mapped_frame:
  "same_but sy F m m' \<Longrightarrow> effective sy m (page_of a) \<noteq> None \<Longrightarrow> maps sy m' (page_of a) (frame_at sy m a)"
  by (auto simp: same_but_def maps_def frame_at_def)

interpretation region: byte_memory "load8 sy" "store8 sy" "copying sy m R W" "\<lambda>_ _. True"
  R "\<lambda>m' a. ram m' (frame_at sy m a) (offset_of a)" W "\<lambda>m' a. ram m' (frame_at sy m a) (offset_of a)"
  for sy m R W
proof unfold_locales
  fix s a assume s: "copying sy m R W s" and a: "a \<in> R"
  have sep: "separated sy m R W" and sb: "same_but sy (frame_at sy m ` W) m s"
    using s by (simp_all add: copying_def)
  have "maps sy s (page_of a) (frame_at sy m a)"
    by (rule mapped_frame [OF sb]) (use sep a in \<open>unfold separated_def, blast\<close>)
  then obtain m' where m': "load8 sy s a = Some (ram s (frame_at sy m a) (offset_of a), m')" "same_but sy {} s m'"
    using load8_maps by blast
  have "copying sy m R W m'"
    using s same_but_trans [OF _ same_but_mono [OF m'(2)], of "frame_at sy m ` W"] by (simp add: copying_def)
  moreover have "ram m' = ram s" using m'(2) by (intro ext) (simp add: same_but_def)
  ultimately show "\<exists>s'. load8 sy s a = Some (ram s (frame_at sy m a) (offset_of a), s') \<and> copying sy m R W s' \<and> True \<and>
      (\<forall>x\<in>R. ram s' (frame_at sy m x) (offset_of x) = ram s (frame_at sy m x) (offset_of x)) \<and>
      (\<forall>x\<in>W. ram s' (frame_at sy m x) (offset_of x) = ram s (frame_at sy m x) (offset_of x))"
    using m'(1) by auto
next
  fix s a b assume s: "copying sy m R W s" and a: "a \<in> W"
  let ?f = "frame_at sy m a"
  have sep: "separated sy m R W" and sb: "same_but sy (frame_at sy m ` W) m s"
    using s by (simp_all add: copying_def)
  have "maps sy s (page_of a) ?f"
    by (rule mapped_frame [OF sb]) (use sep a in \<open>unfold separated_def, blast\<close>)
  then obtain m' where m': "store8 sy s a b = Some m'" "same_but sy {?f} s m'" "ram m' ?f = (ram s ?f)(offset_of a := b)"
    using store8_maps by blast
  have "same_but sy (frame_at sy m ` W) s m'" by (rule same_but_mono [OF m'(2)]) (use a in simp)
  then have "copying sy m R W m'" using s same_but_trans unfolding copying_def by blast
  moreover have other: "ram m' f = ram s f" if "f \<noteq> ?f" for f using m'(2) that by (simp add: same_but_def)
  then have "\<forall>x\<in>R. ram m' (frame_at sy m x) (offset_of x) = ram s (frame_at sy m x) (offset_of x)"
    using sep a unfolding separated_def by metis
  moreover have "ram m' (frame_at sy m x) (offset_of x) = (if x = a then b else ram s (frame_at sy m x) (offset_of x))"
    if "x \<in> W" for x
  proof (cases "frame_at sy m x = ?f")
    case True
    then have "page_of x = page_of a" using sep a that unfolding separated_def by blast
    with True m'(3) page_offset_inj [of x a] show ?thesis by auto
  qed (use other in auto)
  ultimately show "\<exists>s'. store8 sy s a b = Some s' \<and> copying sy m R W s' \<and> True \<and>
      (\<forall>x\<in>R. ram s' (frame_at sy m x) (offset_of x) = ram s (frame_at sy m x) (offset_of x)) \<and>
      (\<forall>x\<in>W. ram s' (frame_at sy m x) (offset_of x) = (if x = a then b else ram s (frame_at sy m x) (offset_of x)))"
    using m'(1) by blast
qed auto

text \<open>The copy loop of \<^verbatim>\<open>utils.c\<close> on two separated regions.\<close>

lemma copy_regions:
  assumes sep: "separated sy m {p + of_nat i |i. i < n} {q + of_nat i |i. i < n}" and n: "n < 2 ^ 31"
  shows "\<exists>m'. copy_data (load8 sy) (store8 sy) p q (int n) m = Some m' \<and>
    same_but sy (frame_at sy m ` {q + of_nat i |i. i < n}) m m' \<and>
    (\<forall>i<n. ram m' (frame_at sy m (q + of_nat i)) (offset_of (q + of_nat i)) =
      ram m (frame_at sy m (p + of_nat i)) (offset_of (p + of_nat i)))"
proof -
  let ?R = "{p + of_nat i |i. i < n}" and ?W = "{q + of_nat i |i. i < n}"
  have "copying sy m ?R ?W m" using sep by (simp add: copying_def same_but_refl)
  then obtain m' where m': "copy_data (load8 sy) (store8 sy) p q (int n) m = Some m'"
    "region.copied sy m ?R ?W n p q m m'"
    using region.copy_data_ok [of sy m ?R ?W m "int n" p q] n by auto
  have "ram m' (frame_at sy m (q + of_nat i)) (offset_of (q + of_nat i)) =
      ram m (frame_at sy m (p + of_nat i)) (offset_of (p + of_nat i))" if i: "i < n" for i
  proof -
    have "unat (q + of_nat i - q :: DWord) = i" "q + of_nat i \<in> ?W" using i n by auto
    then show ?thesis using m'(2) i unfolding region.copied_def by auto
  qed
  moreover have "same_but sy (frame_at sy m ` ?W) m m'"
    using m'(2) by (simp add: region.copied_def copying_def)
  ultimately show ?thesis using m'(1) by blast
qed

text \<open>Copying 4096 bytes from one mapped page to another makes their frames equal.\<close>

lemma copy_page:
  assumes maps: "maps sy m p f" "maps sy m p' f'" and f: "f \<noteq> f'" and p: "p < 2 ^ 20" "p' < 2 ^ 20"
  shows "\<exists>m'. copy_data (load8 sy) (store8 sy) (of_nat (4096 * p)) (of_nat (4096 * p')) 4096 m = Some m' \<and>
    same_but sy {f'} m m' \<and> (\<forall>i<4096. ram m' f' i = ram m f i)"
proof -
  let ?p = "of_nat (4096 * p) :: DWord" and ?q = "of_nat (4096 * p') :: DWord"
  note a = page_addr [OF p(1)] page_addr [OF p(2)]
  have fr: "frame_at sy m (?p + of_nat i) = f" "frame_at sy m (?q + of_nat i) = f'" if "i < 4096" for i
    using maps a that by (auto simp: frame_at_def maps_def simp del: of_nat_mult)
  have "separated sy m {?p + of_nat i |i. i < 4096} {?q + of_nat i |i. i < 4096}"
    unfolding separated_def
  proof (intro conjI ballI impI)
    fix x assume "x \<in> {?p + of_nat i |i. i < 4096} \<union> {?q + of_nat i |i. i < 4096}"
    then show "effective sy m (page_of x) \<noteq> None" using maps a by (auto simp: maps_def simp del: of_nat_mult)
  qed (use fr f a in \<open>auto simp del: of_nat_mult\<close>)
  then obtain m' where m': "copy_data (load8 sy) (store8 sy) ?p ?q (int 4096) m = Some m'"
    "same_but sy (frame_at sy m ` {?q + of_nat i |i. i < 4096}) m m'"
    "\<forall>i<4096. ram m' (frame_at sy m (?q + of_nat i)) (offset_of (?q + of_nat i)) =
      ram m (frame_at sy m (?p + of_nat i)) (offset_of (?p + of_nat i))"
    using copy_regions [of sy m ?p 4096 ?q] by auto
  have "frame_at sy m ` {?q + of_nat i |i. i < 4096} \<subseteq> {f'}" using fr(2) by auto
  then have "same_but sy {f'} m m'" using m'(2) by (rule same_but_mono [rotated])
  moreover have "ram m' f' i = ram m f i" if "i < 4096" for i
    using m'(3) that fr [OF that] a(2,4) [OF that] by metis
  ultimately show ?thesis using m'(1) by (intro exI [of _ m']) simp
qed

section \<open>Page tables in place\<close>

definition set_pte :: "nat \<Rightarrow> nat \<Rightarrow> page_table_entry \<Rightarrow> mm \<Rightarrow> mm" where
  "set_pte j page e m = m\<lparr>pagusr_table := (pagusr_table m)(j := (pagusr_table m j)(page := e))\<rparr>"

lemma set_pte_fields [simp]:
  "phys_mem (set_pte j page e m) = phys_mem m" "dir_pages (set_pte j page e m) = dir_pages m"
  "ram (set_pte j page e m) = ram m" "cr3 (set_pte j page e m) = cr3 m" "tlb (set_pte j page e m) = tlb m"
  "cr0 (set_pte j page e m) = cr0 m"
  "pagusr_table (set_pte j page e m) i p =
     (if i = j \<and> p = page then e else pagusr_table m i p)"
  by (simp_all add: set_pte_def)

lemma pt_write_addr [layout_simps]:
  "j < NR_TASKS \<Longrightarrow> page < TOTAL_PAGES \<Longrightarrow> pt_write sy (pt_addr sy j) page e m = Some (set_pte j page e m)"
  by (simp add: pt_write_def layout_simps set_pte_def)

lemma pt_read_addr [layout_simps]:
  "j < NR_TASKS \<Longrightarrow> page < TOTAL_PAGES \<Longrightarrow> pt_read sy (pt_addr sy j) page m = Some (pagusr_table m j page)"
  by (simp add: pt_read_def layout_simps)

text \<open>Every directory points at the page table of its own slot and at nothing else.\<close>

definition dirs_ok :: "symbols \<Rightarrow> mm \<Rightarrow> bool" where
  "dirs_ok sy m \<longleftrightarrow> (\<forall>i<NR_TASKS. dir_pages m i ENTRY_DIR_PAGES = user_rw_entry (drop_bit 12 (pt_addr sy i)) \<and>
     (\<forall>d. d \<noteq> ENTRY_DIR_PAGES \<longrightarrow> dir_pages m i d = 0))"

lemma pbase_dir_entry:
  "linked sy \<Longrightarrow> i < NR_TASKS \<Longrightarrow> push_bit 12 (pbase_addr (user_rw_entry (drop_bit 12 (pt_addr sy i)))) = pt_addr sy i"
  using pt_addr_frame [of sy i] by simp

lemma get_PT_addr:
  "linked sy \<Longrightarrow> dirs_ok sy m \<Longrightarrow> i < NR_TASKS \<Longrightarrow> get_PT sy (dir_addr sy i) m = Some (pt_addr sy i)"
  by (simp add: get_PT_def layout_simps dirs_ok_def pbase_dir_entry)

lemma walk_user:
  assumes "linked sy" and "dirs_ok sy m" and "r < NR_TASKS" and "cr3 m = dir_addr sy r" and "page < TOTAL_PAGES"
  shows "walk sy m page =
    (if present (pagusr_table m r page) = 0 then None else Some (pagusr_table m r page))"
proof -
  have "page div 1024 = ENTRY_DIR_PAGES" "page mod 1024 = page" using assms(5) by (simp_all add: zeos_consts)
  moreover have "dir_pages m r ENTRY_DIR_PAGES = user_rw_entry (drop_bit 12 (pt_addr sy r))"
    using assms(2,3) by (simp add: dirs_ok_def)
  ultimately show ?thesis
    using assms pbase_dir_entry [of sy r] by (simp add: walk_def layout_simps Let_def)
qed

lemma walk_beyond:
  assumes "dirs_ok sy m" and "r < NR_TASKS" and "cr3 m = dir_addr sy r" and "\<not> page < TOTAL_PAGES"
  shows "walk sy m page = None"
proof -
  have "page div 1024 \<noteq> ENTRY_DIR_PAGES" using assms(4) by (simp add: zeos_consts)
  then have "dir_pages m r (page div 1024) = 0" using assms(1,2) by (simp add: dirs_ok_def)
  then show ?thesis using assms by (simp add: walk_def layout_simps Let_def)
qed

text \<open>The walk depends on the tables of the running task only.\<close>

lemma walk_table_cong:
  assumes "linked sy" and "dirs_ok sy m" and "dirs_ok sy m'" and "r < NR_TASKS"
    and "cr3 m = dir_addr sy r" and "cr3 m' = dir_addr sy r" and "pagusr_table m' r = pagusr_table m r"
  shows "walk sy m' page = walk sy m page"
  using walk_user [OF assms(1,2,4,5), of page] walk_user [OF assms(1,3,4,6), of page]
    walk_beyond [OF assms(2,4,5), of page] walk_beyond [OF assms(3,4,6), of page] assms(7)
  by (cases "page < TOTAL_PAGES") simp_all

lemma set_cr3_fields [simp]:
  "phys_mem (set_cr3 d m) = phys_mem m" "dir_pages (set_cr3 d m) = dir_pages m"
  "pagusr_table (set_cr3 d m) = pagusr_table m" "ram (set_cr3 d m) = ram m"
  "cr3 (set_cr3 d m) = d" "tlb (set_cr3 d m) = Map.empty" "cr0 (set_cr3 d m) = cr0 m"
  by (simp_all add: set_cr3_def)

text \<open>A write to \<^verbatim>\<open>CR3\<close> always leaves the TLB coherent.\<close>

lemma coherent_set_cr3: "coherent sy (set_cr3 d m)"
  by (simp add: coherent_def)

section \<open>Frame accounting\<close>

definition data_frame :: "mm \<Rightarrow> nat \<Rightarrow> nat \<Rightarrow> nat" where
  "data_frame m i p = unat (pbase_addr (pagusr_table m i (PAG_LOG_INIT_DATA + p)))"

text \<open>The data pages of the tasks in \<open>I\<close> are in the same frames with the same contents.\<close>

definition undisturbed :: "nat set \<Rightarrow> mm \<Rightarrow> mm \<Rightarrow> bool" where
  "undisturbed I m m' \<longleftrightarrow> (\<forall>i\<in>I. \<forall>p<NUM_PAG_DATA.
     data_frame m' i p = data_frame m i p \<and> ram m' (data_frame m i p) = ram m (data_frame m i p))"

definition user_frames :: "nat set" where
  "user_frames = {f. NUM_PAG_KERNEL \<le> f \<and> f < TOTAL_PAGES \<and> even f}"

text \<open>The first eight user frames hold the program text, shared by every process.\<close>

definition code_frame :: "nat \<Rightarrow> nat" where
  "code_frame c = NUM_PAG_KERNEL + 2 * c"

definition code_frames :: "nat set" where
  "code_frames = code_frame ` {..<NUM_PAG_CODE}"

definition slots :: "(nat \<times> nat) set" where
  "slots = {..<NR_TASKS} \<times> {..<NUM_PAG_DATA}"

text \<open>
  \<open>frames_ok m D\<close>: the data pages in \<open>D\<close> (task, page) are mapped writable to pairwise
  different user frames, none of them a text frame, and every other user frame except
  the text frames is available to the allocator.
\<close>

definition frames_ok :: "mm \<Rightarrow> (nat \<times> nat) set \<Rightarrow> bool" where
  "frames_ok m D \<longleftrightarrow> D \<subseteq> slots \<and>
     (\<forall>(i, p)\<in>D. data_frame m i p \<in> user_frames - code_frames \<and>
        pagusr_table m i (PAG_LOG_INIT_DATA + p) = user_rw_entry (of_nat (data_frame m i p))) \<and>
     inj_on (\<lambda>(i, p). data_frame m i p) D \<and>
     avail_frames (phys_mem m) = user_frames - code_frames - (\<lambda>(i, p). data_frame m i p) ` D"

lemma frames_ok_user: "frames_ok m D \<Longrightarrow> (i, p) \<in> D \<Longrightarrow> data_frame m i p \<in> user_frames - code_frames"
  unfolding frames_ok_def by blast

lemma frames_ok_inj: "frames_ok m D \<Longrightarrow> inj_on (\<lambda>(i, p). data_frame m i p) D"
  unfolding frames_ok_def by blast

lemma frames_ok_cong:
  assumes "frames_ok m D" and "phys_mem m' = phys_mem m"
    and "\<And>i p. (i, p) \<in> D \<Longrightarrow> pagusr_table m' i (PAG_LOG_INIT_DATA + p) = pagusr_table m i (PAG_LOG_INIT_DATA + p)"
  shows "frames_ok m' D"
proof -
  have f: "data_frame m' i p = data_frame m i p" if "(i, p) \<in> D" for i p
    using assms(3) [OF that] by (simp add: data_frame_def)
  have "(\<lambda>(i, p). data_frame m' i p) ` D = (\<lambda>(i, p). data_frame m i p) ` D"
    by (rule image_cong) (use f in auto)
  moreover have "inj_on (\<lambda>(i, p). data_frame m' i p) D = inj_on (\<lambda>(i, p). data_frame m i p) D"
    by (rule inj_on_cong) (use f in auto)
  ultimately show ?thesis
    using assms f unfolding frames_ok_def by auto
qed

lemma user_frames_bound: "f \<in> user_frames \<Longrightarrow> f < 1024"
  by (simp add: user_frames_def zeos_consts)

lemma finite_user_frames: "finite user_frames"
  unfolding user_frames_def by simp

lemma data_frame_releasable: "f \<in> user_frames - code_frames \<Longrightarrow> f \<in> releasable_frames"
proof -
  assume f: "f \<in> user_frames - code_frames"
  have "f \<noteq> NUM_PAG_KERNEL"
  proof
    assume "f = NUM_PAG_KERNEL"
    then have "f \<in> code_frames"
      by (auto simp: code_frames_def code_frame_def zeos_consts intro: image_eqI [of _ _ 0])
    with f show False by blast
  qed
  with f show ?thesis by (auto simp: user_frames_def releasable_frames_def)
qed

lemma card_slots: "card slots = 200"
  by (simp add: slots_def zeos_consts)

text \<open>
  376 user frames are left beside the text, and ten processes need at most 200: a process
  that lacks a data page always finds a frame for it.
\<close>

lemma frames_ok_avail:
  assumes "frames_ok m D"
  shows "avail_frames (phys_mem m) \<noteq> {}"
proof
  assume none: "avail_frames (phys_mem m) = {}"
  have fin: "finite D" and "card D \<le> 200"
    using assms card_slots finite_subset [of D slots] card_mono [of slots D]
    by (auto simp: frames_ok_def slots_def)
  then have d: "card ((\<lambda>(i, p). data_frame m i p) ` D) \<le> 200"
    using card_image_le [OF fin] by (metis order_trans)
  have c: "card code_frames \<le> 8"
    using card_image_le [of "{..<NUM_PAG_CODE}" code_frame] by (simp add: code_frames_def zeos_consts)
  have "user_frames \<subseteq> code_frames \<union> (\<lambda>(i, p). data_frame m i p) ` D"
    using assms none unfolding frames_ok_def by blast
  then have "card user_frames \<le> card (code_frames \<union> (\<lambda>(i, p). data_frame m i p) ` D)"
    using fin by (intro card_mono) (simp_all add: code_frames_def)
  also have "\<dots> \<le> 208" using card_Un_le [of code_frames "(\<lambda>(i, p). data_frame m i p) ` D"] c d by linarith
  finally show False using card_even_frames by (simp add: user_frames_def)
qed

lemma frames_ok_alloc:
  assumes ok: "frames_ok m D" and new: "(i, p) \<notin> D" "i < NR_TASKS" "p < NUM_PAG_DATA"
  shows "\<exists>f. alloc_frame (phys_mem m) = (int f, (phys_mem m)(f := USED_FRAME)) \<and>
    f \<in> avail_frames (phys_mem m) \<and>
    frames_ok (set_pte i (PAG_LOG_INIT_DATA + p) (user_rw_entry (of_nat f))
      (m\<lparr>phys_mem := (phys_mem m)(f := USED_FRAME)\<rparr>)) (insert (i, p) D)"
proof (cases "phys_mem m" rule: alloc_frame_cases)
  case full
  then show ?thesis using frames_ok_avail [OF ok] by simp
next
  case (found f)
  let ?m = "set_pte i (PAG_LOG_INIT_DATA + p) (user_rw_entry (of_nat f))
    (m\<lparr>phys_mem := (phys_mem m)(f := USED_FRAME)\<rparr>)"
  let ?F = "\<lambda>m (i, p). data_frame m i p"
  have f: "f \<in> user_frames - code_frames" "f \<notin> ?F m ` D"
    using ok found(1) unfolding frames_ok_def by auto
  have this_frame: "data_frame ?m i p = f"
    using user_frames_bound [of f] f(1) by (simp add: data_frame_def)
  have other: "data_frame ?m i' p' = data_frame m i' p'" if "(i', p') \<in> D" for i' p'
    using that new(1) by (auto simp: data_frame_def)
  have img: "?F ?m ` insert (i, p) D = insert f (?F m ` D)"
  proof -
    have "?F ?m ` D = ?F m ` D" by (rule image_cong) (use other in auto)
    then show ?thesis using this_frame by simp
  qed
  have inj: "inj_on (?F ?m) D"
    using ok inj_on_cong [of D "?F ?m" "?F m"] other unfolding frames_ok_def by auto
  have "frames_ok ?m (insert (i, p) D)"
    unfolding frames_ok_def img
  proof (intro conjI)
    show "insert (i, p) D \<subseteq> slots" using ok new by (auto simp: frames_ok_def slots_def)
    show "\<forall>(i', p')\<in>insert (i, p) D. data_frame ?m i' p' \<in> user_frames - code_frames \<and>
        pagusr_table ?m i' (PAG_LOG_INIT_DATA + p') = user_rw_entry (of_nat (data_frame ?m i' p'))"
      using ok f this_frame other new(1) unfolding frames_ok_def by auto
    show "inj_on (?F ?m) (insert (i, p) D)"
      using inj img f(2) this_frame other by (auto simp: inj_on_insert image_iff split: prod.splits)
    show "avail_frames (phys_mem ?m) = user_frames - code_frames - insert f (?F m ` D)"
      using ok found(4) unfolding frames_ok_def by auto
  qed
  with found show ?thesis by blast
qed

lemma frames_ok_free:
  assumes ok: "frames_ok m D" and mem: "(i, p) \<in> D"
  shows "frames_ok (set_pte i (PAG_LOG_INIT_DATA + p) 0
      (m\<lparr>phys_mem := free_frame (pbase_addr (pagusr_table m i (PAG_LOG_INIT_DATA + p))) (phys_mem m)\<rparr>))
    (D - {(i, p)})"
proof -
  let ?e = "pagusr_table m i (PAG_LOG_INIT_DATA + p)"
  let ?m = "set_pte i (PAG_LOG_INIT_DATA + p) 0 (m\<lparr>phys_mem := free_frame (pbase_addr ?e) (phys_mem m)\<rparr>)"
  let ?F = "\<lambda>m (i, p). data_frame m i p"
  have f: "data_frame m i p \<in> user_frames - code_frames"
    using ok mem unfolding frames_ok_def by blast
  have other: "data_frame ?m i' p' = data_frame m i' p'" if "(i', p') \<in> D - {(i, p)}" for i' p'
    using that by (auto simp: data_frame_def)
  have img: "?F ?m ` (D - {(i, p)}) = ?F m ` D - {data_frame m i p}"
  proof -
    have "?F ?m ` (D - {(i, p)}) = ?F m ` (D - {(i, p)})" by (rule image_cong) (use other in auto)
    also have "\<dots> = ?F m ` D - ?F m ` {(i, p)}"
      by (rule inj_on_image_set_diff) (use ok mem in \<open>auto simp: frames_ok_def\<close>)
    finally show ?thesis by simp
  qed
  have avail: "avail_frames (phys_mem ?m) = insert (data_frame m i p) (avail_frames (phys_mem m))"
    using fa.free_avail [of "pbase_addr ?e" "phys_mem m"] data_frame_releasable [OF f]
    by (simp add: data_frame_def)
  have inj: "inj_on (?F ?m) (D - {(i, p)}) = inj_on (?F m) (D - {(i, p)})"
    by (rule inj_on_cong) (use other in auto)
  have diff: "insert (data_frame m i p) (user_frames - code_frames - ?F m ` D)
      = user_frames - code_frames - (?F m ` D - {data_frame m i p})"
    using f mem by force
  show ?thesis
    unfolding frames_ok_def img avail inj
  proof (intro conjI)
    show "D - {(i, p)} \<subseteq> slots" using ok by (auto simp: frames_ok_def)
    show "\<forall>(i', p')\<in>D - {(i, p)}. data_frame ?m i' p' \<in> user_frames - code_frames \<and>
        pagusr_table ?m i' (PAG_LOG_INIT_DATA + p') = user_rw_entry (of_nat (data_frame ?m i' p'))"
      using ok other unfolding frames_ok_def by (auto 0 3)
    have "inj_on (?F m) D" using ok by (simp add: frames_ok_def)
    then show "inj_on (?F m) (D - {(i, p)})" by (rule inj_on_subset) auto
    have "avail_frames (phys_mem m) = user_frames - code_frames - ?F m ` D"
      using ok by (simp add: frames_ok_def)
    then show "insert (data_frame m i p) (avail_frames (phys_mem m)) =
        user_frames - code_frames - (?F m ` D - {data_frame m i p})"
      by (simp only: diff)
  qed
qed

lemma release_avail:
  assumes "frames_ok m D" and "frames_ok m' (D - E)" and "E \<subseteq> D"
    and "\<And>i p. (i, p) \<in> D - E \<Longrightarrow> data_frame m' i p = data_frame m i p"
  shows "avail_frames (phys_mem m') = avail_frames (phys_mem m) \<union> (\<lambda>(i, p). data_frame m i p) ` E"
proof -
  let ?F = "\<lambda>m (i, p). data_frame m i p" and ?U = "user_frames - code_frames"
  have "?F m' ` (D - E) = ?F m ` (D - E)" by (rule image_cong) (use assms(4) in auto)
  also have "\<dots> = ?F m ` D - ?F m ` E"
    by (rule inj_on_image_set_diff) (use assms(1,3) in \<open>auto simp: frames_ok_def\<close>)
  finally have "avail_frames (phys_mem m') = ?U - (?F m ` D - ?F m ` E)"
    using assms(2) by (simp add: frames_ok_def)
  moreover have "?F m ` E \<subseteq> ?U"
  proof (rule image_subsetI)
    fix x assume "x \<in> E"
    then have "x \<in> D" using assms(3) by blast
    then show "?F m x \<in> ?U" using frames_ok_user [OF assms(1)] by (cases x) simp
  qed
  moreover have "?F m ` E \<subseteq> ?F m ` D" using assms(3) by (rule image_mono)
  moreover have "avail_frames (phys_mem m) = ?U - ?F m ` D" using assms(1) by (simp add: frames_ok_def)
  moreover have "U - (A - B) = U - A \<union> B" if "B \<subseteq> U" "B \<subseteq> A" for U A B :: "nat set"
    using that by blast
  ultimately show ?thesis by simp
qed

end
