(* ===== verification/Mem_Inv.thy ===== *)
theory Mem_Inv
  imports Memory Sys
begin

text \<open>
  The memory invariant of the running kernel and the memory effects of the system calls
  that create and destroy address spaces: the page loops of \<^verbatim>\<open>sys_fork\<close> and
  \<^verbatim>\<open>free_user_pages\<close>.
\<close>

section \<open>The invariant\<close>

text \<open>Outside the 28 user pages: the kernel is mapped in every address space, closed to user
  mode, page 0 is not, and nothing is mapped above, the temporary page of
  \<^verbatim>\<open>sys_fork\<close> included.\<close>

definition outside_ok :: "(nat \<Rightarrow> page_table_entry) \<Rightarrow> bool" where
  "outside_ok T \<longleftrightarrow> (\<forall>page<PAG_LOG_INIT_DATA. T page = initial_table page) \<and>
     (\<forall>page<TOTAL_PAGES. PAG_LOG_INIT_CODE + NUM_PAG_CODE \<le> page \<longrightarrow> T page = 0)"

definition user_page :: "nat \<Rightarrow> bool" where
  "user_page page \<longleftrightarrow> PAG_LOG_INIT_DATA \<le> page \<and> page < PAG_LOG_INIT_CODE + NUM_PAG_CODE"

lemma outside_cong:
  "outside_ok T \<Longrightarrow> (\<And>page. \<not> user_page page \<Longrightarrow> T' page = T page) \<Longrightarrow> outside_ok T'"
  by (auto simp: outside_ok_def user_page_def zeos_consts)

lemma outside_temp: "outside_ok T \<Longrightarrow> T temp_pag = 0"
  by (simp add: outside_ok_def temp_pag_def zeos_consts)

definition mem_ok :: "symbols \<Rightarrow> mm \<Rightarrow> nat set \<Rightarrow> nat \<Rightarrow> bool" where
  "mem_ok sy m L r \<longleftrightarrow> dirs_ok sy m \<and> r < NR_TASKS \<and> cr3 m = dir_addr sy r \<and> coherent sy m \<and>
     frames_ok m (L \<times> {..<NUM_PAG_DATA}) \<and> (\<forall>i<NR_TASKS. outside_ok (pagusr_table m i)) \<and>
     (\<forall>i\<in>L. \<forall>c<NUM_PAG_CODE. pagusr_table m i (PAG_LOG_INIT_CODE + c) = user_entry (of_nat (code_frame c)))"

lemma page_bounds:
  "p < NUM_PAG_DATA \<Longrightarrow> PAG_LOG_INIT_DATA + p < TOTAL_PAGES"
  "c < NUM_PAG_CODE \<Longrightarrow> PAG_LOG_INIT_CODE + c < TOTAL_PAGES"
  "temp_pag < TOTAL_PAGES"
  by (simp_all add: zeos_consts temp_pag_def)

lemma page_distinct:
  "p < NUM_PAG_DATA \<Longrightarrow> PAG_LOG_INIT_DATA + p \<noteq> temp_pag"
  "c < NUM_PAG_CODE \<Longrightarrow> PAG_LOG_INIT_CODE + c \<noteq> temp_pag"
  "p < NUM_PAG_DATA \<Longrightarrow> PAG_LOG_INIT_DATA + p \<noteq> PAG_LOG_INIT_CODE + c"
  by (simp_all add: zeos_consts temp_pag_def)

lemma not_data_page:
  "temp_pag \<notin> (\<lambda>p. PAG_LOG_INIT_DATA + p) ` {0..<NUM_PAG_DATA}"
  "PAG_LOG_INIT_CODE + c \<notin> (\<lambda>p. PAG_LOG_INIT_DATA + p) ` {0..<NUM_PAG_DATA}"
  by (auto simp: zeos_consts temp_pag_def)

section \<open>Unmapping data pages\<close>

lemma unmap_pages_ok:
  assumes "frames_ok m D" and "i < NR_TASKS" and "distinct ps" and "{i} \<times> set ps \<subseteq> D"
  shows "\<exists>m'. unmap_pages sy (pt_addr sy i) (map (\<lambda>p. PAG_LOG_INIT_DATA + p) ps) m = Some m' \<and>
    frames_ok m' (D - {i} \<times> set ps) \<and>
    m' = m\<lparr>phys_mem := phys_mem m', pagusr_table := pagusr_table m'\<rparr> \<and>
    (\<forall>j page. pagusr_table m' j page =
       (if j = i \<and> page \<in> (\<lambda>p. PAG_LOG_INIT_DATA + p) ` set ps then 0 else pagusr_table m j page))"
  using assms
proof (induction ps arbitrary: m D)
  case Nil
  then show ?case by simp
next
  case (Cons p ps)
  let ?e = "pagusr_table m i (PAG_LOG_INIT_DATA + p)"
  let ?m = "set_pte i (PAG_LOG_INIT_DATA + p) 0 (m\<lparr>phys_mem := free_frame (pbase_addr ?e) (phys_mem m)\<rparr>)"
  have p: "(i, p) \<in> D" "p < NUM_PAG_DATA"
    using Cons.prems by (auto simp: frames_ok_def slots_def)
  have step: "unmap_pages sy (pt_addr sy i) (map (\<lambda>p. PAG_LOG_INIT_DATA + p) (p # ps)) m =
    unmap_pages sy (pt_addr sy i) (map (\<lambda>p. PAG_LOG_INIT_DATA + p) ps) ?m"
    using Cons.prems(2) page_bounds(1) [OF p(2)] by (simp add: layout_simps Let_def)
  have "frames_ok ?m (D - {(i, p)})" by (rule frames_ok_free) (use Cons.prems p in auto)
  moreover have "{i} \<times> set ps \<subseteq> D - {(i, p)}" using Cons.prems by auto
  ultimately obtain m' where m': "unmap_pages sy (pt_addr sy i) (map (\<lambda>p. PAG_LOG_INIT_DATA + p) ps) ?m = Some m'"
    "frames_ok m' (D - {(i, p)} - {i} \<times> set ps)"
    "m' = ?m\<lparr>phys_mem := phys_mem m', pagusr_table := pagusr_table m'\<rparr>"
    "\<forall>j page. pagusr_table m' j page =
       (if j = i \<and> page \<in> (\<lambda>p. PAG_LOG_INIT_DATA + p) ` set ps then 0 else pagusr_table ?m j page)"
    using Cons.IH [of ?m "D - {(i, p)}"] Cons.prems by auto
  show ?case
  proof (intro exI conjI)
    show "unmap_pages sy (pt_addr sy i) (map (\<lambda>p. PAG_LOG_INIT_DATA + p) (p # ps)) m = Some m'"
      using step m'(1) by (rule trans)
    have "D - {(i, p)} - {i} \<times> set ps = D - {i} \<times> set (p # ps)" by auto
    then show "frames_ok m' (D - {i} \<times> set (p # ps))" using m'(2) by simp
    show "m' = m\<lparr>phys_mem := phys_mem m', pagusr_table := pagusr_table m'\<rparr>"
      by (subst m'(3)) (simp add: set_pte_def)
    show "\<forall>j page. pagusr_table m' j page = (if j = i \<and> page \<in> (\<lambda>p. PAG_LOG_INIT_DATA + p) ` set (p # ps)
        then 0 else pagusr_table m j page)"
      unfolding m'(4) [rule_format] by simp
  qed
qed

section \<open>Sharing the text\<close>

lemma share_pages_ok:
  assumes "n < NR_TASKS" and "r < NR_TASKS" and "n \<noteq> r" and "\<forall>page\<in>set pages. page < TOTAL_PAGES"
  shows "\<exists>T. share_pages sy (pt_addr sy n) (pt_addr sy r) pages m = Some (m\<lparr>pagusr_table := T\<rparr>) \<and>
    (\<forall>j page. T j page = (if j = n \<and> page \<in> set pages then pagusr_table m r page else pagusr_table m j page))"
  using assms(4)
proof (induction pages arbitrary: m)
  case Nil
  then show ?case by (intro exI [of _ "pagusr_table m"]) simp
next
  case (Cons pg pages)
  let ?m = "set_pte n pg (pagusr_table m r pg) m"
  obtain T where T: "share_pages sy (pt_addr sy n) (pt_addr sy r) pages ?m = Some (?m\<lparr>pagusr_table := T\<rparr>)"
    "\<forall>j page. T j page = (if j = n \<and> page \<in> set pages then pagusr_table ?m r page else pagusr_table ?m j page)"
    using Cons.IH [of ?m] Cons.prems by auto
  have "share_pages sy (pt_addr sy n) (pt_addr sy r) (pg # pages) m = Some (m\<lparr>pagusr_table := T\<rparr>)"
    using T(1) Cons.prems assms(1,2) by (simp add: layout_simps set_pte_def)
  moreover have "\<forall>j page. T j page =
      (if j = n \<and> page \<in> set (pg # pages) then pagusr_table m r page else pagusr_table m j page)"
    unfolding T(2) [rule_format] using assms(3) by simp
  ultimately show ?case by blast
qed

section \<open>Copying the data pages\<close>

text \<open>While a page is copied, the parent sees it at its own address and its copy at the temporary
  page.\<close>

lemma temp_mapped:
  assumes sy: "linked sy" and dirs: "dirs_ok sy m" and r: "r < NR_TASKS" and cr3: "cr3 m = dir_addr sy r"
    and coh: "coherent sy m" and temp: "pagusr_table m r temp_pag = 0" and n: "n \<noteq> r" and q: "q < NUM_PAG_DATA"
    and src: "pagusr_table m r (PAG_LOG_INIT_DATA + q) = user_rw_entry (of_nat g)" "g < 1024" and f: "f < 1024"
    and m2: "m2 = set_pte r temp_pag (user_rw_entry (of_nat f)) (set_pte n (PAG_LOG_INIT_DATA + q) e (m\<lparr>phys_mem := F\<rparr>))"
  shows "maps sy m2 (PAG_LOG_INIT_DATA + q) g" "maps sy m2 temp_pag f"
proof -
  have walk2: "walk sy m2 page = (if present (pagusr_table m2 r page) = 0 then None else Some (pagusr_table m2 r page))"
    if "page < TOTAL_PAGES" for page
    by (rule walk_user [OF sy _ r _ that]) (use dirs cr3 in \<open>simp_all add: dirs_ok_def m2\<close>)
  have walk0: "walk sy m page = (if present (pagusr_table m r page) = 0 then None else Some (pagusr_table m r page))"
    if "page < TOTAL_PAGES" for page
    by (rule walk_user [OF sy dirs r cr3 that])
  have tlb: "tlb m2 = tlb m" by (simp add: m2)
  have "effective sy m2 (PAG_LOG_INIT_DATA + q) = Some (user_rw_entry (of_nat g))"
    using coh src(1) n walk0 [OF page_bounds(1) [OF q]] walk2 [OF page_bounds(1) [OF q]] page_distinct(1) [OF q]
    by (auto simp: effective_def coherent_def tlb m2 split: option.split)
  then show "maps sy m2 (PAG_LOG_INIT_DATA + q) g" using src(2) by (simp add: maps_def)
  have "tlb m temp_pag = None"
    using coh temp walk0 [OF page_bounds(3)] by (cases "tlb m temp_pag") (auto simp: coherent_def)
  then have "effective sy m2 temp_pag = Some (user_rw_entry (of_nat f))"
    using walk2 [OF page_bounds(3)] by (simp add: effective_def tlb) (simp add: m2)
  then show "maps sy m2 temp_pag f" using f by (simp add: maps_def)
qed

lemma temp_unmapped:
  assumes "pagusr_table m r temp_pag = 0" and "cr3 m = d" and "same_but sy F (set_pte r temp_pag e m) m3"
  shows "set_cr3 d (set_pte r temp_pag 0 m3) = m\<lparr>ram := ram m3, tlb := Map.empty\<rparr>"
proof -
  have "m3 = (set_pte r temp_pag e m)\<lparr>ram := ram m3, tlb := tlb m3\<rparr>" using assms(3) by (simp add: same_but_def)
  then have "set_pte r temp_pag 0 m3 = set_pte r temp_pag 0 ((set_pte r temp_pag e m)\<lparr>ram := ram m3, tlb := tlb m3\<rparr>)" by simp
  also have "\<dots> = m\<lparr>ram := ram m3, tlb := tlb m3\<rparr>"
    using assms(1) by (simp add: set_pte_def fun_eq_iff)
  finally show ?thesis using assms(2) by (simp add: set_cr3_def set_pte_def)
qed

text \<open>
  One iteration of the loop of \<^verbatim>\<open>sys_fork\<close>: a fresh frame \<open>f\<close> becomes page
  \<open>q\<close> of the child and holds the contents of the parent's page, no other frame is
  touched, and the temporary mapping has left no trace in the parent's table or the TLB.
\<close>

lemma fork_page_step:
  assumes sy: "linked sy" and ok: "frames_ok m D" and dirs: "dirs_ok sy m" and r: "r < NR_TASKS"
    and cr3: "cr3 m = dir_addr sy r" and coh: "coherent sy m" and temp: "pagusr_table m r temp_pag = 0"
    and n: "n < NR_TASKS" "n \<noteq> r" "(n, q) \<notin> D" and q: "q < NUM_PAG_DATA" "(r, q) \<in> D"
  shows "\<exists>f ram'. f \<in> avail_frames (phys_mem m) \<and>
    (let m' = (set_pte n (PAG_LOG_INIT_DATA + q) (user_rw_entry (of_nat f))
          (m\<lparr>phys_mem := (phys_mem m)(f := USED_FRAME)\<rparr>))\<lparr>ram := ram', tlb := Map.empty\<rparr> in
     fork_data_pages sy (pt_addr sy n) (pt_addr sy r) (dir_addr sy r) (q # qs) m =
       fork_data_pages sy (pt_addr sy n) (pt_addr sy r) (dir_addr sy r) qs m' \<and>
     frames_ok m' (insert (n, q) D)) \<and>
    (\<forall>i<4096. ram' f i = ram m (data_frame m r q) i) \<and> (\<forall>g. g \<noteq> f \<longrightarrow> ram' g = ram m g)"
proof -
  obtain f where f: "alloc_frame (phys_mem m) = (int f, (phys_mem m)(f := USED_FRAME))"
    "f \<in> avail_frames (phys_mem m)"
    "frames_ok (set_pte n (PAG_LOG_INIT_DATA + q) (user_rw_entry (of_nat f))
       (m\<lparr>phys_mem := (phys_mem m)(f := USED_FRAME)\<rparr>)) (insert (n, q) D)"
    using frames_ok_alloc [OF ok n(3,1) q(1)] by blast
  let ?m1 = "set_pte n (PAG_LOG_INIT_DATA + q) (user_rw_entry (of_nat f))
    (m\<lparr>phys_mem := (phys_mem m)(f := USED_FRAME)\<rparr>)"
  let ?m2 = "set_pte r temp_pag (user_rw_entry (of_nat f)) ?m1"
  let ?fs = "data_frame m r q"
  have fl: "f < 1024" using f(2) by (simp add: avail_frames_def zeos_consts)
  have fs: "?fs < 1024" "?fs \<noteq> f" "pagusr_table m r (PAG_LOG_INIT_DATA + q) = user_rw_entry (of_nat ?fs)"
    using ok q(2) f(2) user_frames_bound unfolding frames_ok_def by force+
  note maps = temp_mapped [OF sy dirs r cr3 coh temp n(2) q(1) fs(3,1) fl refl]
  then obtain m3 where m3: "copy_data (load8 sy) (store8 sy) (of_nat (4096 * (PAG_LOG_INIT_DATA + q)))
      (of_nat (4096 * temp_pag)) 4096 ?m2 = Some m3" "same_but sy {f} ?m2 m3"
      "\<forall>i<4096. ram m3 f i = ram ?m2 ?fs i"
    using copy_page [of sy ?m2 "PAG_LOG_INIT_DATA + q" ?fs temp_pag f] page_bounds(3) page_bounds(1) [OF q(1)] fs(2)
    by (auto simp: zeos_consts)
  let ?m' = "?m1\<lparr>ram := ram m3, tlb := Map.empty\<rparr>"
  have eq: "set_cr3 (dir_addr sy r) (set_pte r temp_pag 0 m3) = ?m'"
    by (rule temp_unmapped [OF _ _ m3(2)]) (use temp cr3 n(2) in simp_all)
  have run: "fork_data_pages sy (pt_addr sy n) (pt_addr sy r) (dir_addr sy r) (q # qs) m =
    fork_data_pages sy (pt_addr sy n) (pt_addr sy r) (dir_addr sy r) qs ?m'"
    using f(1) m3(1) n(1) r page_bounds(3) page_bounds(1) [OF q(1)] eq
    by (simp add: layout_simps set_ss_pag_def del_ss_pag_def Let_def del: of_nat_mult of_nat_add)
  have "frames_ok ?m' (insert (n, q) D)"
    by (rule frames_ok_cong [OF f(3)]) simp_all
  then show ?thesis
    using f(2) run m3(2,3) by (intro exI [of _ f] exI [of _ "ram m3"]) (auto simp: same_but_def Let_def)
qed

text \<open>The effect of the loop from page \<open>q\<close> on.\<close>

definition pages_copied :: "symbols \<Rightarrow> nat \<Rightarrow> nat \<Rightarrow> nat \<Rightarrow> mm \<Rightarrow> mm \<Rightarrow> bool" where
  "pages_copied sy r n q m m' \<longleftrightarrow>
     coherent sy m' \<and> dir_pages m' = dir_pages m \<and> cr3 m' = cr3 m \<and>
     (\<forall>j page. j \<noteq> n \<or> page \<notin> (\<lambda>p. PAG_LOG_INIT_DATA + p) ` {q..<NUM_PAG_DATA} \<longrightarrow>
        pagusr_table m' j page = pagusr_table m j page) \<and>
     (\<forall>p\<in>{q..<NUM_PAG_DATA}. \<forall>i<4096. ram m' (data_frame m' n p) i = ram m (data_frame m r p) i) \<and>
     (\<forall>g. g \<notin> avail_frames (phys_mem m) \<longrightarrow> ram m' g = ram m g)"

lemma pages_copied_step:
  assumes rest: "pages_copied sy r n (Suc q) m1 m'" and n: "n \<noteq> r" and q: "q < NUM_PAG_DATA"
    and ok: "frames_ok m D" "{r} \<times> {..<NUM_PAG_DATA} \<subseteq> D"
    and f: "f \<in> avail_frames (phys_mem m)"
    and m1: "m1 = (set_pte n (PAG_LOG_INIT_DATA + q) (user_rw_entry (of_nat f))
          (m\<lparr>phys_mem := (phys_mem m)(f := USED_FRAME)\<rparr>))\<lparr>ram := ram', tlb := Map.empty\<rparr>"
    and ram': "\<forall>i<4096. ram' f i = ram m (data_frame m r q) i" "\<forall>g. g \<noteq> f \<longrightarrow> ram' g = ram m g"
  shows "pages_copied sy r n q m m'"
proof -
  have tab: "pagusr_table m' j page = pagusr_table m1 j page"
    if "j \<noteq> n \<or> page \<notin> (\<lambda>p. PAG_LOG_INIT_DATA + p) ` {Suc q..<NUM_PAG_DATA}" for j page
    using rest that by (simp add: pages_copied_def)
  have used: "ram m' g = ram m1 g" if "g \<notin> avail_frames (phys_mem m1)" for g
    using rest that by (simp add: pages_copied_def)
  have avail: "avail_frames (phys_mem m1) = avail_frames (phys_mem m) - {f}"
    by (auto simp: m1 avail_frames_def)
  have "f < 1024" using f by (simp add: avail_frames_def zeos_consts)
  then have "data_frame m' n q = f"
    using tab [of n "PAG_LOG_INIT_DATA + q"] by (simp add: data_frame_def m1 image_iff)
  then have page_q: "ram m' (data_frame m' n q) i = ram m (data_frame m r q) i" if "i < 4096" for i
    using used [of f] avail ram' that by (simp add: m1)
  have page_p: "ram m' (data_frame m' n p) i = ram m (data_frame m r p) i"
    if p: "p \<in> {Suc q..<NUM_PAG_DATA}" and i: "i < 4096" for p i
  proof -
    have "data_frame m1 r p = data_frame m r p" using n by (simp add: data_frame_def m1)
    moreover have "data_frame m r p \<noteq> f" using ok f p unfolding frames_ok_def by force
    ultimately have "ram m1 (data_frame m1 r p) = ram m (data_frame m r p)"
      using ram'(2) by (simp add: m1)
    moreover have "ram m' (data_frame m' n p) i = ram m1 (data_frame m1 r p) i"
      using rest p i by (simp add: pages_copied_def)
    ultimately show ?thesis by simp
  qed
  have "coherent sy m'" "dir_pages m' = dir_pages m" "cr3 m' = cr3 m"
    using rest by (simp_all add: pages_copied_def m1)
  moreover have "pagusr_table m' j page = pagusr_table m j page"
    if "j \<noteq> n \<or> page \<notin> (\<lambda>p. PAG_LOG_INIT_DATA + p) ` {q..<NUM_PAG_DATA}" for j page
    using tab [of j page] that q by (auto simp: m1 image_iff)
  moreover have "ram m' g = ram m g" if "g \<notin> avail_frames (phys_mem m)" for g
    using used [of g] avail ram'(2) that f by (auto simp: m1)
  moreover have "ram m' (data_frame m' n p) i = ram m (data_frame m r p) i"
    if "p \<in> {q..<NUM_PAG_DATA}" "i < 4096" for p i
    using that page_q page_p by (cases "p = q") auto
  ultimately show ?thesis by (simp add: pages_copied_def)
qed

lemma fork_data_pages_ok:
  assumes "linked sy" and "n < NR_TASKS" and "n \<noteq> r" and "r < NR_TASKS"
    and "{r} \<times> {..<NUM_PAG_DATA} \<subseteq> D" and "\<And>p. (n, p) \<notin> D" and "q \<le> NUM_PAG_DATA"
    and "frames_ok m (D \<union> {n} \<times> {..<q})" and "dirs_ok sy m" and "cr3 m = dir_addr sy r"
    and "coherent sy m" and "pagusr_table m r temp_pag = 0"
  shows "\<exists>m'. fork_data_pages sy (pt_addr sy n) (pt_addr sy r) (dir_addr sy r) [q..<NUM_PAG_DATA] m
      = Some (True, m') \<and>
    frames_ok m' (D \<union> {n} \<times> {..<NUM_PAG_DATA}) \<and> pages_copied sy r n q m m'"
  using assms(7-12)
proof (induction "NUM_PAG_DATA - q" arbitrary: q m)
  case 0
  then have "q = NUM_PAG_DATA" by simp
  with 0 show ?case by (intro exI [of _ m]) (simp add: pages_copied_def)
next
  case (Suc d)
  have q: "q < NUM_PAG_DATA" and d: "d = NUM_PAG_DATA - Suc q" using Suc.hyps(2) by linarith+
  have nq: "(n, q) \<notin> D \<union> {n} \<times> {..<q}" "(r, q) \<in> D \<union> {n} \<times> {..<q}" using assms(5,6) q by auto
  let ?D = "D \<union> {n} \<times> {..<q}"
  have upt: "[q..<NUM_PAG_DATA] = q # [Suc q..<NUM_PAG_DATA]" using q by (rule upt_conv_Cons)
  have ins: "insert (n, q) ?D = D \<union> {n} \<times> {..<Suc q}" by auto
  obtain f ram' m1 where f: "f \<in> avail_frames (phys_mem m)"
    and m1: "m1 = (set_pte n (PAG_LOG_INIT_DATA + q) (user_rw_entry (of_nat f))
        (m\<lparr>phys_mem := (phys_mem m)(f := USED_FRAME)\<rparr>))\<lparr>ram := ram', tlb := Map.empty\<rparr>"
    and run: "fork_data_pages sy (pt_addr sy n) (pt_addr sy r) (dir_addr sy r) (q # [Suc q..<NUM_PAG_DATA]) m =
        fork_data_pages sy (pt_addr sy n) (pt_addr sy r) (dir_addr sy r) [Suc q..<NUM_PAG_DATA] m1"
    and ok1: "frames_ok m1 (D \<union> {n} \<times> {..<Suc q})"
    and ram': "\<forall>i<4096. ram' f i = ram m (data_frame m r q) i" "\<forall>g. g \<noteq> f \<longrightarrow> ram' g = ram m g"
    using fork_page_step [OF assms(1) Suc.prems(2,3) assms(4) Suc.prems(4,5,6) assms(2,3) nq(1) q nq(2),
        of "[Suc q..<NUM_PAG_DATA]"] unfolding Let_def ins by blast
  have "dirs_ok sy m1" "cr3 m1 = dir_addr sy r" "pagusr_table m1 r temp_pag = 0" "coherent sy m1"
    using Suc.prems assms(3) by (simp_all add: m1 dirs_ok_def coherent_def)
  then obtain m' where m': "fork_data_pages sy (pt_addr sy n) (pt_addr sy r) (dir_addr sy r) [Suc q..<NUM_PAG_DATA] m1
      = Some (True, m')" "frames_ok m' (D \<union> {n} \<times> {..<NUM_PAG_DATA})" "pages_copied sy r n (Suc q) m1 m'"
    using Suc.hyps(1) [OF d _ ok1] q by auto
  have "pages_copied sy r n q m m'"
    by (rule pages_copied_step [OF m'(3) assms(3) q Suc.prems(2) _ f m1 ram']) (use assms(5) in auto)
  with m' run upt show ?case by auto
qed

section \<open>Address spaces\<close>

text \<open>Loading another directory keeps the invariant, whatever the TLB held.\<close>

lemma mem_ok_switch:
  assumes "mem_ok sy m L r" and "r' < NR_TASKS"
  shows "mem_ok sy (set_cr3 (dir_addr sy r') m) L r'"
proof -
  have "frames_ok (set_cr3 (dir_addr sy r') m) (L \<times> {..<NUM_PAG_DATA})"
    by (rule frames_ok_cong [of m]) (use assms(1) in \<open>simp_all add: mem_ok_def\<close>)
  with assms show ?thesis
    by (simp add: mem_ok_def dirs_ok_def coherent_set_cr3)
qed

text \<open>Sharing the program text keeps what the invariant says of the other pages.\<close>

lemma share_code_ok:
  assumes sy: "linked sy" and ok: "mem_ok sy m L r" and r: "r < NR_TASKS" and n: "n \<notin> L" "n \<noteq> r" "n < NR_TASKS"
  shows "\<exists>T. share_pages sy (pt_addr sy n) (pt_addr sy r) (map (\<lambda>p. PAG_LOG_INIT_CODE + p) [0..<NUM_PAG_CODE]) m
      = Some (m\<lparr>pagusr_table := T\<rparr>) \<and>
    (\<forall>c<NUM_PAG_CODE. T n (PAG_LOG_INIT_CODE + c) = pagusr_table m r (PAG_LOG_INIT_CODE + c)) \<and>
    (\<forall>j page. j \<noteq> n \<longrightarrow> T j page = pagusr_table m j page) \<and> (\<forall>i<NR_TASKS. outside_ok (T i)) \<and>
    frames_ok (m\<lparr>pagusr_table := T\<rparr>) (L \<times> {..<NUM_PAG_DATA}) \<and> coherent sy (m\<lparr>pagusr_table := T\<rparr>)"
proof -
  let ?code = "map (\<lambda>p. PAG_LOG_INIT_CODE + p) [0..<NUM_PAG_CODE]"
  have code: "\<forall>page\<in>set ?code. page < TOTAL_PAGES" by (auto simp: zeos_consts)
  obtain T where T: "share_pages sy (pt_addr sy n) (pt_addr sy r) ?code m = Some (m\<lparr>pagusr_table := T\<rparr>)"
    "\<forall>j page. T j page = (if j = n \<and> page \<in> set ?code then pagusr_table m r page else pagusr_table m j page)"
    using share_pages_ok [OF n(3) r n(2) code] by blast
  let ?m1 = "m\<lparr>pagusr_table := T\<rparr>" and ?D = "L \<times> {..<NUM_PAG_DATA}"
  have T_other: "T j page = pagusr_table m j page" if "j \<noteq> n" for j page using T(2) that by simp
  have T_outside: "T j page = pagusr_table m j page" if "\<not> user_page page" for j page
    using T(2) that by (auto simp: user_page_def zeos_consts)
  have "frames_ok ?m1 ?D"
  proof (rule frames_ok_cong [of m])
    show "pagusr_table ?m1 i (PAG_LOG_INIT_DATA + p) = pagusr_table m i (PAG_LOG_INIT_DATA + p)"
      if "(i, p) \<in> ?D" for i p
      using that n T_other [of i] by (cases "i = n") auto
  qed (use ok in \<open>simp_all add: mem_ok_def\<close>)
  moreover have "outside_ok (T i)" if "i < NR_TASKS" for i
  proof (rule outside_cong)
    show "outside_ok (pagusr_table m i)" using ok that by (simp add: mem_ok_def)
  qed (rule T_outside)
  moreover have "walk sy ?m1 page = walk sy m page" for page
    by (rule walk_table_cong [OF sy]) (use ok r n T_other in \<open>auto simp: mem_ok_def dirs_ok_def\<close>)
  then have "coherent sy ?m1" using ok by (simp add: mem_ok_def coherent_def)
  ultimately show ?thesis using T T_other by auto
qed

lemma fork_mem_ok:
  assumes sy: "linked sy" and ok: "mem_ok sy m L r" and r: "r \<in> L" and n: "n \<notin> L" "n < NR_TASKS"
  shows "\<exists>m1 m2. share_pages sy (pt_addr sy n) (pt_addr sy r) (map (\<lambda>p. PAG_LOG_INIT_CODE + p) [0..<NUM_PAG_CODE]) m
      = Some m1 \<and>
    fork_data_pages sy (pt_addr sy n) (pt_addr sy r) (dir_addr sy r) [0..<NUM_PAG_DATA] m1 = Some (True, m2) \<and>
    mem_ok sy (set_cr3 (dir_addr sy r) m2) (insert n L) r \<and>
    (\<forall>p<NUM_PAG_DATA. \<forall>i<4096. ram m2 (data_frame m2 n p) i = ram m (data_frame m r p) i) \<and>
    (\<forall>j page. j \<noteq> n \<longrightarrow> pagusr_table m2 j page = pagusr_table m j page) \<and>
    (\<forall>g. g \<notin> avail_frames (phys_mem m) \<longrightarrow> ram m2 g = ram m g)"
proof -
  have rn: "n \<noteq> r" "r < NR_TASKS" using ok r n by (auto simp: mem_ok_def)
  obtain T where T: "share_pages sy (pt_addr sy n) (pt_addr sy r) (map (\<lambda>p. PAG_LOG_INIT_CODE + p) [0..<NUM_PAG_CODE]) m
      = Some (m\<lparr>pagusr_table := T\<rparr>)"
    "\<forall>c<NUM_PAG_CODE. T n (PAG_LOG_INIT_CODE + c) = pagusr_table m r (PAG_LOG_INIT_CODE + c)"
    and T_other: "\<forall>j page. j \<noteq> n \<longrightarrow> T j page = pagusr_table m j page" and out1: "\<forall>i<NR_TASKS. outside_ok (T i)"
    and ok1: "frames_ok (m\<lparr>pagusr_table := T\<rparr>) (L \<times> {..<NUM_PAG_DATA})" "coherent sy (m\<lparr>pagusr_table := T\<rparr>)"
    using share_code_ok [OF sy ok rn(2) n(1) rn(1) n(2)] by blast
  let ?m1 = "m\<lparr>pagusr_table := T\<rparr>" and ?D = "L \<times> {..<NUM_PAG_DATA}"
  have "dirs_ok sy ?m1" "cr3 ?m1 = dir_addr sy r" "pagusr_table ?m1 r temp_pag = 0"
    using ok rn outside_temp out1 by (simp_all add: mem_ok_def dirs_ok_def)
  then obtain m2 where m2: "fork_data_pages sy (pt_addr sy n) (pt_addr sy r) (dir_addr sy r) [0..<NUM_PAG_DATA] ?m1
      = Some (True, m2)" "frames_ok m2 (?D \<union> {n} \<times> {..<NUM_PAG_DATA})" "pages_copied sy r n 0 ?m1 m2"
    using fork_data_pages_ok [OF sy n(2) rn, of ?D 0 ?m1] ok1 r n by auto
  note copied = m2(3) [unfolded pages_copied_def]
  have "mem_ok sy (set_cr3 (dir_addr sy r) m2) (insert n L) r"
  proof -
    have "insert n L \<times> {..<NUM_PAG_DATA} = ?D \<union> {n} \<times> {..<NUM_PAG_DATA}" by auto
    then have "frames_ok m2 (insert n L \<times> {..<NUM_PAG_DATA})" using m2(2) by simp
    then have "frames_ok (set_cr3 (dir_addr sy r) m2) (insert n L \<times> {..<NUM_PAG_DATA})"
      by (rule frames_ok_cong) simp_all
    moreover have keep: "pagusr_table m2 j page = T j page"
      if "page \<notin> (\<lambda>p. PAG_LOG_INIT_DATA + p) ` {0..<NUM_PAG_DATA}" for j page
      using copied that by simp
    have "outside_ok (pagusr_table m2 i)" if "i < NR_TASKS" for i
      by (rule outside_cong [OF out1 [rule_format, OF that]], rule keep) (auto simp: user_page_def zeos_consts)
    moreover have "pagusr_table m2 i (PAG_LOG_INIT_CODE + c) = user_entry (of_nat (code_frame c))"
      if "i \<in> insert n L" "c < NUM_PAG_CODE" for i c
      using keep [OF not_data_page(2)] that ok r T(2) T_other n(1) by (cases "i = n") (auto simp: mem_ok_def)
    ultimately show ?thesis
      using ok rn copied by (simp add: mem_ok_def coherent_set_cr3 dirs_ok_def)
  qed
  moreover have "data_frame ?m1 r p = data_frame m r p" for p
    using T_other rn by (simp add: data_frame_def)
  ultimately show ?thesis
    using T(1) m2(1) copied T_other by (intro exI [of _ ?m1] exI [of _ m2]) simp
qed

text \<open>
  Releasing the data pages of a task; the TLB may still hold them until the next
  write to \<^verbatim>\<open>CR3\<close>.
\<close>

lemma free_user_pages_ok:
  assumes sy: "linked sy" and ok: "mem_ok sy m L r" and t: "t \<in> L" "t < NR_TASKS"
  shows "\<exists>m'. free_user_pages sy (dir_addr sy t) m = Some m' \<and>
    frames_ok m' ((L - {t}) \<times> {..<NUM_PAG_DATA}) \<and> ram m' = ram m \<and>
    avail_frames (phys_mem m') = avail_frames (phys_mem m) \<union> data_frame m t ` {..<NUM_PAG_DATA} \<and>
    (\<forall>i p. i \<noteq> t \<longrightarrow> data_frame m' i p = data_frame m i p) \<and>
    (\<forall>r'<NR_TASKS. mem_ok sy (set_cr3 (dir_addr sy r') m') (L - {t}) r')"
proof -
  let ?D = "L \<times> {..<NUM_PAG_DATA}"
  have PT: "get_PT sy (dir_addr sy t) m = Some (pt_addr sy t)"
    by (rule get_PT_addr) (use sy ok t in \<open>auto simp: mem_ok_def\<close>)
  have "frames_ok m ?D" "{t} \<times> set [0..<NUM_PAG_DATA] \<subseteq> ?D" using ok t by (auto simp: mem_ok_def)
  then obtain m' where m': "unmap_pages sy (pt_addr sy t) (map (\<lambda>p. PAG_LOG_INIT_DATA + p) [0..<NUM_PAG_DATA]) m = Some m'"
    "frames_ok m' (?D - {t} \<times> set [0..<NUM_PAG_DATA])"
    "m' = m\<lparr>phys_mem := phys_mem m', pagusr_table := pagusr_table m'\<rparr>"
    "\<forall>j page. pagusr_table m' j page = (if j = t \<and> page \<in> (\<lambda>p. PAG_LOG_INIT_DATA + p) ` set [0..<NUM_PAG_DATA]
       then 0 else pagusr_table m j page)"
    using unmap_pages_ok [of m ?D t "[0..<NUM_PAG_DATA]" sy] t(2) by auto
  have same: "dir_pages m' = dir_pages m" "ram m' = ram m" by (subst m'(3), simp)+
  have "?D - {t} \<times> set [0..<NUM_PAG_DATA] = (L - {t}) \<times> {..<NUM_PAG_DATA}" by auto
  then have fr: "frames_ok m' ((L - {t}) \<times> {..<NUM_PAG_DATA})" using m'(2) by simp
  have "avail_frames (phys_mem m') =
      avail_frames (phys_mem m) \<union> (\<lambda>(i, p). data_frame m i p) ` ({t} \<times> {..<NUM_PAG_DATA})"
  proof (rule release_avail [of m ?D])
    show "frames_ok m' (?D - {t} \<times> {..<NUM_PAG_DATA})" using m'(2) by (simp add: atLeast0LessThan)
    show "data_frame m' i p = data_frame m i p" if "(i, p) \<in> ?D - {t} \<times> {..<NUM_PAG_DATA}" for i p
      using that m'(4) by (auto simp: data_frame_def)
  qed (use ok t in \<open>auto simp: mem_ok_def\<close>)
  moreover have "(\<lambda>(i, p). data_frame m i p) ` ({t} \<times> {..<NUM_PAG_DATA}) = data_frame m t ` {..<NUM_PAG_DATA}"
    by force
  ultimately have av: "avail_frames (phys_mem m') = avail_frames (phys_mem m) \<union> data_frame m t ` {..<NUM_PAG_DATA}"
    by simp
  have "mem_ok sy (set_cr3 (dir_addr sy r') m') (L - {t}) r'" if "r' < NR_TASKS" for r'
  proof -
    have "frames_ok (set_cr3 (dir_addr sy r') m') ((L - {t}) \<times> {..<NUM_PAG_DATA})"
      using fr by (rule frames_ok_cong) simp_all
    moreover have "outside_ok (pagusr_table m' i)" if "i < NR_TASKS" for i
    proof (rule outside_cong)
      show "outside_ok (pagusr_table m i)" using ok that by (simp add: mem_ok_def)
      show "pagusr_table m' i page = pagusr_table m i page" if "\<not> user_page page" for page
        using that unfolding m'(4) [rule_format] by (auto simp: user_page_def zeos_consts)
    qed
    moreover have "pagusr_table m' i (PAG_LOG_INIT_CODE + c) = user_entry (of_nat (code_frame c))"
      if "i \<in> L - {t}" "c < NUM_PAG_CODE" for i c
      using ok that unfolding m'(4) [rule_format] by (simp add: mem_ok_def)
    ultimately show ?thesis
      using ok that same by (simp add: mem_ok_def coherent_set_cr3 dirs_ok_def)
  qed
  moreover have "data_frame m' i p = data_frame m i p" if "i \<noteq> t" for i p
    using that m'(4) by (simp add: data_frame_def)
  ultimately show ?thesis using PT m'(1) fr same av by (auto simp: free_user_pages_def)
qed

text \<open>Every frame of the pool is a text frame, a data frame of one live process, or available.\<close>

lemma frame_account:
  assumes ok: "mem_ok sy m L r" and L: "L \<subseteq> {..<NR_TASKS}"
  shows "inj_on (\<lambda>(i, p). data_frame m i p) (L \<times> {..<NUM_PAG_DATA})" "effective sy m page = walk sy m page"
    "card (avail_frames (phys_mem m)) + NUM_PAG_CODE + NUM_PAG_DATA * card L = 384"
proof -
  let ?f = "\<lambda>(i, p). data_frame m i p" and ?D = "L \<times> {..<NUM_PAG_DATA}"
  have fr: "frames_ok m ?D" using ok by (simp add: mem_ok_def)
  then show inj: "inj_on ?f ?D" by (rule frames_ok_inj)
  show "effective sy m page = walk sy m page" using ok by (intro coherent_effective) (simp add: mem_ok_def)
  have av: "avail_frames (phys_mem m) = user_frames - code_frames - ?f ` ?D" using fr by (simp add: frames_ok_def)
  have sub: "?f ` ?D \<subseteq> user_frames - code_frames" using fr by (auto simp: frames_ok_def)
  have fin: "finite ?D" using finite_subset [OF L] by simp
  have "card (?f ` ?D) = NUM_PAG_DATA * card L" using card_image [OF inj] by (simp add: card_cartesian_product)
  moreover have "card code_frames = NUM_PAG_CODE" "code_frames \<subseteq> user_frames"
    by (auto simp: code_frames_def code_frame_def card_image inj_on_def user_frames_def zeos_consts)
  moreover have "card user_frames = 384" using card_even_frames by (simp add: user_frames_def)
  moreover have "card (avail_frames (phys_mem m)) = card (user_frames - code_frames) - card (?f ` ?D)"
    unfolding av using fin sub by (intro card_Diff_subset) simp_all
  moreover have "card (user_frames - code_frames) = card user_frames - card code_frames"
    using finite_user_frames calculation(3) by (intro card_Diff_subset) (auto intro: finite_subset)
  moreover have "card (?f ` ?D) \<le> card (user_frames - code_frames)"
    using sub finite_user_frames by (intro card_mono) simp_all
  ultimately show "card (avail_frames (phys_mem m)) + NUM_PAG_CODE + NUM_PAG_DATA * card L = 384"
    by (simp add: zeos_consts)
qed

text \<open>Every frame that is not program text is available or holds exactly one data page.\<close>

lemma frame_once:
  assumes "mem_ok sy m L r" and "f \<in> user_frames - code_frames"
  shows "card {x \<in> L \<times> {..<NUM_PAG_DATA}. (\<lambda>(i, p). data_frame m i p) x = f} + of_bool (f \<in> avail_frames (phys_mem m)) = 1"
proof -
  let ?d = "\<lambda>(i, p). data_frame m i p" and ?D = "L \<times> {..<NUM_PAG_DATA}"
  have fr: "frames_ok m ?D" using assms(1) by (simp add: mem_ok_def)
  have av: "f \<in> avail_frames (phys_mem m) \<longleftrightarrow> f \<notin> ?d ` ?D" using fr assms(2) by (simp add: frames_ok_def)
  show ?thesis
  proof (cases "f \<in> ?d ` ?D")
    case True
    then obtain x where "x \<in> ?D" "?d x = f" by blast
    then have "{x \<in> ?D. ?d x = f} = {x}" using inj_onD [OF frames_ok_inj [OF fr]] by blast
    then show ?thesis using av True by simp
  next
    case False
    then have "{x \<in> ?D. ?d x = f} = {}" by blast
    then show ?thesis using av False by (simp only: card.empty) simp
  qed
qed

section \<open>The temporary page\<close>

text \<open>A page above the user area is mapped for a while, as \<^verbatim>\<open>sys_fork\<close> does. What is stored
  there goes to the frame. After the page is unmapped the processor still reaches the frame through
  its cached translation, until \<^verbatim>\<open>set_cr3\<close> drops it; then nothing is left of the mapping.\<close>

lemma free_page_walk:
  assumes "linked sy" and "mem_ok sy m L r" and "page < TOTAL_PAGES" and "PAG_LOG_INIT_CODE + NUM_PAG_CODE \<le> page"
  shows "pagusr_table m r page = 0" "walk sy m page = None" "tlb m page = None"
proof -
  have ok: "dirs_ok sy m" "r < NR_TASKS" "cr3 m = dir_addr sy r" "coherent sy m" "outside_ok (pagusr_table m r)"
    using assms(2) by (simp_all add: mem_ok_def)
  show z: "pagusr_table m r page = 0" using ok(5) assms(3,4) by (simp add: outside_ok_def)
  then show w: "walk sy m page = None" using walk_user [OF assms(1) ok(1-3) assms(3)] by simp
  then show "tlb m page = None" using ok(4) by (cases "tlb m page") (auto simp: coherent_def)
qed

lemma window_ok:
  assumes sy: "linked sy" and ok: "mem_ok sy m L r" and page: "page < TOTAL_PAGES" "PAG_LOG_INIT_CODE + NUM_PAG_CODE \<le> page"
    and f: "f < 1024" and x: "page_of x = page"
  shows "\<exists>m1 m2 m3. set_ss_pag sy (pt_addr sy r) page (of_nat f) m = Some m1 \<and> get_frame sy (pt_addr sy r) page m1 = Some (of_nat f) \<and>
    store8 sy m1 x v = Some m2 \<and> ram m2 = (ram m)(f := (ram m f)(offset_of x := v)) \<and>
    del_ss_pag sy (pt_addr sy r) page m2 = Some m3 \<and> map_option fst (load8 sy m3 x) = Some v \<and>
    set_cr3 (dir_addr sy r) m3 = set_cr3 (dir_addr sy r) (m\<lparr>ram := ram m2\<rparr>) \<and>
    load8 sy m x = None \<and> load8 sy (set_cr3 (dir_addr sy r) m3) x = None"
proof -
  let ?e = "user_rw_entry (of_nat f)"
  define m1 where "m1 = set_pte r page ?e m"
  define m2 where "m2 = m1\<lparr>tlb := (tlb m1)(page \<mapsto> ?e), ram := (ram m)(f := (ram m f)(offset_of x := v))\<rparr>"
  define m3 where "m3 = set_pte r page 0 m2"
  have d: "dirs_ok sy m" "r < NR_TASKS" "cr3 m = dir_addr sy r" using ok by (simp_all add: mem_ok_def)
  note free = free_page_walk [OF sy ok page]
  have "walk sy m1 page = Some ?e"
    using walk_user [OF sy _ d(2) _ page(1), of m1] d(1,3) by (simp add: m1_def dirs_ok_def)
  then have "store8 sy m1 x v = Some m2"
    using free(3) f by (simp add: store8_def translate_def x m1_def m2_def)
  moreover have "set_ss_pag sy (pt_addr sy r) page (of_nat f) m = Some m1" "del_ss_pag sy (pt_addr sy r) page m2 = Some m3"
    using d(2) page(1) by (simp_all add: set_ss_pag_def del_ss_pag_def layout_simps m1_def m3_def)
  moreover have "get_frame sy (pt_addr sy r) page m1 = Some (of_nat f)"
    using d(2) page(1) f by (simp add: get_frame_def pt_read_def layout_simps m1_def)
  moreover have "map_option fst (load8 sy m3 x) = Some v" using f by (simp add: load8_def translate_def x m3_def m2_def)
  moreover have flushed: "set_cr3 (dir_addr sy r) m3 = set_cr3 (dir_addr sy r) (m\<lparr>ram := ram m2\<rparr>)"
    using free(1) by (simp add: set_cr3_def m3_def m2_def m1_def set_pte_def fun_upd_idem)
  moreover have "walk sy (set_cr3 (dir_addr sy r) (m\<lparr>ram := ram m2\<rparr>)) page = None"
    using free(2) d(3) walk_cong [of "set_cr3 (dir_addr sy r) (m\<lparr>ram := ram m2\<rparr>)" m] by (simp add: set_cr3_def)
  then have "load8 sy (set_cr3 (dir_addr sy r) m3) x = None" unfolding flushed by (simp add: load8_def translate_def x)
  moreover have "load8 sy m x = None" using free(2,3) by (simp add: load8_def translate_def x)
  ultimately show ?thesis by (auto simp: m2_def)
qed

end
