(* ===== verification/Procs.thy ===== *)
theory Procs
  imports Prelude "HOL-Library.Multiset"
begin

text \<open>
  What the process manager promises, independent of lists in memory: each of the ten
  slots is running, ready, blocked or free, and every process has its list of children.
  The operations say which slot moves where; slot 0 is the idle task. The theory proves
  that they keep the partition and the family structure.
\<close>

record procs =
  running :: nat
  ready :: "nat list"
  waiting :: "nat list"
  free :: "nat list"
  kids :: "nat \<Rightarrow> nat list"

definition live :: "procs \<Rightarrow> nat set" where
  "live a = insert (running a) (set (ready a) \<union> set (waiting a)) - {0}"

text \<open>Slots that own a list of children: the idle task adopts orphans.\<close>

definition parents :: "procs \<Rightarrow> nat set" where
  "parents a = insert 0 (live a)"

text \<open>
  Every slot but the idle one is in exactly one place. Between two processes, when one has
  left the processor and the next has not been chosen, \<open>running\<close> is 0; once a choice is
  made, the idle task runs only when nobody is ready.
\<close>

definition slots_of :: "procs \<Rightarrow> nat list" where
  "slots_of a = (if running a = 0 then [] else [running a]) @ ready a @ waiting a @ free a"

definition placed :: "procs \<Rightarrow> bool" where
  "placed a \<longleftrightarrow> mset (slots_of a) = mset [1..<NR_TASKS]"

definition partition_ok :: "procs \<Rightarrow> bool" where
  "partition_ok a \<longleftrightarrow> placed a \<and> (running a = 0 \<longrightarrow> ready a = [])"

definition kids_ok :: "procs \<Rightarrow> bool" where
  "kids_ok a \<longleftrightarrow>
     (\<forall>p\<in>parents a. distinct (kids a p) \<and> set (kids a p) \<subseteq> live a \<and> p \<notin> set (kids a p)) \<and>
     (\<forall>p\<in>parents a. \<forall>q\<in>parents a. p \<noteq> q \<longrightarrow> set (kids a p) \<inter> set (kids a q) = {})"

definition procs_ok :: "procs \<Rightarrow> bool" where
  "procs_ok a \<longleftrightarrow> partition_ok a \<and> kids_ok a"

section \<open>Operations\<close>

text \<open>The next process: head of the ready queue, or the idle task.\<close>

definition dispatch :: "procs \<Rightarrow> procs" where
  "dispatch a = (case ready a of [] \<Rightarrow> a\<lparr>running := 0\<rparr> | t # r \<Rightarrow> a\<lparr>running := t, ready := r\<rparr>)"

text \<open>The three ways to leave the processor. A process that ends leaves its parent's list,
  and its children go to the idle task.\<close>

definition to_ready :: "procs \<Rightarrow> procs" where
  "to_ready a = a\<lparr>running := 0, ready := ready a @ [running a]\<rparr>"

definition to_waiting :: "procs \<Rightarrow> procs" where
  "to_waiting a = a\<lparr>running := 0, waiting := waiting a @ [running a]\<rparr>"

definition adopt :: "procs \<Rightarrow> procs" where
  "adopt a = (let t = running a; K = (\<lambda>p. remove1 t (kids a p))
     in a\<lparr>kids := K(0 := K 0 @ kids a t, t := [])\<rparr>)"

definition to_free :: "procs \<Rightarrow> procs" where
  "to_free a = (adopt a)\<lparr>running := 0, free := free a @ [running a]\<rparr>"

definition s_preempt :: "procs \<Rightarrow> procs" where "s_preempt a = dispatch (to_ready a)"
definition s_block :: "procs \<Rightarrow> procs" where "s_block a = dispatch (to_waiting a)"
definition s_exit :: "procs \<Rightarrow> procs" where "s_exit a = dispatch (to_free a)"

definition s_unblock :: "nat \<Rightarrow> procs \<Rightarrow> procs" where
  "s_unblock c a = a\<lparr>waiting := remove1 c (waiting a), ready := ready a @ [c]\<rparr>"

definition s_fork :: "procs \<Rightarrow> procs" where
  "s_fork a = (case free a of
      [] \<Rightarrow> a
    | n # f \<Rightarrow> a\<lparr>free := f, ready := ready a @ [n],
        kids := (kids a)(running a := kids a (running a) @ [n], n := [])\<rparr>)"

section \<open>The partition is kept\<close>

lemma placed_facts:
  assumes "placed a"
  shows "distinct (running a # ready a @ waiting a @ free a)" "0 \<notin> set (ready a @ waiting a @ free a)"
    "set (slots_of a) = {1..<NR_TASKS}" "running a < NR_TASKS"
proof -
  have m: "mset (slots_of a) = mset [1..<NR_TASKS]" using assms by (simp add: placed_def)
  have d: "distinct (slots_of a)" by (rule mset_eq_imp_distinct_iff [OF m, THEN iffD2]) simp
  show s: "set (slots_of a) = {1..<NR_TASKS}" using mset_eq_setD [OF m] by simp
  then have z: "0 \<notin> set (slots_of a)" by simp
  then show "0 \<notin> set (ready a @ waiting a @ free a)" by (simp add: slots_of_def)
  with d show "distinct (running a # ready a @ waiting a @ free a)"
    by (cases "running a = 0") (simp_all add: slots_of_def)
  have "running a \<in> set (slots_of a)" if "running a \<noteq> 0" using that by (simp add: slots_of_def)
  then show "running a < NR_TASKS" unfolding s by (cases "running a = 0") (simp_all add: zeos_consts)
qed

lemma slot_bound: "placed a \<Longrightarrow> i \<in> set (slots_of a) \<Longrightarrow> i < NR_TASKS"
  by (simp add: placed_facts(3))

lemma live_bound: "placed a \<Longrightarrow> i \<in> live a \<Longrightarrow> i < NR_TASKS \<and> i \<noteq> 0"
  using placed_facts(3) [of a] by (auto simp: live_def slots_of_def split: if_splits)

lemma parents_bound: "placed a \<Longrightarrow> i \<in> parents a \<Longrightarrow> i < NR_TASKS"
  using live_bound [of a i] by (auto simp: parents_def zeos_consts)

lemma running_live [simp]: "running a \<in> live a \<longleftrightarrow> running a \<noteq> 0"
  by (auto simp: live_def)

lemma running_parents [simp]: "running a \<in> parents a"
  by (auto simp: parents_def)

lemma placed_move: "placed a \<Longrightarrow> mset (slots_of b) = mset (slots_of a) \<Longrightarrow> placed b"
  by (simp add: placed_def)

lemma adopt_fields [simp]:
  "running (adopt a) = running a" "ready (adopt a) = ready a" "waiting (adopt a) = waiting a"
  "free (adopt a) = free a"
  by (simp_all add: adopt_def Let_def)

lemma to_fields [simp]:
  "running (to_ready a) = 0" "running (to_waiting a) = 0" "running (to_free a) = 0"
  "kids (to_ready a) = kids a" "kids (to_waiting a) = kids a" "kids (to_free a) = kids (adopt a)"
  by (simp_all add: to_ready_def to_waiting_def to_free_def)

lemma placed_leave:
  assumes "placed a" and "running a \<noteq> 0"
  shows "placed (to_ready a)" and "placed (to_waiting a)" and "placed (to_free a)"
  by (rule placed_move [OF assms(1)];
      use assms(2) in \<open>simp add: slots_of_def to_ready_def to_waiting_def to_free_def\<close>)+

lemma live_leave:
  assumes "placed a" and "running a \<noteq> 0"
  shows "live (to_ready a) = live a" and "live (to_waiting a) = live a"
    and "live (to_free a) = live a - {running a}"
  using placed_facts(1) [OF assms(1)] assms(2)
  by (auto simp: live_def to_ready_def to_waiting_def to_free_def)

lemma kids_dispatch [simp]: "kids (dispatch a) = kids a"
  by (simp add: dispatch_def split: list.split)

lemma partition_dispatch:
  assumes "placed b" and "running b = 0"
  shows "partition_ok (dispatch b)" and "live (dispatch b) = live b"
proof -
  have z: "0 \<notin> set (ready b)" using placed_facts(2) [OF assms(1)] by simp
  have "placed (dispatch b)"
    by (rule placed_move [OF assms(1)])
      (use assms(2) z in \<open>auto simp: dispatch_def slots_of_def split: list.split\<close>)
  then show "partition_ok (dispatch b)"
    using z by (auto simp: partition_ok_def dispatch_def split: list.splits)
  show "live (dispatch b) = live b"
    using assms(2) by (auto simp: live_def dispatch_def split: list.split)
qed

lemma placed_unblock:
  assumes "placed a" and "c \<in> set (waiting a)"
  shows "placed (s_unblock c a)" and "live (s_unblock c a) = live a"
proof -
  show "placed (s_unblock c a)"
    by (rule placed_move [OF assms(1)]) (use assms(2) in \<open>simp add: s_unblock_def slots_of_def\<close>)
  show "live (s_unblock c a) = live a"
    using assms(2) placed_facts(1) [OF assms(1)] by (auto simp: s_unblock_def live_def)
qed

lemma placed_fork: "placed a \<Longrightarrow> placed (s_fork a)"
  by (erule placed_move) (simp add: s_fork_def slots_of_def split: list.split)

lemma live_fork: "placed a \<Longrightarrow> free a = n # f \<Longrightarrow> live (s_fork a) = insert n (live a)"
  using placed_facts(2) [of a] by (auto simp: s_fork_def live_def)

lemma fork_fresh: "placed a \<Longrightarrow> free a = n # f \<Longrightarrow> n \<notin> live a \<and> n \<noteq> 0 \<and> n < NR_TASKS"
  using placed_facts(1,2) [of a] slot_bound [of a n] by (auto simp: live_def slots_of_def)

section \<open>The families are kept\<close>

lemma kids_cong: "kids_ok a \<Longrightarrow> live b = live a \<Longrightarrow> kids b = kids a \<Longrightarrow> kids_ok b"
  by (simp add: kids_ok_def parents_def)

lemma kids_fork:
  assumes "placed a" and "kids_ok a" and "free a = n # f" and "running a \<noteq> 0"
  shows "kids_ok (s_fork a)"
proof -
  have n: "n \<notin> live a" "n \<noteq> 0" using fork_fresh assms by auto
  have l: "live (s_fork a) = insert n (live a)" using live_fork assms by simp
  have r: "running a \<in> live a" using assms(4) by simp
  have k: "kids (s_fork a) p = (if p = n then [] else if p = running a then kids a p @ [n] else kids a p)" for p
    using assms(3) by (simp add: s_fork_def)
  have "n \<notin> set (kids a p)" if "p \<in> parents a" for p
    using assms(2) n that by (auto simp: kids_ok_def)
  with assms n l r k show ?thesis
    unfolding kids_ok_def parents_def by (simp add: subset_insertI2)
qed

lemma kids_adopt:
  "running a \<noteq> 0 \<Longrightarrow> kids (adopt a) p =
    (if p = running a then [] else if p = 0 then remove1 (running a) (kids a 0) @ kids a (running a)
     else remove1 (running a) (kids a p))"
  by (simp add: adopt_def Let_def)

lemma parents_to_free:
  "placed a \<Longrightarrow> running a \<noteq> 0 \<Longrightarrow> parents (to_free a) = parents a - {running a}"
  by (simp add: parents_def live_leave insert_Diff_if)

lemma kids_to_free:
  assumes "placed a" and "kids_ok a" and "running a \<noteq> 0"
  shows "kids_ok (to_free a)"
proof -
  let ?t = "running a"
  have p: "distinct (kids a p)" "set (kids a p) \<subseteq> live a" "p \<notin> set (kids a p)" if "p \<in> parents a" for p
    using assms(2) that by (auto simp: kids_ok_def)
  have pq: "set (kids a p) \<inter> set (kids a q) = {}" if "p \<in> parents a" "q \<in> parents a" "p \<noteq> q" for p q
    using assms(2) that by (simp add: kids_ok_def)
  have t: "?t \<in> parents a" "0 \<in> parents a" by (auto simp: parents_def)
  have l0: "0 \<notin> live a" by (simp add: live_def)
  have s: "set (kids (to_free a) p) =
      (if p = 0 then (set (kids a 0) - {?t}) \<union> set (kids a ?t) else set (kids a p) - {?t})"
    if "p \<in> parents a - {?t}" for p
  proof -
    have "p \<in> parents a" "p \<noteq> ?t" using that by auto
    then show ?thesis
      using kids_adopt [OF assms(3), of p] set_remove1_eq [OF p(1) [of p]] set_remove1_eq [OF p(1) [OF t(2)]]
      by simp
  qed
  show ?thesis
    unfolding kids_ok_def parents_to_free [OF assms(1,3)] live_leave(3) [OF assms(1,3)]
  proof (intro conjI ballI impI)
    fix q assume q: "q \<in> parents a - {?t}"
    show "distinct (kids (to_free a) q)"
      using p(1) [of q] p(1) [OF t(2)] p(1) [OF t(1)] pq [OF t(2,1)] assms(3) q kids_adopt [OF assms(3), of q]
      by (auto simp: distinct_remove1)
    show "set (kids (to_free a) q) \<subseteq> live a - {?t}"
      using s [OF q] p(2) [of q] p(2) [OF t(2)] p(2,3) [OF t(1)] q by auto
    show "q \<notin> set (kids (to_free a) q)"
      using s [OF q] p(3) [of q] p(2) [OF t(1)] l0 q by auto
  next
    fix q q' assume q: "q \<in> parents a - {?t}" "q' \<in> parents a - {?t}" "q \<noteq> q'"
    show "set (kids (to_free a) q) \<inter> set (kids (to_free a) q') = {}"
      using s [OF q(1)] s [OF q(2)] pq [of q q'] pq [OF t(1), of q] pq [OF t(1), of q'] q by auto
  qed
qed

lemma procs_dispatch: "placed b \<Longrightarrow> running b = 0 \<Longrightarrow> kids_ok b \<Longrightarrow> procs_ok (dispatch b)"
  by (auto simp: procs_ok_def partition_dispatch intro: kids_cong)

section \<open>Round robin\<close>

text \<open>Preemption rotates the processes that want the processor.\<close>

definition line :: "procs \<Rightarrow> nat list" where "line a = running a # ready a"

lemma line_preempt: "line (s_preempt a) = rotate1 (line a)"
  by (simp add: line_def s_preempt_def dispatch_def to_ready_def split: list.split)

lemma line_preempts: "line ((s_preempt ^^ n) a) = rotate n (line a)"
  by (induction n) (simp_all add: line_preempt rotate_def)

end
