(* ===== verification/Kernel_Inv.thy ===== *)
theory Kernel_Inv
  imports Mem_Inv Procs
begin

text \<open>
  The invariant of the running kernel: how its queues, control blocks, page tables and
  processor registers represent an abstract process state (\<^typ>\<open>procs\<close>). The central
  lemma is that \<^verbatim>\<open>sched_next_rr\<close>, called by a process that has just left the
  processor, establishes the invariant for the process it switches to.
\<close>

section \<open>Queues\<close>

definition heads :: "procs \<Rightarrow> lptr set" where
  "heads a = {ReadyQ, FreeQ, Blocked} \<union> Childs ` parents a"

fun queue :: "procs \<Rightarrow> lptr \<Rightarrow> lptr list" where
  "queue a ReadyQ = map Anchor (ready a)"
| "queue a FreeQ = map Anchor (free a)"
| "queue a Blocked = map Anchor (waiting a)"
| "queue a (Childs i) = map ChildAnchor (kids a i)"
| "queue a _ = []"

abbreviation queues :: "lheap \<Rightarrow> procs \<Rightarrow> bool" where
  "queues h a \<equiv> family dll h (heads a) (queue a)"

lemma nodes_iff [simp]:
  "Anchor i \<in> nodes (heads a) (queue a) \<longleftrightarrow> i \<in> set (ready a @ waiting a @ free a)"
  "ChildAnchor i \<in> nodes (heads a) (queue a) \<longleftrightarrow> (\<exists>p\<in>parents a. i \<in> set (kids a p))"
  "Childs i \<in> nodes (heads a) (queue a) \<longleftrightarrow> i \<in> parents a"
  by (auto simp: nodes_def heads_def)

lemma queue_dll:
  assumes "queues h a"
  shows "dll h ReadyQ (map Anchor (ready a))" "dll h FreeQ (map Anchor (free a))"
    "dll h Blocked (map Anchor (waiting a))"
    "i \<in> parents a \<Longrightarrow> dll h (Childs i) (map ChildAnchor (kids a i))"
  using assms unfolding family_def heads_def by fastforce+

lemma queue_cong:
  "ready b = ready a \<Longrightarrow> free b = free a \<Longrightarrow> waiting b = waiting a \<Longrightarrow> kids b = kids a \<Longrightarrow> queue b = queue a"
  by (rule ext) (rename_tac p, case_tac p; simp)

lemma heads_cong: "live b = live a \<Longrightarrow> heads b = heads a"
  by (simp add: heads_def parents_def)

lemma map_remove1_inj: "inj f \<Longrightarrow> remove1 (f x) (map f xs) = map f (remove1 x xs)"
  by (induction xs) (auto dest: injD)

lemma inj_nodes [simp]: "inj Anchor" "inj ChildAnchor"
  by (auto intro: injI)

text \<open>A node that is in a ring has non-null links.\<close>

lemma dll_attached: "dll h a xs \<Longrightarrow> e \<in> set xs \<Longrightarrow> \<not> detached (h e)"
proof -
  assume ring: "dll h a xs" and "e \<in> set xs"
  then obtain us vs where xs: "xs = us @ e # vs" by (meson split_list)
  have "links h ((a # us) @ e # vs @ [a])" using ring xs by (simp add: dll_def)
  then have "lprev (h e) = last (a # us)" using links_join [of "a # us" h e "vs @ [a]"] by simp
  then have "lprev (h e) \<in> set (a # us)" using last_in_set [of "a # us"] by simp
  then show ?thesis using ring xs by (auto simp: detached_def dll_def)
qed

section \<open>Control blocks\<close>

definition pcb_ok :: "symbols \<Rightarrow> kernel \<Rightarrow> nat \<Rightarrow> bool" where
  "pcb_ok sy k i \<longleftrightarrow> dir_pages_baseAddr (task k i) = dir_addr sy i \<and> 0 \<le> sint (quantum (task k i)) \<and>
     0 \<le> sint (PID (task k i)) \<and> sint (PID (task k i)) \<le> sint (last_pid k)"

text \<open>The saved stack pointer of a suspended task is in its own kernel stack, with a frame
  pointer and a return address above it.\<close>

definition saved :: "symbols \<Rightarrow> task_struct \<Rightarrow> nat \<Rightarrow> bool" where
  "saved sy ts i \<longleftrightarrow> (\<exists>j. Suc j < KERNEL_STACK_SIZE \<and> kernel_esp ts = stack_addr sy i j)"

definition kin_ok :: "(nat \<Rightarrow> task_struct) \<Rightarrow> procs \<Rightarrow> bool" where
  "kin_ok T a \<longleftrightarrow> (\<forall>i\<in>live a. \<forall>p. parent (T i) = Some p \<longleftrightarrow> p \<in> parents a \<and> i \<in> set (kids a p))"

definition tables_ok :: "symbols \<Rightarrow> kernel \<Rightarrow> procs \<Rightarrow> bool" where
  "tables_ok sy k a \<longleftrightarrow> kids_ok a \<and> queues (lists k) a \<and> idle_task k = Some 0 \<and> cursor_ok (scr k) \<and>
     kin_ok (task k) a \<and> inj_on (\<lambda>i. PID (task k i)) (parents a) \<and> (\<forall>i\<in>parents a. pcb_ok sy k i)"

section \<open>The invariant\<close>

definition kernel_ok :: "symbols \<Rightarrow> kernel \<Rightarrow> procs \<Rightarrow> bool" where
  "kernel_ok sy k a \<longleftrightarrow> partition_ok a \<and> tables_ok sy k a \<and>
     (running a \<noteq> 0 \<longrightarrow> detached (lists k (Anchor (running a)))) \<and>
     (\<forall>i\<in>parents a - {running a}. saved sy (task k i) i) \<and>
     esp0 (tss k) \<in> {stack_addr sy (running a) (KERNEL_STACK_SIZE - 1), stack_addr sy (running a) KERNEL_STACK_SIZE} \<and>
     mem_ok sy (mem k) (live a) (running a)"

text \<open>The registers during a kernel entry by task \<open>t\<close>: all frames are in its kernel stack.\<close>

definition entered :: "symbols \<Rightarrow> kernel \<Rightarrow> nat \<Rightarrow> bool" where
  "entered sy k t \<longleftrightarrow> t < NR_TASKS \<and>
     (\<exists>j<KERNEL_STACK_SIZE. esp k = stack_addr sy t j) \<and>
     (\<exists>j. Suc j < KERNEL_STACK_SIZE \<and> ebp_switch k = stack_addr sy t j) \<and>
     (\<exists>j. 0 < j \<and> j < KERNEL_STACK_SIZE \<and> ebp_fork k = stack_addr sy t j)"

text \<open>Task \<open>t\<close> has left the processor for the place given by \<open>b\<close>, and no task has been
  dispatched. Nothing is known of the TLB.\<close>

definition limbo :: "symbols \<Rightarrow> kernel \<Rightarrow> procs \<Rightarrow> nat \<Rightarrow> bool" where
  "limbo sy k b t \<longleftrightarrow> t \<noteq> 0 \<and> placed b \<and> running b = 0 \<and> tables_ok sy k b \<and>
     (\<forall>i\<in>parents b - {t}. saved sy (task k i) i) \<and>
     (\<forall>r<NR_TASKS. mem_ok sy (set_cr3 (dir_addr sy r) (mem k)) (live b) r)"

lemma current_entered: "linked sy \<Longrightarrow> entered sy k t \<Longrightarrow> current sy k = t"
  by (auto simp: entered_def current_def current_of_stack_addr)

lemma mem_ok_any:
  "mem_ok sy m L r \<Longrightarrow> (\<forall>r<NR_TASKS. mem_ok sy (set_cr3 (dir_addr sy r) m) L r)"
  by (blast intro: mem_ok_switch)

text \<open>The invariant depends on few fields.\<close>

lemma tables_ok_cong:
  assumes "tables_ok sy k a" and "lists k' = lists k" and "idle_task k' = idle_task k" and "cursor_ok (scr k')"
    and "last_pid k' = last_pid k"
    and "\<And>i. PID (task k' i) = PID (task k i) \<and> quantum (task k' i) = quantum (task k i) \<and>
      dir_pages_baseAddr (task k' i) = dir_pages_baseAddr (task k i) \<and> parent (task k' i) = parent (task k i)"
  shows "tables_ok sy k' a"
  using assms by (simp add: tables_ok_def kin_ok_def pcb_ok_def)

section \<open>Resuming a context\<close>

lemma stack_addr_word [layout_simps]:
  assumes "i < NR_TASKS" and "j < KERNEL_STACK_SIZE"
  shows "stack_word sy k (stack_addr sy i j) = Some (stack (task k i) j)"
proof -
  have "unat (of_nat (4 * j) :: DWord) = 4 * j" using assms(2) by (intro unat_of_nat32) (simp add: zeos_consts)
  then show ?thesis
    using assms task_pos_off [of i "of_nat (4 * j)" sy]
    by (simp add: stack_word_def stack_addr_def Let_def zeos_consts del: of_nat_mult)
qed

lemma stack_addr_Suc: "stack_addr sy i j + 4 = stack_addr sy i (Suc j)"
  by (simp add: stack_addr_def)

lemma resume_saved:
  assumes "i < NR_TASKS" and "Suc j < KERNEL_STACK_SIZE" and "kernel_esp (task k i) = stack_addr sy i j"
  shows "resume sy i k = Some (k\<lparr>esp := stack_addr sy i (Suc (Suc j)), ebp := stack (task k i) j,
    eip := stack (task k i) (Suc j)\<rparr>)"
proof -
  have "stack_addr sy i j + 8 = stack_addr sy i (Suc (Suc j))" by (simp add: stack_addr_def)
  with assms show ?thesis by (simp add: resume_def layout_simps stack_addr_Suc)
qed

text \<open>A context switch away from the entered task \<open>t\<close>.\<close>

lemma task_switch_ok:
  assumes sy: "linked sy" and ent: "entered sy k t" and n: "n < NR_TASKS" "pcb_ok sy k n"
    and sv: "n \<noteq> t \<Longrightarrow> saved sy (task k n) n"
  shows "\<exists>j k'. Suc j < KERNEL_STACK_SIZE \<and> task_switch sy n k = Some k' \<and>
    k' = k\<lparr>mem := set_cr3 (dir_addr sy n) (mem k),
      tss := (tss k)\<lparr>esp0 := stack_addr sy n (KERNEL_STACK_SIZE - 1)\<rparr>,
      task := (task k)(t := (task k t)\<lparr>kernel_esp := ebp_switch k\<rparr>),
      esp := stack_addr sy n (Suc (Suc j)), ebp := stack (task k n) j, eip := stack (task k n) (Suc j)\<rparr> \<and>
    kernel_esp (task k' n) = stack_addr sy n j"
proof -
  define k1 where "k1 = k\<lparr>mem := set_cr3 (dir_addr sy n) (mem k),
      tss := (tss k)\<lparr>esp0 := stack_addr sy n (KERNEL_STACK_SIZE - 1)\<rparr>,
      task := (task k)(t := (task k t)\<lparr>kernel_esp := ebp_switch k\<rparr>)\<rparr>"
  have cur: "current sy k = t" using sy ent by (rule current_entered)
  have "saved sy (task k1 n) n"
    using sv ent by (cases "n = t") (auto simp: k1_def saved_def entered_def)
  then obtain j where j: "Suc j < KERNEL_STACK_SIZE" "kernel_esp (task k1 n) = stack_addr sy n j"
    by (auto simp: saved_def)
  have "task_switch sy n k = resume sy n k1"
    using n cur by (simp add: task_switch_def inner_task_switch_def get_DIR_def pcb_ok_def upd_task_def k1_def
      current_def)
  also have "\<dots> = Some (k1\<lparr>esp := stack_addr sy n (Suc (Suc j)), ebp := stack (task k1 n) j,
      eip := stack (task k1 n) (Suc j)\<rparr>)"
    using n j by (rule_tac resume_saved)
  finally show ?thesis
    using j by (intro exI [of _ j]) (auto simp: k1_def)
qed

section \<open>Choosing the next process\<close>

lemma print_num_ok:
  assumes "0 \<le> sint a" and "sint a < 10 ^ n" and "0 < n"
  shows "print_num (Suc n) a k = Some (k\<lparr>scr := fold printc (number_text 10 dec_digit (sint a)) (scr k)\<rparr>)"
proof -
  let ?t = "number_text 10 dec_digit (sint a)"
  have "length ?t < length (replicate (Suc n) (0 :: Byte))"
    using length_number_text_le [of 10 "sint a" n dec_digit] assms by simp
  then obtain r where "itoa a (replicate (Suc n) 0) = Some (?t @ 0 # r)" by (simp add: itoa_text Let_def)
  then show ?thesis
    by (simp add: print_num_def on_scr_def printk_text number_text_dec_nonzero)
qed

text \<open>What the scheduler prints before it switches to a process.\<close>

definition announce :: "cint \<Rightarrow> Byte list" where
  "announce pid = number_text 10 dec_digit (sint pid) @ cstring [CHR 0x0A]"

lemma dequeue_ok:
  assumes q: "queues (lists k) b" and p: "placed b" "running b = 0" and r: "ready b = n # r"
  shows "\<exists>h. update_process_state_rr n Null k = Some (k\<lparr>lists := h\<rparr>) \<and>
    queues h (dispatch b) \<and> detached (h (Anchor n))"
proof -
  have ring: "dll (lists k) ReadyQ (map Anchor (ready b))" using queue_dll(1) [OF q] .
  have att: "\<not> detached (lists k (Anchor n))" by (rule dll_attached [OF ring]) (simp add: r)
  obtain h where h: "list_del (Anchor n) (lists k) = Some h"
    "family dll h (heads b) ((queue b)(ReadyQ := remove1 (Anchor n) (queue b ReadyQ)))" "detached (h (Anchor n))"
    using zq.family_del [OF q, of ReadyQ "Anchor n"] r by (auto simp: heads_def)
  have "(queue b)(ReadyQ := remove1 (Anchor n) (queue b ReadyQ)) = queue (dispatch b)"
    by (rule ext) (rename_tac p, case_tac p; simp add: r dispatch_def)
  moreover have "heads (dispatch b) = heads b"
    using partition_dispatch(2) [OF p] by (rule heads_cong)
  ultimately have "queues h (dispatch b)" using h(2) by simp
  with h att show ?thesis
    by (auto simp: update_process_state_rr_def deref_def detached_def on_lists_def)
qed

lemma tables_dispatch:
  assumes "tables_ok sy k b" and "placed b" and "running b = 0" and "queues h (dispatch b)"
  shows "tables_ok sy (k\<lparr>lists := h\<rparr>) (dispatch b)"
proof -
  have l: "live (dispatch b) = live b" using assms(2,3) by (rule partition_dispatch)
  have "kids_ok (dispatch b)" using assms(1) by (intro kids_cong [OF _ l]) (simp_all add: tables_ok_def)
  then show ?thesis
    using assms(1,4) l by (simp add: tables_ok_def kin_ok_def parents_def pcb_ok_def)
qed

text \<open>The choice of \<^const>\<open>pick_next\<close> is the one of \<^const>\<open>dispatch\<close>.\<close>

lemma choose_next:
  assumes lim: "limbo sy k b t"
  shows "\<exists>h. pick_next sy k = Some (running (dispatch b), k\<lparr>lists := h\<rparr>) \<and>
    tables_ok sy (k\<lparr>lists := h\<rparr>) (dispatch b) \<and>
    (running (dispatch b) \<noteq> 0 \<longrightarrow> detached (h (Anchor (running (dispatch b)))))"
proof -
  have tab: "tables_ok sy k b" and p: "placed b" "running b = 0" using lim by (simp_all add: limbo_def)
  have q: "queues (lists k) b" and idle: "idle_task k = Some 0" using tab by (simp_all add: tables_ok_def)
  have em: "list_empty ReadyQ (lists k) = Some (ready b = [])"
    using zq.empty_spec [OF queue_dll(1) [OF q]] by simp
  show ?thesis
  proof (cases "ready b")
    case Nil
    have "queue (dispatch b) = queue b" by (rule queue_cong) (simp_all add: dispatch_def Nil)
    then have "queues (lists k) (dispatch b)"
      using q heads_cong [OF partition_dispatch(2) [OF p]] by simp
    with tab p em idle Nil show ?thesis
      using tables_dispatch [of sy k b "lists k"] by (intro exI [of _ "lists k"]) (simp add: pick_next_def dispatch_def)
  next
    case (Cons n r)
    have n: "n < NR_TASKS" using slot_bound [OF p(1), of n] Cons by (simp add: slots_of_def)
    have f: "list_first ReadyQ (lists k) = Some (Anchor n)"
      using zq.first_spec queue_dll(1) [OF q] Cons by simp
    obtain h where h: "update_process_state_rr n Null k = Some (k\<lparr>lists := h\<rparr>)"
      "queues h (dispatch b)" "detached (h (Anchor n))"
      using dequeue_ok [OF q p Cons] by blast
    have "running (dispatch b) = n" by (simp add: dispatch_def Cons)
    with em f h n Cons show ?thesis
      using tables_dispatch [OF tab p h(2)] by (intro exI [of _ h]) (simp add: pick_next_def layout_simps)
  qed
qed

text \<open>\<open>switched k n k'\<close>: \<open>k'\<close> runs task \<open>n\<close> at the point saved in its kernel stack, with its
  page directory loaded, the TLB flushed and its own stack for the next entry.\<close>

definition switched :: "symbols \<Rightarrow> kernel \<Rightarrow> nat \<Rightarrow> kernel \<Rightarrow> bool" where
  "switched sy k n k' \<longleftrightarrow> (\<exists>j. Suc j < KERNEL_STACK_SIZE \<and> kernel_esp (task k' n) = stack_addr sy n j \<and>
     esp k' = stack_addr sy n (j + 2) \<and> ebp k' = stack (task k n) j \<and> eip k' = stack (task k n) (j + 1) \<and>
     mem k' = set_cr3 (dir_addr sy n) (mem k) \<and> esp0 (tss k') = stack_addr sy n (KERNEL_STACK_SIZE - 1))"

lemma sched_next_announces:
  assumes ch: "pick_next sy k = Some (n, k\<lparr>lists := h\<rparr>)"
    and pn: "0 \<le> sint (PID (task k n))" "sint (PID (task k n)) < 100"
  shows "sched_next_rr sy k = task_switch sy n (k\<lparr>lists := h, scr := fold printc (announce (PID (task k n))) (scr k)\<rparr>)"
proof -
  have "sched_next_rr sy k = do {
     k \<leftarrow> print_num 3 (PID (task k n)) (k\<lparr>lists := h\<rparr>);
     k \<leftarrow> on_scr (printk (lit [CHR 0x0A])) k;
     task_switch sy n k }"
    by (simp add: sched_next_rr_def ch)
  moreover have "print_num 3 (PID (task k n)) (k\<lparr>lists := h\<rparr>) = Some (k\<lparr>lists := h,
      scr := fold printc (number_text 10 dec_digit (sint (PID (task k n)))) (scr k)\<rparr>)"
    using print_num_ok [of "PID (task k n)" 2 "k\<lparr>lists := h\<rparr>"] pn by (simp add: numeral_3_eq_3)
  moreover have "0 \<notin> set (cstring [CHR 0x0A])" by (simp add: cstring_def)
  ultimately show ?thesis by (simp add: on_scr_def printk_lit announce_def)
qed

lemma sched_next_ok:
  assumes sy: "linked sy" and lim: "limbo sy k b t" and ent: "entered sy k t"
    and pid: "sint (PID (task k (running (dispatch b)))) < 100"
  shows "\<exists>k'. sched_next_rr sy k = Some k' \<and> kernel_ok sy k' (dispatch b) \<and>
    switched sy k (running (dispatch b)) k' \<and>
    task k' = (task k)(t := (task k t)\<lparr>kernel_esp := ebp_switch k\<rparr>) \<and> last_pid k' = last_pid k \<and>
    quantum_ticks k' = quantum_ticks k \<and>
    port_e9 (scr k') = port_e9 (scr k) @ announce (PID (task k (running (dispatch b))))"
proof -
  let ?a = "dispatch b" and ?n = "running (dispatch b)"
  obtain h where ch: "pick_next sy k = Some (?n, k\<lparr>lists := h\<rparr>)"
    and tab: "tables_ok sy (k\<lparr>lists := h\<rparr>) ?a" and det: "?n \<noteq> 0 \<longrightarrow> detached (h (Anchor ?n))"
    using choose_next [OF lim] by blast
  have p: "placed b" "running b = 0" using lim by (simp_all add: limbo_def)
  have l: "live ?a = live b" using p by (rule partition_dispatch)
  have n: "?n \<in> parents ?a" by simp
  have "pcb_ok sy (k\<lparr>lists := h\<rparr>) ?n" using tab n by (simp add: tables_ok_def)
  then have pn: "0 \<le> sint (PID (task k ?n))" "sint (PID (task k ?n)) < 100"
    using pid by (simp_all add: pcb_ok_def)
  define s where "s = fold printc (announce (PID (task k ?n))) (scr k)"
  define k2 where "k2 = k\<lparr>lists := h, scr := s\<rparr>"
  have run: "sched_next_rr sy k = task_switch sy ?n k2"
    unfolding k2_def s_def by (rule sched_next_announces [OF ch pn])
  have cur: "cursor_ok s"
    unfolding s_def using tab by (intro console.ok_fold) (simp add: tables_ok_def)
  have tab2: "tables_ok sy k2 ?a"
    using tab by (rule tables_ok_cong) (simp_all add: k2_def cur)
  have sv: "saved sy (task k i) i" if "i \<in> parents ?a" "i \<noteq> t" for i
    using lim l that by (simp add: limbo_def parents_def)
  have part: "partition_ok ?a" using p by (rule partition_dispatch)
  then have n10: "?n < NR_TASKS" by (simp add: partition_ok_def placed_facts)
  have "entered sy k2 t" "pcb_ok sy k2 ?n" using ent tab2 by (simp_all add: entered_def k2_def tables_ok_def)
  from task_switch_ok [OF sy this(1) n10 this(2)] sv [OF n]
  obtain j k' where j: "Suc j < KERNEL_STACK_SIZE" and sw: "task_switch sy ?n k2 = Some k'"
    and k': "k' = k2\<lparr>mem := set_cr3 (dir_addr sy ?n) (mem k2),
      tss := (tss k2)\<lparr>esp0 := stack_addr sy ?n (KERNEL_STACK_SIZE - 1)\<rparr>,
      task := (task k2)(t := (task k2 t)\<lparr>kernel_esp := ebp_switch k2\<rparr>),
      esp := stack_addr sy ?n (Suc (Suc j)), ebp := stack (task k2 ?n) j, eip := stack (task k2 ?n) (Suc j)\<rparr>"
    and ks: "kernel_esp (task k' ?n) = stack_addr sy ?n j"
    by (auto simp: k2_def)
  have "tables_ok sy k' ?a"
    using tab2 by (rule tables_ok_cong) (simp_all add: k' k2_def cur)
  moreover have "saved sy (task k' i) i" if "i \<in> parents ?a - {?n}" for i
    using that sv [of i] ent by (cases "i = t") (auto simp: k' k2_def saved_def entered_def)
  moreover have "mem_ok sy (mem k') (live ?a) ?n"
    using lim n10 l by (simp add: k' k2_def limbo_def)
  ultimately have "kernel_ok sy k' ?a"
    using part det by (simp add: kernel_ok_def k' k2_def)
  moreover have "switched sy k ?n k'"
    using j ks by (auto simp: switched_def k' k2_def intro!: exI [of _ j])
  ultimately show ?thesis
    using run sw by (intro exI [of _ k']) (simp add: k' k2_def s_def console.out_fold)
qed

text \<open>
  The number is printed through \<^verbatim>\<open>char buff[3]\<close>: two digits and the terminator.
  A process with a larger PID overruns it.
\<close>

lemma sched_next_overrun:
  assumes lim: "limbo sy k b t" and pid: "100 \<le> sint (PID (task k (running (dispatch b))))"
  shows "sched_next_rr sy k = None"
proof -
  obtain h where "pick_next sy k = Some (running (dispatch b), k\<lparr>lists := h\<rparr>)" using choose_next [OF lim] by blast
  moreover have "2 < length (number_text 10 dec_digit (sint (PID (task k (running (dispatch b))))))"
    using length_number_text_gt [of 10 2 "sint (PID (task k (running (dispatch b))))" dec_digit] pid by simp
  ultimately show ?thesis by (simp add: sched_next_rr_def print_num_def itoa_text Let_def)
qed

end
