(* ===== verification/Refine.thy ===== *)
theory Refine
  imports Kernel_Inv
begin

text \<open>
  The kernel's process operations implement the abstract ones: \<^verbatim>\<open>scheduler\<close>
  implements preemption, \<^verbatim>\<open>sys_block\<close>, \<^verbatim>\<open>sys_unblock\<close>,
  \<^verbatim>\<open>sys_fork\<close> and \<^verbatim>\<open>sys_exit\<close> their abstract counterparts, and each keeps
  the kernel invariant.
\<close>

section \<open>Consequences of the invariant\<close>

lemma kernel_okD:
  assumes "kernel_ok sy k a"
  shows "placed a" "kids_ok a" "queues (lists k) a" "idle_task k = Some 0" "cursor_ok (scr k)"
    "kin_ok (task k) a" "inj_on (\<lambda>i. PID (task k i)) (parents a)" "tables_ok sy k a"
    "running a < NR_TASKS" "mem_ok sy (mem k) (live a) (running a)"
  using assms by (simp_all add: kernel_ok_def tables_ok_def partition_ok_def placed_facts)

lemma kernel_ok_pcb: "kernel_ok sy k a \<Longrightarrow> i \<in> parents a \<Longrightarrow> pcb_ok sy k i"
  by (simp add: kernel_ok_def tables_ok_def)

text \<open>Ticks, pending unblocks and printing do not matter to the invariant.\<close>

lemma kernel_ok_cong:
  assumes "kernel_ok sy k a" and "lists k' = lists k" and "idle_task k' = idle_task k" and "cursor_ok (scr k')"
    and "last_pid k' = last_pid k" and "tss k' = tss k" and "mem k' = mem k"
    and "\<And>i. PID (task k' i) = PID (task k i) \<and> quantum (task k' i) = quantum (task k i) \<and>
      dir_pages_baseAddr (task k' i) = dir_pages_baseAddr (task k i) \<and> parent (task k' i) = parent (task k i)"
    and "\<And>i. kernel_esp (task k' i) = kernel_esp (task k i)"
  shows "kernel_ok sy k' a"
  using assms tables_ok_cong [of sy k a k'] by (simp add: kernel_ok_def saved_def)

lemma kids_unique:
  "kids_ok a \<Longrightarrow> p \<in> parents a \<Longrightarrow> q \<in> parents a \<Longrightarrow> i \<in> set (kids a p) \<Longrightarrow> i \<in> set (kids a q) \<Longrightarrow> p = q"
  unfolding kids_ok_def by blast

lemma kids_live: "kids_ok a \<Longrightarrow> p \<in> parents a \<Longrightarrow> i \<in> set (kids a p) \<Longrightarrow> i \<in> live a"
  unfolding kids_ok_def by blast

section \<open>Leaving the processor\<close>

lemma tables_ok_queue:
  assumes "tables_ok sy k a" and "live b = live a" and "kids b = kids a" and "queues h b"
  shows "tables_ok sy (k\<lparr>lists := h\<rparr>) b"
  using assms kids_cong [of a b] by (simp add: tables_ok_def kin_ok_def parents_def pcb_ok_def)

lemma leave_limbo:
  assumes ok: "kernel_ok sy k a" and r: "running a \<noteq> 0"
    and b: "q = ReadyQ \<and> b = to_ready a \<or> q = Blocked \<and> b = to_waiting a"
  shows "\<exists>h. list_add_tail (Anchor (running a)) q (lists k) = Some h \<and>
    limbo sy (k\<lparr>lists := h\<rparr>) b (running a)"
proof -
  let ?t = "running a"
  note D = kernel_okD [OF ok]
  have "Anchor ?t \<notin> nodes (heads a) (queue a)" using placed_facts(1) [OF D(1)] by simp
  then obtain h where h: "list_add_tail (Anchor ?t) q (lists k) = Some h"
    "family dll h (heads a) ((queue a)(q := queue a q @ [Anchor ?t]))"
    using zq.family_add_tail [OF D(3), of q "Anchor ?t"] b by (auto simp: heads_def)
  have bl: "live b = live a" "kids b = kids a" "placed b" "running b = 0"
    using b live_leave [OF D(1) r] placed_leave [OF D(1) r] by auto
  have "(queue a)(q := queue a q @ [Anchor ?t]) = queue b"
    using b by (intro ext; rename_tac p; case_tac p) (auto simp: to_ready_def to_waiting_def)
  with h(2) have "queues h b" using heads_cong [OF bl(1)] by simp
  then have "tables_ok sy (k\<lparr>lists := h\<rparr>) b" using tables_ok_queue [OF D(8) bl(1,2)] by simp
  moreover have "parents b = parents a" using bl by (simp add: parents_def)
  ultimately have "limbo sy (k\<lparr>lists := h\<rparr>) b ?t"
    using ok r bl mem_ok_any [OF D(10)] by (simp add: limbo_def kernel_ok_def)
  with h(1) show ?thesis by blast
qed

section \<open>The clock tick\<close>

text \<open>No switch while the running process has quantum left or is the only one that can run.\<close>

lemma scheduler_keeps:
  assumes sy: "linked sy" and ok: "kernel_ok sy k a" and ent: "entered sy k (running a)"
    and "ready a = [] \<or> 0 \<le> sint (quantum_ticks k - 1)"
  shows "scheduler sy k = Some (k\<lparr>quantum_ticks :=
    (if ready a = [] then quantum (task k (running a)) else quantum_ticks k - 1)\<rparr>)"
proof -
  have em: "list_empty ReadyQ (lists k) = Some (ready a = [])"
    using zq.empty_spec [OF queue_dll(1) [OF kernel_okD(3) [OF ok]]] by simp
  have cur: "current_of_esp sy (esp k) = running a" using current_entered [OF sy ent] by (simp add: current_def)
  have "0 \<le> sint (quantum (task k (running a)))"
    using kernel_ok_pcb [OF ok, of "running a"] by (simp add: pcb_ok_def)
  with em cur assms(4) show ?thesis
    by (auto simp: scheduler_def update_sched_data_rr_def needs_sched_rr_def current_def)
qed

lemma scheduler_limbo:
  assumes sy: "linked sy" and ok: "kernel_ok sy k a" and ent: "entered sy k (running a)"
    and exp: "ready a \<noteq> []" "sint (quantum_ticks k - 1) < 0"
  shows "\<exists>h s. scheduler sy k = sched_next_rr sy (k\<lparr>quantum_ticks := quantum_ticks k - 1, lists := h, scr := s\<rparr>) \<and>
    limbo sy (k\<lparr>quantum_ticks := quantum_ticks k - 1, lists := h, scr := s\<rparr>) (to_ready a) (running a)"
proof -
  let ?t = "running a" and ?msg = "CHR 0x0A # ''scheudled next task PID: ''"
  have r: "?t \<noteq> 0" using ok exp by (auto simp: kernel_ok_def partition_ok_def)
  have em: "list_empty ReadyQ (lists k) = Some False"
    using zq.empty_spec [OF queue_dll(1) [OF kernel_okD(3) [OF ok]]] exp by simp
  have cur: "current_of_esp sy (esp k) = ?t" using current_entered [OF sy ent] by (simp add: current_def)
  define s where "s = fold printc (cstring ?msg) (scr k)"
  define k1 where "k1 = k\<lparr>quantum_ticks := quantum_ticks k - 1, scr := s\<rparr>"
  have "cursor_ok s" unfolding s_def using kernel_okD(5) [OF ok] by (rule console.ok_fold)
  then have ok1: "kernel_ok sy k1 a" by (intro kernel_ok_cong [OF ok]) (simp_all add: k1_def)
  obtain h where h: "list_add_tail (Anchor ?t) ReadyQ (lists k) = Some h"
    "limbo sy (k1\<lparr>lists := h\<rparr>) (to_ready a) ?t"
    using leave_limbo [OF ok1 r, of ReadyQ "to_ready a"] by (auto simp: k1_def)
  have "printk (lit ?msg) (scr k) = Some s"
    unfolding s_def by (rule printk_lit) (simp add: cstring_def)
  then have "scheduler sy k = sched_next_rr sy (k\<lparr>quantum_ticks := quantum_ticks k - 1, lists := h, scr := s\<rparr>)"
    using em cur exp h(1) ok r
    by (simp add: scheduler_def update_sched_data_rr_def needs_sched_rr_def current_def
        update_process_state_rr_def deref_def on_lists_def on_scr_def kernel_ok_def detached_def)
  moreover have "k1\<lparr>lists := h\<rparr> = k\<lparr>quantum_ticks := quantum_ticks k - 1, lists := h, scr := s\<rparr>"
    by (simp add: k1_def)
  ultimately show ?thesis using h(2) by metis
qed

lemma hd_ready_dispatch: "ready a \<noteq> [] \<Longrightarrow> running (dispatch (to_ready a)) = hd (ready a)"
  by (cases "ready a") (simp_all add: dispatch_def to_ready_def)

lemma scheduler_switches:
  assumes sy: "linked sy" and ok: "kernel_ok sy k a" and ent: "entered sy k (running a)"
    and pid: "sint (PID (task k (hd (ready a)))) < 100"
    and exp: "ready a \<noteq> []" "sint (quantum_ticks k - 1) < 0"
  shows "\<exists>k'. scheduler sy k = Some k' \<and> kernel_ok sy k' (s_preempt a) \<and>
    switched sy k (hd (ready a)) k' \<and>
    task k' = (task k)(running a := (task k (running a))\<lparr>kernel_esp := ebp_switch k\<rparr>) \<and>
    last_pid k' = last_pid k \<and> quantum_ticks k' = quantum_ticks k - 1"
proof -
  obtain h s where lim: "scheduler sy k = sched_next_rr sy (k\<lparr>quantum_ticks := quantum_ticks k - 1, lists := h, scr := s\<rparr>)"
    "limbo sy (k\<lparr>quantum_ticks := quantum_ticks k - 1, lists := h, scr := s\<rparr>) (to_ready a) (running a)"
    using scheduler_limbo [OF sy ok ent exp] by blast
  have "entered sy (k\<lparr>quantum_ticks := quantum_ticks k - 1, lists := h, scr := s\<rparr>) (running a)"
    using ent by (simp add: entered_def)
  then show ?thesis
    using sched_next_ok [OF sy lim(2)] pid lim(1) hd_ready_dispatch [OF exp(1)]
    by (auto simp: s_preempt_def switched_def)
qed

lemma scheduler_overrun:
  assumes "linked sy" and "kernel_ok sy k a" and "entered sy k (running a)"
    and "ready a \<noteq> []" "sint (quantum_ticks k - 1) < 0" and "100 \<le> sint (PID (task k (hd (ready a))))"
  shows "scheduler sy k = None"
  using scheduler_limbo [OF assms(1-5)] sched_next_overrun hd_ready_dispatch [OF assms(4)] assms(6) by fastforce

section \<open>block\<close>

lemma sys_block_pending:
  assumes sy: "linked sy" and ok: "kernel_ok sy k a" and ent: "entered sy k (running a)"
    and p: "pending_unblocks (task k (running a)) \<noteq> 0"
  shows "\<exists>k'. sys_block sy k = Some k' \<and> kernel_ok sy k' a \<and>
    k' = k\<lparr>task := (task k)(running a := (task k (running a))
      \<lparr>pending_unblocks := pending_unblocks (task k (running a)) - 1\<rparr>)\<rparr>"
proof -
  let ?k = "k\<lparr>task := (task k)(running a := (task k (running a))
      \<lparr>pending_unblocks := pending_unblocks (task k (running a)) - 1\<rparr>)\<rparr>"
  have "sys_block sy k = Some ?k"
    using p current_entered [OF sy ent] by (simp add: sys_block_def upd_task_def Let_def)
  moreover have "kernel_ok sy ?k a"
    by (rule kernel_ok_cong [OF ok]) (use kernel_okD(5) [OF ok] in simp_all)
  ultimately show ?thesis by blast
qed

lemma sys_block_limbo:
  assumes sy: "linked sy" and ok: "kernel_ok sy k a" and ent: "entered sy k (running a)"
    and r: "running a \<noteq> 0" and p: "pending_unblocks (task k (running a)) = 0"
  shows "\<exists>h. sys_block sy k = sched_next_rr sy (k\<lparr>lists := h\<rparr>) \<and>
    limbo sy (k\<lparr>lists := h\<rparr>) (to_waiting a) (running a)"
proof -
  obtain h where h: "list_add_tail (Anchor (running a)) Blocked (lists k) = Some h"
    "limbo sy (k\<lparr>lists := h\<rparr>) (to_waiting a) (running a)"
    using leave_limbo [OF ok r, of Blocked "to_waiting a"] by auto
  then show ?thesis using current_entered [OF sy ent] p by (auto simp: sys_block_def on_lists_def)
qed

lemma sys_block_switches:
  assumes sy: "linked sy" and ok: "kernel_ok sy k a" and ent: "entered sy k (running a)"
    and r: "running a \<noteq> 0" and p: "pending_unblocks (task k (running a)) = 0"
    and pid: "sint (PID (task k (running (s_block a)))) < 100"
  shows "\<exists>k'. sys_block sy k = Some k' \<and> kernel_ok sy k' (s_block a) \<and>
    switched sy k (running (s_block a)) k' \<and>
    task k' = (task k)(running a := (task k (running a))\<lparr>kernel_esp := ebp_switch k\<rparr>) \<and>
    last_pid k' = last_pid k \<and> quantum_ticks k' = quantum_ticks k"
proof -
  obtain h where h: "sys_block sy k = sched_next_rr sy (k\<lparr>lists := h\<rparr>)"
    "limbo sy (k\<lparr>lists := h\<rparr>) (to_waiting a) (running a)"
    using sys_block_limbo [OF sy ok ent r p] by blast
  have "entered sy (k\<lparr>lists := h\<rparr>) (running a)" using ent by (simp add: entered_def)
  then show ?thesis
    using sched_next_ok [OF sy h(2)] pid h(1) by (auto simp: s_block_def switched_def)
qed

lemma sys_block_overrun:
  assumes "linked sy" and "kernel_ok sy k a" and "entered sy k (running a)" and "running a \<noteq> 0"
    and "pending_unblocks (task k (running a)) = 0" and "100 \<le> sint (PID (task k (running (s_block a))))"
  shows "sys_block sy k = None"
  using sys_block_limbo [OF assms(1-5)] sched_next_overrun assms(6) by (fastforce simp: s_block_def)

section \<open>unblock\<close>

lemma find_map: "find P (map f xs) = map_option f (find (P \<circ> f) xs)"
  by (induction xs) auto

text \<open>The two searches of \<^verbatim>\<open>sys_unblock\<close>: among the caller's children, by PID, and in the
  queue of blocked processes.\<close>

lemma child_search:
  assumes ok: "kernel_ok sy k a" and p: "p \<in> parents a"
  shows "list_for_each_find (\<lambda>pos. PID (task k (list_entry sy pos OFF_child_anchor)) = pid) (Childs p) (lists k) =
    Some (map_option ChildAnchor (find (\<lambda>c. PID (task k c) = pid) (kids a p)))"
proof -
  note D = kernel_okD [OF ok]
  have "list_entry sy (ChildAnchor c) OFF_child_anchor = c" if "c \<in> set (kids a p)" for c
    using kids_live [OF D(2) p that] live_bound [OF D(1)] by (simp add: layout_simps)
  then have "find ((\<lambda>pos. PID (task k (list_entry sy pos OFF_child_anchor)) = pid) \<circ> ChildAnchor) (kids a p) =
      find (\<lambda>c. PID (task k c) = pid) (kids a p)"
    by (intro find_cong) auto
  then show ?thesis using dll_find [OF queue_dll(4) [OF D(3) p]] by (simp add: find_map)
qed

lemma blocked_search:
  assumes "queues (lists k) a"
  shows "list_for_each_find (\<lambda>pos. Anchor c = pos) Blocked (lists k) =
    Some (if c \<in> set (waiting a) then Some (Anchor c) else None)"
proof -
  have "find ((\<lambda>pos. Anchor c = pos) \<circ> Anchor) xs = (if c \<in> set xs then Some c else None)" for xs
    by (induction xs) auto
  then show ?thesis using dll_find [OF queue_dll(3) [OF assms]] by (simp add: find_map)
qed

lemma find_child:
  assumes ok: "kernel_ok sy k a" and c: "c \<in> set (kids a (running a))" "PID (task k c) = pid"
  shows "find (\<lambda>c. PID (task k c) = pid) (kids a (running a)) = Some c"
proof -
  note D = kernel_okD [OF ok]
  have "c' = c" if "c' \<in> set (kids a (running a))" "PID (task k c') = pid" for c'
    using inj_onD [OF D(7), of c' c] kids_live [OF D(2) running_parents] that c by (simp add: parents_def)
  moreover obtain c' where c': "find (\<lambda>c. PID (task k c) = pid) (kids a (running a)) = Some c'"
    using c find_None_iff [of "\<lambda>c. PID (task k c) = pid" "kids a (running a)"] by fastforce
  moreover have "c' \<in> set (kids a (running a))" "PID (task k c') = pid" using c' by (auto simp: find_Some_iff)
  ultimately show ?thesis by simp
qed

lemma sys_unblock_no_child:
  assumes "linked sy" and "kernel_ok sy k a" and "entered sy k (running a)"
    and "\<forall>c\<in>set (kids a (running a)). PID (task k c) \<noteq> pid"
  shows "sys_unblock sy pid k = Some (-1, k)"
proof -
  have "find (\<lambda>c. PID (task k c) = pid) (kids a (running a)) = None"
    using assms(4) by (simp add: find_None_iff)
  then show ?thesis
    using child_search [OF assms(2) running_parents] current_entered [OF assms(1,3)]
    by (simp add: sys_unblock_def)
qed

lemma sys_unblock_not_blocked:
  assumes sy: "linked sy" and ok: "kernel_ok sy k a" and ent: "entered sy k (running a)"
    and c: "c \<in> set (kids a (running a))" "PID (task k c) = pid" "c \<notin> set (waiting a)"
  shows "\<exists>k'. sys_unblock sy pid k = Some (0, k') \<and> kernel_ok sy k' a \<and>
    k' = k\<lparr>task := (task k)(c := (task k c)\<lparr>pending_unblocks := pending_unblocks (task k c) + 1\<rparr>)\<rparr>"
proof -
  let ?k = "k\<lparr>task := (task k)(c := (task k c)\<lparr>pending_unblocks := pending_unblocks (task k c) + 1\<rparr>)\<rparr>"
  note D = kernel_okD [OF ok]
  have "list_entry sy (ChildAnchor c) OFF_child_anchor = c"
    using kids_live [OF D(2) running_parents c(1)] live_bound [OF D(1)] by (simp add: layout_simps)
  then have "sys_unblock sy pid k = Some (0, ?k)"
    using child_search [OF ok running_parents] current_entered [OF sy ent] find_child [OF ok c(1,2)]
      blocked_search [OF D(3), of c] c(3)
    by (simp add: sys_unblock_def upd_task_def)
  moreover have "kernel_ok sy ?k a"
    by (rule kernel_ok_cong [OF ok]) (use D(5) in simp_all)
  ultimately show ?thesis by blast
qed

lemma sys_unblock_blocked:
  assumes sy: "linked sy" and ok: "kernel_ok sy k a" and ent: "entered sy k (running a)" and r: "running a \<noteq> 0"
    and c: "c \<in> set (kids a (running a))" "PID (task k c) = pid" "c \<in> set (waiting a)"
  shows "\<exists>h. sys_unblock sy pid k = Some (0, k\<lparr>lists := h\<rparr>) \<and> kernel_ok sy (k\<lparr>lists := h\<rparr>) (s_unblock c a)"
proof -
  note D = kernel_okD [OF ok]
  let ?b = "s_unblock c a"
  obtain h1 where h1: "list_del (Anchor c) (lists k) = Some h1"
    "family dll h1 (heads a) ((queue a)(Blocked := map Anchor (remove1 c (waiting a))))"
    "Anchor c \<notin> nodes (heads a) ((queue a)(Blocked := map Anchor (remove1 c (waiting a))))"
    "\<forall>p. p \<notin> nodes (heads a) (queue a) \<longrightarrow> h1 p = lists k p"
    using zq.family_del [OF D(3), of Blocked "Anchor c"] c(3) by (auto simp: heads_def map_remove1_inj)
  obtain h where h: "list_add_tail (Anchor c) ReadyQ h1 = Some h"
    "family dll h (heads a) ((queue a)(Blocked := map Anchor (remove1 c (waiting a)),
       ReadyQ := map Anchor (ready a @ [c])))"
    "\<forall>p. p \<notin> insert (Anchor c) (nodes (heads a) ((queue a)(Blocked := map Anchor (remove1 c (waiting a))))) \<longrightarrow> h p = h1 p"
    using zq.family_add_tail [OF h1(2), of ReadyQ "Anchor c"] h1(3) by (auto simp: heads_def)
  have live: "placed ?b" "live ?b = live a" using placed_unblock [OF D(1) c(3)] by auto
  have "(queue a)(Blocked := map Anchor (remove1 c (waiting a)), ReadyQ := map Anchor (ready a @ [c])) = queue ?b"
    by (intro ext; rename_tac p; case_tac p) (auto simp: s_unblock_def)
  with h(2) have q: "queues h ?b" using heads_cong [OF live(2)] by simp
  have tab: "tables_ok sy (k\<lparr>lists := h\<rparr>) ?b"
    using tables_ok_queue [OF D(8) live(2) _ q] by (simp add: s_unblock_def)
  have rb: "running ?b = running a" "running a \<noteq> c"
    using placed_facts(1) [OF D(1)] c(3) by (auto simp: s_unblock_def)
  have "Anchor (running a) \<notin> nodes (heads a) (queue a)" using placed_facts(1) [OF D(1)] by simp
  moreover have "Anchor (running a) \<notin> nodes (heads a) ((queue a)(Blocked := map Anchor (remove1 c (waiting a))))"
    using calculation notin_set_remove1 [of "running a" "waiting a" c] placed_facts(1) [OF D(1)]
    by (auto simp: nodes_def split: if_splits)
  ultimately have "h (Anchor (running a)) = lists k (Anchor (running a))"
    using h(3) h1(4) rb by auto
  then have "kernel_ok sy (k\<lparr>lists := h\<rparr>) ?b"
    using ok tab live rb r by (simp add: kernel_ok_def partition_ok_def parents_def)
  moreover have "list_entry sy (ChildAnchor c) OFF_child_anchor = c"
    using kids_live [OF D(2) running_parents c(1)] live_bound [OF D(1)] by (simp add: layout_simps)
  then have "sys_unblock sy pid k = Some (0, k\<lparr>lists := h\<rparr>)"
    using child_search [OF ok running_parents] current_entered [OF sy ent] find_child [OF ok c(1,2)]
      blocked_search [OF D(3), of c] c(3) h1(1) h(1)
    by (simp add: sys_unblock_def on_lists_def)
  ultimately show ?thesis by blast
qed

end
