(* ===== verification/Write.thy ===== *)
theory Write
  imports Refine
begin

text \<open>
  \<^verbatim>\<open>sys_write\<close>: its error returns, the user-pointer check, and the copy of the user's
  bytes through the local array to the console.
\<close>

section \<open>User memory\<close>

text \<open>The byte a program sees at an address of its address space.\<close>

definition user_byte :: "symbols \<Rightarrow> mm \<Rightarrow> DWord \<Rightarrow> Byte" where
  "user_byte sy m a = (case effective sy m (page_of a) of
     None \<Rightarrow> 0 | Some e \<Rightarrow> ram m (unat (pbase_addr e)) (offset_of a))"

definition mapped :: "symbols \<Rightarrow> mm \<Rightarrow> DWord set" where
  "mapped sy m = {a. effective sy m (page_of a) \<noteq> None}"

text \<open>Loads leave memory as it is and stores touch the local array only.\<close>

definition reading :: "symbols \<Rightarrow> mm \<Rightarrow> nat \<Rightarrow> mm \<times> Byte list \<Rightarrow> bool" where
  "reading sy m n s \<longleftrightarrow> same_but sy {} m (fst s) \<and> length (snd s) = n"

lemma load_user:
  assumes "reading sy m n s" and "a \<in> mapped sy m"
  shows "\<exists>s'. ld_user sy s a = Some (user_byte sy m a, s') \<and> reading sy m n s' \<and> snd s' = snd s"
proof -
  obtain e where e: "effective sy m (page_of a) = Some e" using assms(2) by (auto simp: mapped_def)
  have sb: "same_but sy {} m (fst s)" using assms(1) by (simp add: reading_def)
  then have "maps sy (fst s) (page_of a) (unat (pbase_addr e))" using e by (simp add: maps_def same_but_def)
  then obtain m' where m': "load8 sy (fst s) a = Some (ram (fst s) (unat (pbase_addr e)) (offset_of a), m')"
    "same_but sy {} (fst s) m'"
    using load8_maps by blast
  have "ram (fst s) = ram m" using sb by (auto simp: same_but_def)
  then have "ld_user sy s a = Some (user_byte sy m a, (m', snd s))"
    using m'(1) e by (simp add: ld_user_def user_byte_def)
  moreover have "same_but sy {} m m'" using sb m'(2) by (rule same_but_trans)
  ultimately show ?thesis using assms(1) by (auto simp: reading_def)
qed

interpretation user_copy: byte_memory "ld_user sy" st_local "reading sy m n" "\<lambda>_ _. True"
  "mapped sy m" "\<lambda>_. user_byte sy m" "{a. unat a < n}" "\<lambda>s a. snd s ! unat a"
  for sy m n
proof unfold_locales
  fix s a assume "reading sy m n s" "a \<in> mapped sy m"
  then show "\<exists>s'. ld_user sy s a = Some (user_byte sy m a, s') \<and> reading sy m n s' \<and> True \<and>
      (\<forall>x\<in>mapped sy m. user_byte sy m x = user_byte sy m x) \<and>
      (\<forall>x\<in>{a. unat a < n}. snd s' ! unat x = snd s ! unat x)"
    using load_user by fastforce
next
  fix s :: "mm \<times> Byte list" and a :: DWord and b
  assume s: "reading sy m n s" and a: "a \<in> {a. unat a < n}"
  have "st_local s a b = Some (fst s, (snd s)[unat a := b])"
    using s a by (simp add: st_local_def buf_store_def reading_def)
  moreover have "(snd s)[unat a := b] ! unat x = (if x = a then b else snd s ! unat x)" if "unat x < n" for x :: DWord
    using s a by (auto simp: reading_def nth_list_update word_unat_eq_iff)
  ultimately show "\<exists>s'. st_local s a b = Some s' \<and> reading sy m n s' \<and> True \<and>
      (\<forall>x\<in>mapped sy m. user_byte sy m x = user_byte sy m x) \<and>
      (\<forall>x\<in>{a. unat a < n}. snd s' ! unat x = (if x = a then b else snd s ! unat x))"
    using s by (auto simp: reading_def)
qed auto

text \<open>A copy from mapped addresses fills the array with the user's bytes.\<close>

lemma copy_from_user_data:
  "copy_from_user ld st p q sz s = map_option (Pair 0) (copy_data ld st p q sz s)"
  by (cases "copy_dwords ld st p q sz s") (auto simp: copy_from_user_def copy_data_def map_option_case split: option.split)

lemma copy_user_ok:
  assumes "0 \<le> sz" and "sz < 2 ^ 31" and "\<And>i. i < nat sz \<Longrightarrow> p + of_nat i \<in> mapped sy m"
  shows "\<exists>m'. copy_from_user (ld_user sy) st_local p 0 sz (m, replicate (nat sz) 0) =
      Some (0, m', map (\<lambda>i. user_byte sy m (p + of_nat i)) [0..<nat sz]) \<and> same_but sy {} m m'"
proof -
  let ?n = "nat sz" and ?s = "(m, replicate (nat sz) (0 :: Byte))"
  have n: "?n < 2 ^ 31" using assms(2) by simp
  have "reading sy m ?n ?s" by (simp add: reading_def same_but_refl)
  moreover have "0 + of_nat i \<in> {a :: DWord. unat a < ?n}" if "i < ?n" for i using that n by simp
  ultimately obtain s' where s': "copy_data (ld_user sy) st_local p 0 sz ?s = Some s'"
    "user_copy.copied sy m ?n ?n p 0 ?s s'"
    using user_copy.copy_data_ok [of sy m ?n ?s sz p 0] assms n by auto
  have "snd s' = map (\<lambda>i. user_byte sy m (p + of_nat i)) [0..<?n]"
  proof (rule nth_equalityI)
    show "length (snd s') = length (map (\<lambda>i. user_byte sy m (p + of_nat i)) [0..<?n])"
      using s'(2) by (simp add: user_copy.copied_def reading_def)
    fix i assume "i < length (snd s')"
    then have i: "i < ?n" using s'(2) by (simp add: user_copy.copied_def reading_def)
    have u: "unat (of_nat i :: DWord) = i" using i n by simp
    have "\<forall>x\<in>{a. unat a < ?n}. snd s' ! unat x = (if unat (x - 0) < ?n then user_byte sy m (p + (x - 0)) else snd ?s ! unat x)"
      using s'(2) unfolding user_copy.copied_def by blast
    from this [rule_format, of "of_nat i"] show "snd s' ! i = map (\<lambda>i. user_byte sy m (p + of_nat i)) [0..<?n] ! i"
      using i u by simp
  qed
  moreover have "same_but sy {} m (fst s')" using s'(2) by (simp add: user_copy.copied_def reading_def)
  ultimately show ?thesis using s'(1) by (cases s') (simp add: copy_from_user_data)
qed

section \<open>The invariant and user accesses\<close>

lemma mem_ok_same_but:
  assumes "mem_ok sy m L r" and "same_but sy F m m'"
  shows "mem_ok sy m' L r"
proof -
  have eq: "m' = m\<lparr>ram := ram m', tlb := tlb m'\<rparr>" using assms(2) by (simp add: same_but_def)
  have f: "phys_mem m' = phys_mem m" "dir_pages m' = dir_pages m" "pagusr_table m' = pagusr_table m" "cr3 m' = cr3 m"
    by (subst eq, simp)+
  have "frames_ok m' (L \<times> {..<NUM_PAG_DATA})"
    by (rule frames_ok_cong [of m]) (use assms(1) f in \<open>simp_all add: mem_ok_def\<close>)
  moreover have "coherent sy m'"
    unfolding coherent_def
  proof (intro allI impI)
    fix page e assume "tlb m' page = Some e"
    then have "effective sy m' page = Some e" by (simp add: effective_def)
    then have "effective sy m page = Some e" using assms(2) by (simp add: same_but_def)
    then have "walk sy m page = Some e" using assms(1) coherent_effective by (simp add: mem_ok_def)
    then show "walk sy m' page = Some e" using walk_cong [OF f(4,2,3)] by simp
  qed
  ultimately show ?thesis using assms(1) f by (simp add: mem_ok_def dirs_ok_def)
qed

text \<open>The 28 user pages are mapped for every live process.\<close>

definition user_area :: "DWord set" where
  "user_area = {a. PAG_LOG_INIT_DATA \<le> page_of a \<and> page_of a < PAG_LOG_INIT_CODE + NUM_PAG_CODE}"

lemma user_page_cases:
  assumes "PAG_LOG_INIT_DATA \<le> page" and "page < PAG_LOG_INIT_CODE + NUM_PAG_CODE"
  obtains p where "p < NUM_PAG_DATA" "page = PAG_LOG_INIT_DATA + p"
    | c where "c < NUM_PAG_CODE" "page = PAG_LOG_INIT_CODE + c"
proof (cases "page < PAG_LOG_INIT_CODE")
  case True
  then show ?thesis using assms that(1) [of "page - PAG_LOG_INIT_DATA"] by (simp add: zeos_consts)
next
  case False
  then show ?thesis using assms that(2) [of "page - PAG_LOG_INIT_CODE"] by simp
qed

lemma user_area_mapped:
  assumes sy: "linked sy" and ok: "mem_ok sy m L r" and r: "r \<in> L" and a: "a \<in> user_area"
  shows "effective sy m (page_of a) = Some (pagusr_table m r (page_of a))"
proof -
  have dirs: "dirs_ok sy m" "r < NR_TASKS" "cr3 m = dir_addr sy r" "coherent sy m" using ok by (simp_all add: mem_ok_def)
  have bound: "PAG_LOG_INIT_DATA \<le> page_of a" "page_of a < PAG_LOG_INIT_CODE + NUM_PAG_CODE"
    using a by (simp_all add: user_area_def)
  have "present (pagusr_table m r (page_of a)) = 1"
    using bound
  proof (cases rule: user_page_cases)
    case (1 p)
    have "frames_ok m (L \<times> {..<NUM_PAG_DATA})" using ok by (simp add: mem_ok_def)
    then have "pagusr_table m r (PAG_LOG_INIT_DATA + p) = user_rw_entry (of_nat (data_frame m r p))"
      using r 1(1) unfolding frames_ok_def by blast
    then show ?thesis using 1(2) by simp
  next
    case (2 c)
    then show ?thesis using ok r by (simp add: mem_ok_def)
  qed
  moreover have "page_of a < TOTAL_PAGES" using bound by (simp add: zeos_consts)
  ultimately show ?thesis
    using walk_user [OF sy dirs(1-3), of "page_of a"] coherent_effective [OF dirs(4)] by simp
qed

lemma beyond_unmapped:
  assumes sy: "linked sy" and ok: "mem_ok sy m L r" and a: "page_of a = PAG_LOG_INIT_CODE + NUM_PAG_CODE"
  shows "effective sy m (page_of a) = None"
proof -
  have b: "page_of a < TOTAL_PAGES" by (simp add: a zeos_consts)
  have "pagusr_table m r (page_of a) = 0" using ok b a by (simp add: mem_ok_def outside_ok_def)
  then show ?thesis
    using ok walk_user [OF sy _ _ _ b, of m r] coherent_effective [of sy m] by (simp add: mem_ok_def)
qed

text \<open>
  What a user-mode access of the running process can reach: its own data frames, and the
  program text, which it cannot write.
\<close>

lemma user_access:
  assumes sy: "linked sy" and ok: "mem_ok sy m L r" and r: "r \<in> L"
    and w: "effective sy m page = Some e" "user e = 1"
  shows "(\<exists>p<NUM_PAG_DATA. page = PAG_LOG_INIT_DATA + p \<and> e = user_rw_entry (of_nat (data_frame m r p))) \<or>
    (\<exists>c<NUM_PAG_CODE. page = PAG_LOG_INIT_CODE + c \<and> e = user_entry (of_nat (code_frame c)))"
proof -
  have dirs: "dirs_ok sy m" "r < NR_TASKS" "cr3 m = dir_addr sy r" "coherent sy m" "outside_ok (pagusr_table m r)"
    and fr: "frames_ok m (L \<times> {..<NUM_PAG_DATA})"
    using ok by (simp_all add: mem_ok_def)
  have we: "walk sy m page = Some e" using w(1) coherent_effective [OF dirs(4)] by simp
  then have t: "page < TOTAL_PAGES" using walk_beyond [OF dirs(1-3)] by (cases "page < TOTAL_PAGES") auto
  have e: "e = pagusr_table m r page" "present e \<noteq> 0"
    using we walk_user [OF sy dirs(1-3) t] by (auto split: if_splits)
  have hi: "page < PAG_LOG_INIT_CODE + NUM_PAG_CODE" using e dirs(5) t by (auto simp: outside_ok_def not_less)
  have lo: "PAG_LOG_INIT_DATA \<le> page"
  proof (rule ccontr)
    assume "\<not> PAG_LOG_INIT_DATA \<le> page"
    then have "user e = 0" using dirs(5) e(1) by (simp add: outside_ok_def initial_table_def)
    with w(2) show False by simp
  qed
  show ?thesis
    using lo hi
  proof (cases rule: user_page_cases)
    case (1 p)
    have "pagusr_table m r (PAG_LOG_INIT_DATA + p) = user_rw_entry (of_nat (data_frame m r p))"
      using fr r 1(1) unfolding frames_ok_def by blast
    with 1 e show ?thesis by blast
  next
    case (2 c)
    then show ?thesis using ok r e by (auto simp: mem_ok_def)
  qed
qed

text \<open>The user-mode translations, exactly.\<close>

lemma user_view:
  assumes sy: "linked sy" and ok: "mem_ok sy m L r" and r: "r \<in> L"
  shows "{(page, e). effective sy m page = Some e \<and> user e = 1} =
    (\<lambda>p. (PAG_LOG_INIT_DATA + p, user_rw_entry (of_nat (data_frame m r p)))) ` {..<NUM_PAG_DATA} \<union>
    (\<lambda>c. (PAG_LOG_INIT_CODE + c, user_entry (of_nat (code_frame c)))) ` {..<NUM_PAG_CODE}" (is "?U = ?D \<union> ?C")
proof
  show "?U \<subseteq> ?D \<union> ?C" using user_access [OF sy ok r] by fastforce
  have area: "effective sy m page = Some (pagusr_table m r page)"
    if "PAG_LOG_INIT_DATA \<le> page" "page < PAG_LOG_INIT_CODE + NUM_PAG_CODE" for page
  proof -
    have pg: "page_of (of_nat (4096 * page)) = page"
      using that(2) by (subst unat_page_of, subst unat_of_nat32) (simp_all add: zeos_consts)
    then have "of_nat (4096 * page) \<in> user_area" using that unfolding user_area_def by (simp del: of_nat_mult)
    from user_area_mapped [OF sy ok r this] show ?thesis unfolding pg .
  qed
  have "?D \<subseteq> ?U"
    using ok r by (auto simp: area zeos_consts mem_ok_def frames_ok_def)
  moreover have "?C \<subseteq> ?U"
    using ok r by (auto simp: area zeos_consts mem_ok_def)
  ultimately show "?D \<union> ?C \<subseteq> ?U" by blast
qed

section \<open>access_ok\<close>

text \<open>What the check decides, in pages: the comment in the source excludes the program text
  from writable memory, the code does not.\<close>

lemma access_ok_pages:
  "access_ok t a n \<longleftrightarrow> PAG_LOG_INIT_DATA \<le> page_of a \<and> page_of a \<le> page_of (a + n) \<and>
    page_of (a + n) \<le> PAG_LOG_INIT_CODE + NUM_PAG_CODE"
  by (auto simp: access_ok_def Let_def page_of_def word_le_nat_alt word_less_nat_alt zeos_consts)

section \<open>The system call\<close>

text \<open>A copy into the local array never changes memory, whether it succeeds or not.\<close>

interpretation user_reads: tracked_memory "ld_user sy" st_local "\<lambda>s s'. same_but sy {} (fst s) (fst s')"
  for sy
proof unfold_locales
  show "same_but sy {} (fst s) (fst s')" if "ld_user sy s a = Some (b, s')" for s s' a b
    using that by (auto simp: ld_user_def bind_Some_iff dest: load8_same split: prod.splits)
  show "same_but sy {} (fst s) (fst s')" if "st_local s a b = Some s'" for s s' a b
    using that by (auto simp: st_local_def bind_Some_iff same_but_refl)
qed (auto simp: same_but_refl intro: same_but_trans)


lemma sys_write_errors:
  assumes "vla_fits sy k sz"
  shows "fd \<noteq> 1 \<Longrightarrow> sys_write sy fd buf sz k = Some (-9, k)"
    and "buf = 0 \<Longrightarrow> sys_write sy 1 buf sz k = Some (-22, k)"
    and "buf \<noteq> 0 \<Longrightarrow> \<not> access_ok VERIFY_READ buf sz \<Longrightarrow> sys_write sy 1 buf sz k = Some (-13, k)"
  using assms by (auto simp: sys_write_def check_fd_def ESCRIPTURA_def vla_fits_def)

lemma range_user_area:
  assumes "PAG_LOG_INIT_DATA \<le> page_of buf" and "unat buf + n \<le> 4096 * (PAG_LOG_INIT_CODE + NUM_PAG_CODE)" and "i < n"
  shows "buf + of_nat i \<in> user_area"
proof -
  have i: "unat (of_nat i :: DWord) = i" using assms(2,3) by (intro unat_of_nat32) (simp add: zeos_consts)
  have "unat (buf + of_nat i) = unat buf + i"
    using assms(2,3) i by (subst unat_add32) (simp_all add: zeos_consts)
  then show ?thesis
    using assms by (auto simp: user_area_def unat_page_of zeos_consts)
qed

text \<open>
  With a range inside the user area, exactly the caller's bytes reach the console and the
  call returns their number.
\<close>

lemma sys_write_result:
  assumes sy: "linked sy" and ok: "kernel_ok sy k a" and r: "running a \<noteq> 0" and vla: "vla_fits sy k sz"
    and sz: "0 < sint sz" and acc: "access_ok VERIFY_READ buf sz"
    and fits: "unat buf + nat (sint sz) \<le> 4096 * (PAG_LOG_INIT_CODE + NUM_PAG_CODE)"
  shows "\<exists>m. same_but sy {} (mem k) m \<and> (let k' = k\<lparr>mem := m,
      scr := fold printc (map (\<lambda>i. user_byte sy (mem k) (buf + of_nat i)) [0..<nat (sint sz)]) (scr k)\<rparr> in
    sys_write sy 1 buf sz k = Some (sz, k') \<and> kernel_ok sy k' a)"
proof -
  note D = kernel_okD [OF ok]
  let ?n = "nat (sint sz)" and ?bytes = "map (\<lambda>i. user_byte sy (mem k) (buf + of_nat i)) [0..<nat (sint sz)]"
  have page: "PAG_LOG_INIT_DATA \<le> page_of buf" using acc by (simp add: access_ok_pages)
  have b0: "buf \<noteq> 0" using page by (auto simp: page_of_def zeos_consts)
  have "buf + of_nat i \<in> mapped sy (mem k)" if "i < ?n" for i
    using user_area_mapped [OF sy D(10), of "buf + of_nat i"] range_user_area [OF page fits that] r
    by (simp add: mapped_def)
  moreover have "sint sz < 2 ^ 31" using sint_lt [of sz] by simp
  ultimately obtain m' where m': "copy_from_user (ld_user sy) st_local buf 0 (sint sz) (mem k, replicate ?n 0) =
      Some (0, m', ?bytes)" "same_but sy {} (mem k) m'"
    using copy_user_ok [of "sint sz" buf sy "mem k"] sz by auto
  let ?k = "k\<lparr>mem := m', scr := fold printc ?bytes (scr k)\<rparr>"
  have "sys_write sy 1 buf sz k = Some (sz, ?k)"
    using vla sz b0 acc m'(1) sys_write_console_spec [of sz ?bytes "scr k"]
    by (simp add: sys_write_def check_fd_def ESCRIPTURA_def)
  moreover have "tables_ok sy ?k a"
    using D(8) by (rule tables_ok_cong) (use D(5) in \<open>simp_all add: console.ok_fold\<close>)
  then have "kernel_ok sy ?k a"
    using ok mem_ok_same_but [OF D(10) m'(2)] by (simp add: kernel_ok_def)
  ultimately show ?thesis using m'(2) unfolding Let_def by blast
qed

lemma sys_write_ok:
  assumes "linked sy" and "kernel_ok sy k a" and "running a \<noteq> 0" and "vla_fits sy k sz"
    and "0 < sint sz" and "access_ok VERIFY_READ buf sz"
    and "unat buf + nat (sint sz) \<le> 4096 * (PAG_LOG_INIT_CODE + NUM_PAG_CODE)"
  shows "\<exists>k'. sys_write sy 1 buf sz k = Some (sz, k') \<and> kernel_ok sy k' a \<and>
    port_e9 (scr k') = port_e9 (scr k) @
      map (\<lambda>i. user_byte sy (mem k) (buf + of_nat i)) [0..<nat (sint sz)]"
  using sys_write_result [OF assms] unfolding Let_def by (auto simp: console.out_fold)

lemma user_byte_same: "same_but sy {} m m' \<Longrightarrow> user_byte sy m' = user_byte sy m"
  by (intro ext) (simp add: user_byte_def same_but_def split: option.split)

text \<open>
  The check admits one page too many: a buffer that starts right after the user area passes
  it, and the copy then faults inside the kernel.
\<close>

lemma sys_write_faults:
  assumes sy: "linked sy" and ok: "kernel_ok sy k a" and buf: "page_of buf = PAG_LOG_INIT_CODE + NUM_PAG_CODE"
    and sz: "0 < sint sz" and acc: "access_ok VERIFY_READ buf sz"
  shows "sys_write sy 1 buf sz k = None"
proof -
  have "translate sy (mem k) (page_of buf) = None"
    by (rule translate_unmapped) (rule beyond_unmapped [OF sy kernel_okD(10) [OF ok] buf])
  then have ld: "ld_user sy (mem k, b) buf = None" for b by (simp add: ld_user_def load8_def)
  then have "load_bytes (ld_user sy) 4 buf (mem k, b) = None" for b
    by (simp add: numeral_eq_Suc)
  then have "copy_from_user (ld_user sy) st_local buf 0 (sint sz) (mem k, b) = None" for b
    using sz ld by (simp add: copy_from_user_def copy_dwords.simps [of _ _ buf] copy_tail.simps [of _ _ buf])
  moreover have "buf \<noteq> 0" using buf by (auto simp: page_of_def zeos_consts)
  ultimately show ?thesis using sz acc by (simp add: sys_write_def check_fd_def ESCRIPTURA_def Let_def)
qed

end
