(* ===== verification/Boot.thy ===== *)
theory Boot
  imports Interrupt Write
begin

text \<open>
  System start: \<^verbatim>\<open>init_mm\<close>, \<^verbatim>\<open>setGdt\<close> and \<^verbatim>\<open>setTSS\<close> of
  \<^verbatim>\<open>mm.c\<close> and \<^verbatim>\<open>main\<close> of \<^verbatim>\<open>system.c\<close> with the hardware
  routines of \<^verbatim>\<open>hardware.c\<close> it calls, up to the return to user mode. The theory
  shows that \<^verbatim>\<open>main\<close> establishes the kernel invariant.
\<close>

section \<open>The machine\<close>

text \<open>The kernel state with the descriptor tables, the registers that point at them, the
  flags and segment registers, the stack pointer of \<^verbatim>\<open>main\<close>, the interrupt mask of port
  \<^verbatim>\<open>0x21\<close> and the user context \<^verbatim>\<open>lret\<close> loads.\<close>

record machine =
  ker :: kernel
  idt :: idt_t
  idt_reg :: Register
  gdt :: "nat \<Rightarrow> Descriptor"
  gdt_reg :: Register
  ldt_reg :: Word16
  task_reg :: Word16
  eflags :: DWord
  ds_reg :: Word16
  es_reg :: Word16
  fs_reg :: Word16
  gs_reg :: Word16
  ss_reg :: Word16
  main_esp :: DWord
  int_mask :: Byte
  user_cs :: Word16
  user_eip :: DWord
  user_ss :: Word16
  user_esp :: DWord

definition on_ker :: "(kernel \<Rightarrow> kernel option) \<Rightarrow> machine \<Rightarrow> machine option" where
  "on_ker f M = do { k \<leftarrow> f (ker M); Some (M\<lparr>ker := k\<rparr>) }"

section \<open>hardware.c\<close>

definition get_eflags :: "machine \<Rightarrow> DWord" where
  "get_eflags M = eflags M"

text \<open>Bit 1 of the register is always set.\<close>

definition set_eflags :: "machine \<Rightarrow> machine" where
  "set_eflags M = M\<lparr>eflags := 0 OR 2\<rparr>"

definition set_idt_reg :: "Register \<Rightarrow> machine \<Rightarrow> machine" where
  "set_idt_reg r M = M\<lparr>idt_reg := r\<rparr>"

definition set_gdt_reg :: "Register \<Rightarrow> machine \<Rightarrow> machine" where
  "set_gdt_reg r M = M\<lparr>gdt_reg := r\<rparr>"

definition set_ldt_reg :: "Word16 \<Rightarrow> machine \<Rightarrow> machine" where
  "set_ldt_reg s M = M\<lparr>ldt_reg := s\<rparr>"

definition set_task_reg :: "Word16 \<Rightarrow> machine \<Rightarrow> machine" where
  "set_task_reg s M = M\<lparr>task_reg := s\<rparr>"

text \<open>A jump to the next instruction.\<close>

definition delay :: "machine \<Rightarrow> machine" where
  "delay M = M"

text \<open>\<^verbatim>\<open>sti\<close> sets the interrupt flag, bit 9.\<close>

definition enable_int :: "machine \<Rightarrow> machine" where
  "enable_int M = (let M = delay (M\<lparr>int_mask := 0xfc\<rparr>) in M\<lparr>eflags := eflags M OR 0x200\<rparr>)"

text \<open>\<^verbatim>\<open>cpu_idle\<close> of \<^verbatim>\<open>sched.c\<close> turns interrupts on and loops.\<close>

partial_function (option) idle_loop :: "machine \<Rightarrow> machine option" where
  "idle_loop M = idle_loop M"

definition cpu_idle :: "machine \<Rightarrow> machine option" where
  "cpu_idle M = idle_loop (M\<lparr>eflags := eflags M OR 0x200\<rparr>)"

lemma cpu_idle_never_returns: "cpu_idle M = None"
proof -
  have "False" if "idle_loop M = Some M'" for M M'
    using idle_loop.raw_induct [of "\<lambda>_ _. False" M M'] that by blast
  then show ?thesis unfolding cpu_idle_def by (cases "idle_loop (M\<lparr>eflags := eflags M OR 0x200\<rparr>)") auto
qed

section \<open>mm.c\<close>

definition init_mm :: "symbols \<Rightarrow> kernel \<Rightarrow> kernel" where
  "init_mm sy k =
     (let k = k\<lparr>mem := init_table_pages (mem k)\<rparr>;
          k = k\<lparr>mem := (mem k)\<lparr>phys_mem := init_frames (phys_mem (mem k))\<rparr>\<rparr>;
          k = k\<lparr>mem := init_dir_pages sy (mem k)\<rparr>;
          k = allocate_DIR sy 0 k;
          k = k\<lparr>mem := set_cr3 (get_DIR 0 k) (mem k)\<rparr>
      in k\<lparr>mem := set_pe_flag (mem k)\<rparr>)"

definition setGdt :: "symbols \<Rightarrow> machine \<Rightarrow> machine" where
  "setGdt sy M =
     (let e = unat (drop_bit 3 KERNEL_TSS); d = gdt M e;
          d = d\<lparr>lowBase := lowWord (a_tss sy)\<rparr>;
          d = d\<lparr>midBase := midByte (a_tss sy)\<rparr>;
          d = d\<lparr>highBase := highByte (a_tss sy)\<rparr>
      in set_gdt_reg \<lparr>r_limit = of_nat (256 * 8), r_base = GDT_START\<rparr> (M\<lparr>gdt := (gdt M)(e := d)\<rparr>))"

definition INITIAL_ESP :: "symbols \<Rightarrow> DWord" where
  "INITIAL_ESP sy = stack_addr sy 1 KERNEL_STACK_SIZE"

definition initial_tss :: "symbols \<Rightarrow> TSS" where
  "initial_tss sy = \<lparr>PreviousTaskLink = 0, esp0 = INITIAL_ESP sy, ss0 = KERNEL_DS, esp1 = 0, ss1 = 0,
     esp2 = 0, ss2 = 0, tss_cr3 = 0, tss_eip = 0, eFlags = INITIAL_EFLAGS, tss_eax = 0, tss_ecx = 0,
     tss_edx = 0, tss_ebx = 0, tss_esp = USER_ESP, tss_ebp = USER_ESP, tss_esi = 0, tss_edi = 0,
     tss_es = USER_DS, tss_cs = USER_CS, tss_ss = USER_DS, tss_ds = USER_DS, tss_fs = 0, tss_gs = 0,
     LDTSegmentSelector = KERNEL_TSS, debugTrap = 0, IOMapBaseAddress = 0\<rparr>"

definition setTSS :: "symbols \<Rightarrow> machine \<Rightarrow> machine" where
  "setTSS sy M = set_task_reg KERNEL_TSS (M\<lparr>ker := (ker M)\<lparr>tss := initial_tss sy\<rparr>\<rparr>)"

section \<open>system.c\<close>

definition dword_of :: "Byte list \<Rightarrow> DWord" where
  "dword_of bs = foldr (\<lambda>b w. ucast b OR push_bit 8 w) bs 0"

definition bytes_of :: "DWord \<Rightarrow> Byte list" where
  "bytes_of w = [ucast w, ucast (drop_bit 8 w), ucast (drop_bit 16 w), ucast (drop_bit 24 w)]"

text \<open>\<^verbatim>\<open>*p\<close> for a pointer to \<^verbatim>\<open>unsigned int\<close>.\<close>

definition load_dword :: "symbols \<Rightarrow> DWord \<Rightarrow> kernel \<Rightarrow> (DWord \<times> kernel) option" where
  "load_dword sy p k = do {
     (bs, m) \<leftarrow> load_bytes (load8 sy) 4 p (mem k);
     Some (dword_of bs, k\<lparr>mem := m\<rparr>) }"

text \<open>The program text starts after the data pages (\<^verbatim>\<open>usr_main\<close>).\<close>

definition usr_main :: DWord where
  "usr_main = of_nat (PAG_LOG_INIT_CODE * PAGE_SIZE)"

text \<open>Moving the user image from behind the kernel to the first process.\<close>

definition load_user_image :: "symbols \<Rightarrow> kernel \<Rightarrow> kernel option" where
  "load_user_image sy k = do {
     (sys_size, k) \<leftarrow> load_dword sy KERNEL_START k;
     (usr_size, k) \<leftarrow> load_dword sy (KERNEL_START + 4) k;
     on_mem (copy_data (load8 sy) (store8 sy) (KERNEL_START + sys_size) (of_nat L_USER_START) (sint usr_size)) k }"

text \<open>\<^verbatim>\<open>cld\<close> clears the direction flag, bit 10.\<close>

definition set_seg_regs :: "Word16 \<Rightarrow> Word16 \<Rightarrow> DWord \<Rightarrow> machine \<Rightarrow> machine" where
  "set_seg_regs data_sel stack_sel sp M =
     (let sp = sp - 5 * 4 in
      M\<lparr>eflags := eflags M AND NOT 0x400, ds_reg := data_sel, es_reg := data_sel, fs_reg := data_sel, gs_reg := data_sel,
        ss_reg := stack_sel, main_esp := sp\<rparr>)"

text \<open>\<^verbatim>\<open>return_gate\<close> of \<^verbatim>\<open>hardware.c\<close> stores \<^verbatim>\<open>*p_rdtr\<close> on the user stack
  before it leaves. The \<^verbatim>\<open>lret\<close> to an outer privilege level clears the segment registers
  that still hold a selector of an inner level.\<close>

definition outer_selector :: "machine \<Rightarrow> Word16 \<Rightarrow> Word16" where
  "outer_selector M x = (if unat (drop_bit 5 (flags1 (gdt M (unat (drop_bit 3 x)))) AND 3) < 3 then 0 else x)"

definition return_gate :: "symbols \<Rightarrow> Word16 \<Rightarrow> Word16 \<Rightarrow> DWord \<Rightarrow> Word16 \<Rightarrow> DWord \<Rightarrow> machine \<Rightarrow> machine option" where
  "return_gate sy uds ss uesp cs ueip M = do {
     let M = M\<lparr>es_reg := uds\<rparr>;
     let M = M\<lparr>ds_reg := uds\<rparr>;
     (rdtr, k) \<leftarrow> load_dword sy (KERNEL_START + 8) (ker M);
     k \<leftarrow> on_mem (store_bytes (store8 sy) (uesp + 12) (bytes_of rdtr)) k;
     let M = M\<lparr>ker := k, user_ss := ss, user_esp := uesp, user_cs := cs, user_eip := ueip\<rparr>;
     Some (M\<lparr>ds_reg := outer_selector M (ds_reg M), es_reg := outer_selector M (es_reg M), fs_reg := outer_selector M (fs_reg M),
             gs_reg := outer_selector M (gs_reg M)\<rparr>) }"

definition main :: "(idt_t \<Rightarrow> idt_t) \<Rightarrow> symbols \<Rightarrow> entry_points \<Rightarrow> machine \<Rightarrow> machine option" where
  "main set_handlers sy ep M = do {
     let M = set_eflags M;
     let M = set_seg_regs KERNEL_DS KERNEL_DS (task_addr sy 4) M;
     M \<leftarrow> on_ker (on_scr (printk (lit ''Kernel Loaded!    ''))) M;
     let M = setGdt sy M;
     (t, r) \<leftarrow> setIdt set_handlers sy ep (idt M);
     let M = set_idt_reg r (M\<lparr>idt := t\<rparr>);
     let M = setTSS sy M;
     M \<leftarrow> on_ker (\<lambda>k. Some (init_mm sy k)) M;
     M \<leftarrow> on_ker init_sched M;
     M \<leftarrow> on_ker (init_idle sy) M;
     M \<leftarrow> on_ker (init_task1 sy) M;
     M \<leftarrow> on_ker (load_user_image sy) M;
     M \<leftarrow> on_ker (on_scr (printk (lit ''Entering user mode...''))) M;
     let M = enable_int M;
     return_gate sy USER_DS USER_DS USER_ESP USER_CS usr_main M }"

section \<open>Initial page tables\<close>

lemma fold_set_pte:
  assumes "distinct xs"
  shows "pagusr_table (fold (\<lambda>i m. set_pte j i (g i (pagusr_table m j i)) m) xs m) j' i =
    (if j' = j \<and> i \<in> set xs then g i (pagusr_table m j i) else pagusr_table m j' i)"
  using assms by (induction xs arbitrary: m) auto

text \<open>Page-table writes leave the rest of the memory manager alone.\<close>

lemma set_pte_only: "set_pte j i e m = m\<lparr>pagusr_table := pagusr_table (set_pte j i e m)\<rparr>"
  by (simp add: set_pte_def)

definition tables_only :: "mm \<Rightarrow> mm \<Rightarrow> bool" where
  "tables_only m m' \<longleftrightarrow> m' = m\<lparr>pagusr_table := pagusr_table m'\<rparr>"

lemma tables_only_trans: "tables_only m m' \<Longrightarrow> tables_only m' m'' \<Longrightarrow> tables_only m m''"
  by (simp add: tables_only_def) (metis mm.surjective mm.update_convs(3))

lemma tables_only_fold: "(\<And>x m. x \<in> set xs \<Longrightarrow> tables_only m (f x m)) \<Longrightarrow> tables_only m (fold f xs m)"
proof (induction xs arbitrary: m)
  case (Cons x xs)
  have "tables_only m (f x m)" "tables_only (f x m) (fold f xs (f x m))" using Cons by auto
  then show ?case using tables_only_trans by simp
qed (simp add: tables_only_def)

lemma tables_only_set_pte: "tables_only m (set_pte j i e m)"
  unfolding tables_only_def by (rule set_pte_only)

definition table_row :: "nat \<Rightarrow> mm \<Rightarrow> mm" where
  "table_row j m = fold (\<lambda>i m. set_pte j i (set_present 1 (set_rw 1 (set_pbase_addr (of_nat i) (pagusr_table m j i)))) m)
     [1..<NUM_PAG_KERNEL] (fold (\<lambda>i m. set_pte j i 0 m) [0..<TOTAL_PAGES] m)"

lemma init_table_pages_rows: "init_table_pages m = fold table_row [0..<NR_TASKS] m"
  unfolding init_table_pages_def table_row_def set_pte_def Let_def ..

lemma table_row_entry:
  "pagusr_table (table_row j m) j' i =
    (if j' = j \<and> i < TOTAL_PAGES then initial_table i else pagusr_table m j' i)"
proof -
  let ?m = "fold (\<lambda>i m. set_pte j i 0 m) [0..<TOTAL_PAGES] m"
  have z: "pagusr_table ?m j' i = (if j' = j \<and> i < TOTAL_PAGES then 0 else pagusr_table m j' i)" for j' i
    using fold_set_pte [of "[0..<TOTAL_PAGES]" j "\<lambda>_ _. 0" m] by simp
  have "pagusr_table (table_row j m) j' i = (if j' = j \<and> i \<in> set [1..<NUM_PAG_KERNEL]
      then set_present 1 (set_rw 1 (set_pbase_addr (of_nat i) (pagusr_table ?m j i))) else pagusr_table ?m j' i)"
    unfolding table_row_def by (rule fold_set_pte) simp
  moreover have "i < NUM_PAG_KERNEL \<Longrightarrow> i < TOTAL_PAGES" by (simp add: zeos_consts)
  ultimately show ?thesis by (auto simp: z initial_table_def kernel_entry_def)
qed

lemma rows_entry:
  "pagusr_table (fold table_row js m) j i =
    (if j \<in> set js \<and> i < TOTAL_PAGES then initial_table i else pagusr_table m j i)"
  by (induction js arbitrary: m) (auto simp: table_row_entry)

lemma init_table_pages_entry:
  "pagusr_table (init_table_pages m) j i =
    (if j < NR_TASKS \<and> i < TOTAL_PAGES then initial_table i else pagusr_table m j i)"
  by (simp add: init_table_pages_rows rows_entry)

lemma init_table_pages_only: "tables_only m (init_table_pages m)"
  unfolding init_table_pages_rows table_row_def
  by (intro tables_only_fold tables_only_trans [OF tables_only_fold tables_only_fold] tables_only_set_pte)

lemma init_dir_pages_entry:
  "dir_pages (init_dir_pages sy m) i d =
    (if i < NR_TASKS \<and> d = ENTRY_DIR_PAGES then user_rw_entry (drop_bit 12 (pt_addr sy i)) else dir_pages m i d)"
proof -
  have "dir_pages (fold (\<lambda>i m. m\<lparr>dir_pages := (dir_pages m)(i := (dir_pages m i)
       (ENTRY_DIR_PAGES := user_rw_entry (drop_bit 12 (pt_addr sy i))))\<rparr>) xs m) i d =
    (if i \<in> set xs \<and> d = ENTRY_DIR_PAGES then user_rw_entry (drop_bit 12 (pt_addr sy i)) else dir_pages m i d)" for xs
    by (induction xs arbitrary: m) auto
  then show ?thesis by (simp add: init_dir_pages_def)
qed

lemma init_dir_pages_fields:
  "pagusr_table (init_dir_pages sy m) = pagusr_table m" "phys_mem (init_dir_pages sy m) = phys_mem m"
  "ram (init_dir_pages sy m) = ram m"
proof -
  let ?f = "\<lambda>i m. m\<lparr>dir_pages := (dir_pages m)(i := (dir_pages m i)
       (ENTRY_DIR_PAGES := user_rw_entry (drop_bit 12 (pt_addr sy i))))\<rparr>"
  have "pagusr_table (fold ?f xs m) = pagusr_table m \<and> phys_mem (fold ?f xs m) = phys_mem m \<and>
      ram (fold ?f xs m) = ram m" for xs
    by (induction xs arbitrary: m) auto
  then show "pagusr_table (init_dir_pages sy m) = pagusr_table m" "phys_mem (init_dir_pages sy m) = phys_mem m"
    "ram (init_dir_pages sy m) = ram m" by (simp_all add: init_dir_pages_def)
qed

section \<open>The first process\<close>

lemma alloc_code_frame:
  assumes "avail_frames fm = user_frames - code_frame ` {..<n}" and "n < NUM_PAG_CODE"
  shows "alloc_frame fm = (int (code_frame n), fm(code_frame n := USED_FRAME))"
    and "avail_frames (fm(code_frame n := USED_FRAME)) = user_frames - code_frame ` {..<Suc n}"
proof -
  have n: "code_frame n \<in> avail_frames fm"
    using assms by (auto simp: code_frame_def user_frames_def zeos_consts)
  have le: "code_frame n \<le> g" if g: "g \<in> avail_frames fm" for g
  proof (rule ccontr)
    assume "\<not> code_frame n \<le> g"
    moreover have "NUM_PAG_KERNEL \<le> g" "even g" using g assms(1) by (auto simp: user_frames_def)
    ultimately have "g = code_frame ((g - NUM_PAG_KERNEL) div 2)" "(g - NUM_PAG_KERNEL) div 2 < n"
      by (auto simp: code_frame_def zeos_consts)
    then have "g \<in> code_frame ` {..<n}" by blast
    with g assms(1) show False by blast
  qed
  show "alloc_frame fm = (int (code_frame n), fm(code_frame n := USED_FRAME))"
  proof (cases fm rule: alloc_frame_cases)
    case (found f)
    then have "f = code_frame n" using le [of f] n by (simp add: le_antisym)
    with found show ?thesis by simp
  qed (use n in simp)
  show "avail_frames (fm(code_frame n := USED_FRAME)) = user_frames - code_frame ` {..<Suc n}"
  proof (cases fm rule: alloc_frame_cases)
    case (found f)
    then have "f = code_frame n" using le [of f] n by (simp add: le_antisym)
    with found(4) assms(1) show ?thesis by (auto simp: lessThan_Suc)
  qed (use n in simp)
qed

definition allocs_only :: "mm \<Rightarrow> mm \<Rightarrow> bool" where
  "allocs_only m m' \<longleftrightarrow> m' = m\<lparr>phys_mem := phys_mem m', pagusr_table := pagusr_table m'\<rparr>"

lemma allocs_only_step:
  "allocs_only (set_pte j page e (m\<lparr>phys_mem := fm\<rparr>)) m' \<Longrightarrow> allocs_only m m'"
  by (cases m; cases m') (simp add: allocs_only_def set_pte_def)

lemma map_code_pages:
  assumes "avail_frames (phys_mem m) = user_frames - code_frame ` {..<n}" and "n \<le> NUM_PAG_CODE" and j: "j < NR_TASKS"
  shows "\<exists>m'. map_new_pages sy (pt_addr sy j) user_entry (map (\<lambda>c. PAG_LOG_INIT_CODE + c) [n..<NUM_PAG_CODE]) m = Some m' \<and>
    avail_frames (phys_mem m') = user_frames - code_frames \<and> allocs_only m m' \<and>
    (\<forall>i page. \<not> (i = j \<and> PAG_LOG_INIT_CODE + n \<le> page \<and> page < PAG_LOG_INIT_CODE + NUM_PAG_CODE) \<longrightarrow>
      pagusr_table m' i page = pagusr_table m i page) \<and>
    (\<forall>c<NUM_PAG_CODE. n \<le> c \<longrightarrow> pagusr_table m' j (PAG_LOG_INIT_CODE + c) = user_entry (of_nat (code_frame c)))"
  using assms(1,2)
proof (induction "NUM_PAG_CODE - n" arbitrary: n m)
  case 0
  then have "n = NUM_PAG_CODE" by simp
  with 0 show ?case by (intro exI [of _ m]) (simp add: code_frames_def allocs_only_def)
next
  case (Suc d)
  have n: "n < NUM_PAG_CODE" and d: "d = NUM_PAG_CODE - Suc n" using Suc.hyps(2) by linarith+
  let ?fm = "(phys_mem m)(code_frame n := USED_FRAME)"
  let ?m = "set_pte j (PAG_LOG_INIT_CODE + n) (user_entry (of_nat (code_frame n))) (m\<lparr>phys_mem := ?fm\<rparr>)"
  note al = alloc_code_frame [OF Suc.prems(1) n]
  obtain m' where m': "map_new_pages sy (pt_addr sy j) user_entry (map (\<lambda>c. PAG_LOG_INIT_CODE + c) [Suc n..<NUM_PAG_CODE]) ?m = Some m'"
    "avail_frames (phys_mem m') = user_frames - code_frames" "allocs_only ?m m'"
    "\<forall>i page. \<not> (i = j \<and> PAG_LOG_INIT_CODE + Suc n \<le> page \<and> page < PAG_LOG_INIT_CODE + NUM_PAG_CODE) \<longrightarrow>
      pagusr_table m' i page = pagusr_table ?m i page"
    "\<forall>c<NUM_PAG_CODE. Suc n \<le> c \<longrightarrow> pagusr_table m' j (PAG_LOG_INIT_CODE + c) = user_entry (of_nat (code_frame c))"
    using Suc.hyps(1) [OF d, of ?m] al(2) n by auto
  have "map_new_pages sy (pt_addr sy j) user_entry (map (\<lambda>c. PAG_LOG_INIT_CODE + c) [n..<NUM_PAG_CODE]) m = Some m'"
    using m'(1) al(1) j page_bounds(2) [OF n] by (simp add: upt_conv_Cons [OF n] layout_simps Let_def del: upt_Suc)
  moreover have "pagusr_table m' j (PAG_LOG_INIT_CODE + c) = user_entry (of_nat (code_frame c))"
    if "c < NUM_PAG_CODE" "n \<le> c" for c
    using m'(4,5) that by (cases "c = n") auto
  ultimately show ?case
    using m'(2,4) allocs_only_step [OF m'(3)] by (intro exI [of _ m']) auto
qed

lemma map_data_pages:
  assumes "frames_ok m ({j} \<times> {..<q})" and "q \<le> NUM_PAG_DATA" and j: "j < NR_TASKS"
  shows "\<exists>m'. map_new_pages sy (pt_addr sy j) user_rw_entry (map (\<lambda>c. PAG_LOG_INIT_DATA + c) [q..<NUM_PAG_DATA]) m = Some m' \<and>
    frames_ok m' ({j} \<times> {..<NUM_PAG_DATA}) \<and> allocs_only m m' \<and>
    (\<forall>i page. \<not> (i = j \<and> PAG_LOG_INIT_DATA + q \<le> page \<and> page < PAG_LOG_INIT_DATA + NUM_PAG_DATA) \<longrightarrow>
      pagusr_table m' i page = pagusr_table m i page)"
  using assms(1,2)
proof (induction "NUM_PAG_DATA - q" arbitrary: q m)
  case 0
  then have "q = NUM_PAG_DATA" by simp
  with 0 show ?case by (intro exI [of _ m]) (simp add: allocs_only_def)
next
  case (Suc d)
  have q: "q < NUM_PAG_DATA" and d: "d = NUM_PAG_DATA - Suc q" using Suc.hyps(2) by linarith+
  obtain f where f: "alloc_frame (phys_mem m) = (int f, (phys_mem m)(f := USED_FRAME))"
    "frames_ok (set_pte j (PAG_LOG_INIT_DATA + q) (user_rw_entry (of_nat f))
      (m\<lparr>phys_mem := (phys_mem m)(f := USED_FRAME)\<rparr>)) (insert (j, q) ({j} \<times> {..<q}))"
    using frames_ok_alloc [OF Suc.prems(1) _ j q] by auto
  let ?m = "set_pte j (PAG_LOG_INIT_DATA + q) (user_rw_entry (of_nat f)) (m\<lparr>phys_mem := (phys_mem m)(f := USED_FRAME)\<rparr>)"
  have "insert (j, q) ({j} \<times> {..<q}) = {j} \<times> {..<Suc q}" by auto
  then obtain m' where m': "map_new_pages sy (pt_addr sy j) user_rw_entry (map (\<lambda>c. PAG_LOG_INIT_DATA + c) [Suc q..<NUM_PAG_DATA]) ?m = Some m'"
    "frames_ok m' ({j} \<times> {..<NUM_PAG_DATA})" "allocs_only ?m m'"
    "\<forall>i page. \<not> (i = j \<and> PAG_LOG_INIT_DATA + Suc q \<le> page \<and> page < PAG_LOG_INIT_DATA + NUM_PAG_DATA) \<longrightarrow>
      pagusr_table m' i page = pagusr_table ?m i page"
    using Suc.hyps(1) [OF d, of ?m] f(2) q by auto
  have "map_new_pages sy (pt_addr sy j) user_rw_entry (map (\<lambda>c. PAG_LOG_INIT_DATA + c) [q..<NUM_PAG_DATA]) m = Some m'"
    using m'(1) f(1) j page_bounds(1) [OF q] by (simp add: upt_conv_Cons [OF q] layout_simps Let_def del: upt_Suc)
  then show ?case
    using m'(2,4) q allocs_only_step [OF m'(3)] by (intro exI [of _ m']) auto
qed

section \<open>Memory after initialisation\<close>

text \<open>The memory part of \<^verbatim>\<open>init_mm\<close>.\<close>

definition fresh_mm :: "symbols \<Rightarrow> mm \<Rightarrow> mm" where
  "fresh_mm sy m = set_pe_flag (set_cr3 (dir_addr sy 0) (init_dir_pages sy
     ((init_table_pages m)\<lparr>phys_mem := init_frames (phys_mem (init_table_pages m))\<rparr>)))"

lemma init_mm_eq:
  "init_mm sy k = k\<lparr>task := (task k)(0 := (task k 0)\<lparr>dir_pages_baseAddr := dir_addr sy 0\<rparr>),
    mem := fresh_mm sy (mem k)\<rparr>"
  by (simp add: init_mm_def fresh_mm_def Let_def allocate_DIR_def upd_task_def get_DIR_def layout_simps)
    (simp add: layout_simps zeos_consts)

lemma tables_only_fields:
  "tables_only m m' \<Longrightarrow> dir_pages m' = dir_pages m \<and> ram m' = ram m"
  by (cases m; cases m') (simp add: tables_only_def)

lemma fresh_mm_fields:
  assumes "\<forall>i<NR_TASKS. \<forall>d. d \<noteq> ENTRY_DIR_PAGES \<longrightarrow> dir_pages m i d = 0"
  shows "dirs_ok sy (fresh_mm sy m)" "ram (fresh_mm sy m) = ram m"
    "avail_frames (phys_mem (fresh_mm sy m)) = user_frames"
    "i < NR_TASKS \<Longrightarrow> page < TOTAL_PAGES \<Longrightarrow> pagusr_table (fresh_mm sy m) i page = initial_table page"
  using assms tables_only_fields [OF init_table_pages_only [of m]]
  by (simp_all add: fresh_mm_def set_pe_flag_def dirs_ok_def init_dir_pages_entry init_dir_pages_fields
      init_table_pages_entry avail_init user_frames_def)

lemma allocs_only_fields:
  "allocs_only m m' \<Longrightarrow> dir_pages m' = dir_pages m \<and> ram m' = ram m"
  by (cases m; cases m') (simp add: allocs_only_def)

lemma initial_outside: "PAG_LOG_INIT_DATA \<le> page \<Longrightarrow> initial_table page = 0"
  by (simp add: initial_table_def zeos_consts)

text \<open>\<^verbatim>\<open>set_user_pages\<close> on the fresh memory gives the first process its address space.\<close>

lemma first_space:
  assumes sy: "linked sy" and z: "\<forall>i<NR_TASKS. \<forall>d. d \<noteq> ENTRY_DIR_PAGES \<longrightarrow> dir_pages m i d = 0"
  shows "\<exists>m'. set_user_pages sy (dir_addr sy 1) (fresh_mm sy m) = Some m' \<and>
    mem_ok sy (set_cr3 (dir_addr sy 1) m') {1} 1 \<and> ram m' = ram m"
proof -
  note F = fresh_mm_fields [OF z]
  have one: "1 < NR_TASKS" by (simp add: zeos_consts)
  have PT: "get_PT sy (dir_addr sy 1) (fresh_mm sy m) = Some (pt_addr sy 1)"
    by (rule get_PT_addr [OF sy F(1) one])
  obtain m1 where m1: "map_new_pages sy (pt_addr sy 1) user_entry (map (\<lambda>c. PAG_LOG_INIT_CODE + c) [0..<NUM_PAG_CODE])
      (fresh_mm sy m) = Some m1"
    "avail_frames (phys_mem m1) = user_frames - code_frames" "allocs_only (fresh_mm sy m) m1"
    "\<forall>i page. \<not> (i = 1 \<and> PAG_LOG_INIT_CODE \<le> page \<and> page < PAG_LOG_INIT_CODE + NUM_PAG_CODE) \<longrightarrow>
      pagusr_table m1 i page = pagusr_table (fresh_mm sy m) i page"
    "\<forall>c<NUM_PAG_CODE. pagusr_table m1 1 (PAG_LOG_INIT_CODE + c) = user_entry (of_nat (code_frame c))"
    using map_code_pages [of "fresh_mm sy m" 0 1 sy] F(3) one by auto
  have "frames_ok m1 ({1} \<times> {..<0})" using m1(2) by (simp add: frames_ok_def)
  then obtain m2 where m2: "map_new_pages sy (pt_addr sy 1) user_rw_entry (map (\<lambda>c. PAG_LOG_INIT_DATA + c) [0..<NUM_PAG_DATA])
      m1 = Some m2"
    "frames_ok m2 ({1} \<times> {..<NUM_PAG_DATA})" "allocs_only m1 m2"
    "\<forall>i page. \<not> (i = 1 \<and> PAG_LOG_INIT_DATA \<le> page \<and> page < PAG_LOG_INIT_DATA + NUM_PAG_DATA) \<longrightarrow>
      pagusr_table m2 i page = pagusr_table m1 i page"
    using map_data_pages [of m1 1 0 sy] one by auto
  have same: "dir_pages m2 = dir_pages (fresh_mm sy m)" "ram m2 = ram m"
    using allocs_only_fields [OF m1(3)] allocs_only_fields [OF m2(3)] F(2) by simp_all
  have keep: "pagusr_table m2 i page = initial_table page"
    if "i < NR_TASKS" "page < TOTAL_PAGES" "\<not> user_page page" for i page
  proof -
    have "pagusr_table m2 i page = pagusr_table m1 i page"
      using m2(4) that(3) by (auto simp: user_page_def zeos_consts)
    also have "\<dots> = pagusr_table (fresh_mm sy m) i page"
      using m1(4) that(3) by (auto simp: user_page_def zeos_consts)
    finally show ?thesis using F(4) that by simp
  qed
  have out: "outside_ok (pagusr_table m2 i)" if "i < NR_TASKS" for i
    unfolding outside_ok_def using keep [OF that]
    by (auto simp: user_page_def initial_table_def zeos_consts)
  have code: "pagusr_table m2 1 (PAG_LOG_INIT_CODE + c) = user_entry (of_nat (code_frame c))" if "c < NUM_PAG_CODE" for c
    using m2(4) m1(5) that by (simp add: zeos_consts)
  have "frames_ok (set_cr3 (dir_addr sy 1) m2) ({1} \<times> {..<NUM_PAG_DATA})"
    by (rule frames_ok_cong [OF m2(2)]) simp_all
  then have "mem_ok sy (set_cr3 (dir_addr sy 1) m2) {1} 1"
    using F(1) same(1) one out code by (simp add: mem_ok_def coherent_set_cr3 dirs_ok_def)
  then show ?thesis
    using PT m1(1) m2(1) same(2) by (auto simp: set_user_pages_def)
qed

section \<open>Frames of the address space\<close>

lemma frame_user:
  assumes sy: "linked sy" and ok: "mem_ok sy m L r" and r: "r \<in> L" and a: "a \<in> user_area"
  shows "(\<exists>p<NUM_PAG_DATA. page_of a = PAG_LOG_INIT_DATA + p \<and> frame_at sy m a = data_frame m r p) \<or>
    (\<exists>c<NUM_PAG_CODE. page_of a = PAG_LOG_INIT_CODE + c \<and> frame_at sy m a = code_frame c)"
proof -
  have e: "frame_at sy m a = unat (pbase_addr (pagusr_table m r (page_of a)))"
    using user_area_mapped [OF assms] by (simp add: frame_at_def)
  have "PAG_LOG_INIT_DATA \<le> page_of a" "page_of a < PAG_LOG_INIT_CODE + NUM_PAG_CODE"
    using a by (simp_all add: user_area_def)
  then show ?thesis
  proof (cases rule: user_page_cases)
    case (1 p)
    then show ?thesis using e by (auto simp: data_frame_def)
  next
    case (2 c)
    then have "code_frame c < 1024" by (simp add: code_frame_def zeos_consts)
    with 2 ok r e show ?thesis by (auto simp: mem_ok_def entry_frame)
  qed
qed

lemma frame_user_inj:
  assumes sy: "linked sy" and ok: "mem_ok sy m L r" and r: "r \<in> L"
    and ab: "a \<in> user_area" "b \<in> user_area" "frame_at sy m a = frame_at sy m b"
  shows "page_of a = page_of b"
proof -
  have fr: "frames_ok m (L \<times> {..<NUM_PAG_DATA})" using ok by (simp add: mem_ok_def)
  have nc: "data_frame m r p \<notin> code_frames" if "p < NUM_PAG_DATA" for p
    using frames_ok_user [OF fr, of r p] r that by simp
  have inj: "p = q" if "p < NUM_PAG_DATA" "q < NUM_PAG_DATA" "data_frame m r p = data_frame m r q" for p q
    using fr r that unfolding frames_ok_def by (auto dest!: inj_onD [where x = "(r, p)" and y = "(r, q)"])
  have c: "code_frame c \<in> code_frames" if "c < NUM_PAG_CODE" for c using that by (simp add: code_frames_def)
  have ci: "c = c'" if "code_frame c = code_frame c'" for c c' using that by (simp add: code_frame_def)
  from frame_user [OF sy ok r ab(1)] frame_user [OF sy ok r ab(2)] show ?thesis
    using ab(3) nc c inj ci by metis
qed

lemma frame_user_range:
  assumes "linked sy" and ok: "mem_ok sy m L r" and "r \<in> L" and "a \<in> user_area"
  shows "NUM_PAG_KERNEL \<le> frame_at sy m a"
proof -
  have "frames_ok m (L \<times> {..<NUM_PAG_DATA})" using ok by (simp add: mem_ok_def)
  then have "data_frame m r p \<in> user_frames" if "p < NUM_PAG_DATA" for p
    using frames_ok_user [of m _ r p] assms(3) that by simp
  then show ?thesis
    using frame_user [OF assms] by (auto simp: user_frames_def code_frame_def)
qed

definition kernel_area :: "DWord set" where
  "kernel_area = {a. 1 \<le> page_of a \<and> page_of a < NUM_PAG_KERNEL}"

lemma kernel_mapped:
  assumes sy: "linked sy" and ok: "mem_ok sy m L r" and a: "a \<in> kernel_area"
  shows "effective sy m (page_of a) = Some (kernel_entry (page_of a))" and "frame_at sy m a = page_of a"
proof -
  have p: "1 \<le> page_of a" "page_of a < NUM_PAG_KERNEL" "page_of a < TOTAL_PAGES" "page_of a < PAG_LOG_INIT_DATA"
    using a by (simp_all add: kernel_area_def zeos_consts)
  have dirs: "dirs_ok sy m" "r < NR_TASKS" "cr3 m = dir_addr sy r" "coherent sy m" "outside_ok (pagusr_table m r)"
    using ok by (simp_all add: mem_ok_def)
  have "pagusr_table m r (page_of a) = kernel_entry (page_of a)"
    using dirs(5) p by (simp add: outside_ok_def initial_table_def)
  then show e: "effective sy m (page_of a) = Some (kernel_entry (page_of a))"
    using walk_user [OF sy dirs(1-3) p(3)] coherent_effective [OF dirs(4)] by simp
  show "frame_at sy m a = page_of a"
    using e p by (simp add: frame_at_def zeos_consts)
qed

text \<open>Kernel memory and the user area of a process are separated.\<close>

lemma areas_separated:
  assumes sy: "linked sy" and ok: "mem_ok sy m L r" and r: "r \<in> L" and R: "R \<subseteq> kernel_area" and W: "W \<subseteq> user_area"
  shows "separated sy m R W"
  unfolding separated_def
proof (intro conjI ballI impI)
  fix a assume "a \<in> R \<union> W"
  then show "effective sy m (page_of a) \<noteq> None"
    using kernel_mapped(1) [OF sy ok, of a] user_area_mapped [OF sy ok r, of a] R W by auto
next
  fix a b assume "a \<in> R" "b \<in> W"
  then have a: "a \<in> kernel_area" and b: "b \<in> user_area" using R W by auto
  have "frame_at sy m a < NUM_PAG_KERNEL" using kernel_mapped(2) [OF sy ok a] a by (simp add: kernel_area_def)
  moreover have "NUM_PAG_KERNEL \<le> frame_at sy m b" by (rule frame_user_range [OF sy ok r b])
  ultimately show "frame_at sy m a \<noteq> frame_at sy m b" by simp
next
  fix a b assume "a \<in> W" "b \<in> W" "frame_at sy m a = frame_at sy m b"
  then show "page_of a = page_of b" using frame_user_inj [OF sy ok r, of a b] W by blast
qed

section \<open>Queues and control blocks after initialisation\<close>

definition boot_procs :: procs where
  "boot_procs = \<lparr>running = 1, ready = [], waiting = [], free = [2..<NR_TASKS], kids = (\<lambda>_. [])\<rparr>"

lemma add_all_tail_ok:
  assumes "family dll h H Q" and "q \<in> H" and "distinct ps" and "set ps \<inter> nodes H Q = {}" and "Null \<notin> set ps"
  shows "\<exists>h'. add_all_tail ps q h = Some h' \<and> family dll h' H (Q(q := Q q @ ps)) \<and>
    (\<forall>p. p \<notin> set ps \<union> nodes H Q \<longrightarrow> h' p = h p)"
  using assms
proof (induction ps arbitrary: h Q)
  case Nil
  then show ?case by simp
next
  case (Cons e ps)
  have e: "e \<noteq> Null" "e \<notin> nodes H Q" using Cons.prems by auto
  define Q1 where "Q1 = Q(q := Q q @ [e])"
  obtain h1 where h1: "list_add_tail e q h = Some h1" "family dll h1 H Q1"
    "\<forall>p. p \<notin> insert e (nodes H Q) \<longrightarrow> h1 p = h p"
    using zq.family_add_tail [OF Cons.prems(1,2) e] unfolding Q1_def by blast
  have sub: "nodes H Q1 \<subseteq> insert e (nodes H Q)" unfolding Q1_def by (rule nodes_snoc [OF Cons.prems(2)])
  have "distinct ps" "Null \<notin> set ps" "set ps \<inter> nodes H Q1 = {}" using sub Cons.prems(3-5) by auto
  then obtain h2 where h2: "add_all_tail ps q h1 = Some h2" "family dll h2 H (Q1(q := Q1 q @ ps))"
    "\<forall>p. p \<notin> set ps \<union> nodes H Q1 \<longrightarrow> h2 p = h1 p"
    using Cons.IH [OF h1(2) Cons.prems(2)] by blast
  have eq: "Q1(q := Q1 q @ ps) = Q(q := Q q @ e # ps)" by (simp add: Q1_def)
  show ?case
  proof (intro exI conjI)
    show "add_all_tail (e # ps) q h = Some h2" using h1(1) h2(1) by simp
    show "family dll h2 H (Q(q := Q q @ e # ps))" using h2(2) unfolding eq .
    show "\<forall>p. p \<notin> set (e # ps) \<union> nodes H Q \<longrightarrow> h2 p = h p" using h1(3) h2(3) sub by auto
  qed
qed

lemma init_head:
  assumes "family dll h H Q" and "a \<noteq> Null" and "a \<notin> nodes H Q" and "Q a = []"
  shows "\<exists>h'. INIT_LIST_HEAD a h = Some h' \<and> family dll h' (insert a H) Q \<and>
    nodes (insert a H) Q \<subseteq> insert a (nodes H Q) \<and> (\<forall>p. p \<noteq> a \<longrightarrow> h' p = h p)"
proof -
  have "Q(a := []) = Q" using assms(4) by auto
  then show ?thesis using zq.family_init [OF assms(1-3)] nodes_init [of a H Q] by auto
qed

lemma nodes_empty [simp]: "nodes H (\<lambda>_. []) = H"
  by (auto simp: nodes_def)

lemma boot_queue: "queue boot_procs = (\<lambda>_. [])(FreeQ := map Anchor [2..<NR_TASKS])"
  by (intro ext; rename_tac p; case_tac p) (auto simp: boot_procs_def)

lemma boot_heads: "heads boot_procs = {Childs 1, Childs 0, Blocked, FreeQ, ReadyQ}"
  by (auto simp: heads_def parents_def live_def boot_procs_def)

lemma init_sched_ok:
  "\<exists>h. init_sched k = Some (k\<lparr>lists := h\<rparr>) \<and> family dll h {Blocked, FreeQ, ReadyQ} (queue boot_procs) \<and>
    h (Anchor 1) = lists k (Anchor 1)"
proof -
  let ?E = "\<lambda>_ :: lptr. [] :: lptr list"
  have "family dll (lists k) {} ?E" by (simp add: family_def)
  then obtain h1 where h1: "INIT_LIST_HEAD ReadyQ (lists k) = Some h1" "family dll h1 {ReadyQ} ?E"
    "\<forall>p. p \<noteq> ReadyQ \<longrightarrow> h1 p = lists k p"
    using init_head [of "lists k" "{}" ?E ReadyQ] by auto
  obtain h2 where h2: "INIT_LIST_HEAD FreeQ h1 = Some h2" "family dll h2 {FreeQ, ReadyQ} ?E"
    "\<forall>p. p \<noteq> FreeQ \<longrightarrow> h2 p = h1 p"
    using init_head [OF h1(2), of FreeQ] by auto
  obtain h3 where h3: "INIT_LIST_HEAD Blocked h2 = Some h3" "family dll h3 {Blocked, FreeQ, ReadyQ} ?E"
    "\<forall>p. p \<noteq> Blocked \<longrightarrow> h3 p = h2 p"
    using init_head [OF h2(2), of Blocked] by auto
  have "distinct (map Anchor [2..<NR_TASKS])" by (simp add: distinct_map inj_on_def)
  then obtain h4 where h4: "add_all_tail (map Anchor [2..<NR_TASKS]) FreeQ h3 = Some h4"
    "family dll h4 {Blocked, FreeQ, ReadyQ} (?E(FreeQ := map Anchor [2..<NR_TASKS]))"
    "\<forall>p. p \<notin> Anchor ` {2..<NR_TASKS} \<union> {Blocked, FreeQ, ReadyQ} \<longrightarrow> h4 p = h3 p"
    using add_all_tail_ok [OF h3(2), of FreeQ "map Anchor [2..<NR_TASKS]"] by auto
  have "init_sched k = Some (k\<lparr>lists := h4\<rparr>)"
    using h1(1) h2(1) h3(1) h4(1) by (simp add: init_sched_def on_lists_def)
  moreover have "Anchor 1 \<notin> Anchor ` {2..<NR_TASKS} \<union> {Blocked, FreeQ, ReadyQ}" by auto
  then have "h4 (Anchor 1) = h3 (Anchor 1)" using h4(3) by blast
  then have "h4 (Anchor 1) = lists k (Anchor 1)" using h1(3) h2(3) h3(3) by simp
  ultimately show ?thesis using h4(2) boot_queue by auto
qed

text \<open>What the loader leaves in the zero-initialised variables.\<close>

definition powered_on :: "kernel \<Rightarrow> bool" where
  "powered_on k \<longleftrightarrow> cursor_ok (scr k) \<and> detached (lists k (Anchor 1)) \<and> parent (task k 1) = None \<and>
     last_pid k = 1 \<and> (\<forall>i<NR_TASKS. \<forall>d. d \<noteq> ENTRY_DIR_PAGES \<longrightarrow> dir_pages (mem k) i d = 0)"

lemma boot_procs_ok: "partition_ok boot_procs" "kids_ok boot_procs" "live boot_procs = {1}" "parents boot_procs = {0, 1}"
proof -
  have "[1..<NR_TASKS] = 1 # [2..<NR_TASKS]" by (simp add: zeos_consts upt_rec)
  then show "partition_ok boot_procs" by (simp add: partition_ok_def placed_def slots_of_def boot_procs_def)
  show "live boot_procs = {1}" "parents boot_procs = {0, 1}" by (auto simp: live_def parents_def boot_procs_def)
  show "kids_ok boot_procs" by (simp add: kids_ok_def boot_procs_def)
qed

text \<open>The lists after \<^verbatim>\<open>init_sched\<close> and the two initial tasks.\<close>

lemma boot_lists:
  "\<exists>h1 h2 h3. init_sched k = Some (k\<lparr>lists := h1\<rparr>) \<and> INIT_LIST_HEAD (Childs 0) h1 = Some h2 \<and>
    INIT_LIST_HEAD (Childs 1) h2 = Some h3 \<and> queues h3 boot_procs \<and> h3 (Anchor 1) = lists k (Anchor 1)"
proof -
  obtain h1 where h1: "init_sched k = Some (k\<lparr>lists := h1\<rparr>)"
    "family dll h1 {Blocked, FreeQ, ReadyQ} (queue boot_procs)" "h1 (Anchor 1) = lists k (Anchor 1)"
    using init_sched_ok [of k] by auto
  have nd: "Childs i \<notin> nodes {Blocked, FreeQ, ReadyQ} (queue boot_procs)" for i
    by (auto simp: nodes_def boot_queue)
  have qz: "queue boot_procs (Childs i) = []" for i by (simp add: boot_procs_def)
  obtain h2 where h2: "INIT_LIST_HEAD (Childs 0) h1 = Some h2"
    "family dll h2 {Childs 0, Blocked, FreeQ, ReadyQ} (queue boot_procs)"
    "nodes {Childs 0, Blocked, FreeQ, ReadyQ} (queue boot_procs) \<subseteq>
      insert (Childs 0) (nodes {Blocked, FreeQ, ReadyQ} (queue boot_procs))"
    "\<forall>p. p \<noteq> Childs 0 \<longrightarrow> h2 p = h1 p"
    using init_head [OF h1(2) _ nd qz] by blast
  have "Childs 1 \<notin> nodes {Childs 0, Blocked, FreeQ, ReadyQ} (queue boot_procs)" using h2(3) nd by auto
  then obtain h3 where h3: "INIT_LIST_HEAD (Childs 1) h2 = Some h3"
    "family dll h3 {Childs 1, Childs 0, Blocked, FreeQ, ReadyQ} (queue boot_procs)"
    "\<forall>p. p \<noteq> Childs 1 \<longrightarrow> h3 p = h2 p"
    using init_head [OF h2(2) _ _ qz, of 1] by blast
  then show ?thesis
    using h1 h2 by (intro exI [of _ h1] exI [of _ h2] exI [of _ h3]) (simp add: boot_heads)
qed

lemma init_kernel_ok:
  assumes sy: "linked sy" and on: "powered_on k" and tss: "esp0 (tss k) = INITIAL_ESP sy"
  shows "\<exists>k1 k2 k3. init_sched (init_mm sy k) = Some k1 \<and> init_idle sy k1 = Some k2 \<and> init_task1 sy k2 = Some k3 \<and>
    kernel_ok sy k3 boot_procs \<and> ram (mem k3) = ram (mem k) \<and> scr k3 = scr k \<and> tss k3 = tss k \<and>
    stack (task k3 0) (KERNEL_STACK_SIZE - 1) = a_cpu_idle sy \<and> PID (task k3 0) = 0 \<and> PID (task k3 1) = 1 \<and>
    last_pid k3 = 1 \<and> quantum_ticks k3 = 100 \<and> pending_unblocks (task k3 1) = pending_unblocks (task k 1)"
proof -
  have z: "\<forall>i<NR_TASKS. \<forall>d. d \<noteq> ENTRY_DIR_PAGES \<longrightarrow> dir_pages (mem k) i d = 0" using on by (simp add: powered_on_def)
  have nr: "0 < NR_TASKS" "1 < NR_TASKS" by (simp_all add: zeos_consts)
  define k0 where "k0 = init_mm sy k"
  have k0: "mem k0 = fresh_mm sy (mem k)" "lists k0 = lists k" by (simp_all add: k0_def init_mm_eq)
  obtain h1 h2 h3 where h: "init_sched k0 = Some (k0\<lparr>lists := h1\<rparr>)" "INIT_LIST_HEAD (Childs 0) h1 = Some h2"
    "INIT_LIST_HEAD (Childs 1) h2 = Some h3" "queues h3 boot_procs" "h3 (Anchor 1) = lists k (Anchor 1)"
    using boot_lists [of k0] k0(2) by auto
  obtain m' where m': "set_user_pages sy (dir_addr sy 1) (fresh_mm sy (mem k)) = Some m'"
    "mem_ok sy (set_cr3 (dir_addr sy 1) m') {1} 1" "ram m' = ram (mem k)"
    using first_space [OF sy z] by blast
  obtain k2 where k2: "init_idle sy (k0\<lparr>lists := h1\<rparr>) = Some k2" and k2f: "lists k2 = h2" "mem k2 = fresh_mm sy (mem k)"
    "idle_task k2 = Some 0" "scr k2 = scr k" "tss k2 = tss k" "last_pid k2 = last_pid k" "task k2 1 = task k 1"
    "PID (task k2 0) = 0" "quantum (task k2 0) = 1" "dir_pages_baseAddr (task k2 0) = dir_addr sy 0"
    "kernel_esp (task k2 0) = stack_addr sy 0 (KERNEL_STACK_SIZE - 2)"
    "stack (task k2 0) (KERNEL_STACK_SIZE - 1) = a_cpu_idle sy"
    using h(2) k0(1) nr
    by (simp add: init_idle_def upd_task_def on_lists_def allocate_DIR_def layout_simps k0_def init_mm_eq Let_def)
      (simp add: zeos_consts)
  obtain k3 where k3: "init_task1 sy k2 = Some k3" and k3f: "lists k3 = h3" "mem k3 = set_cr3 (dir_addr sy 1) m'"
    "idle_task k3 = Some 0" "scr k3 = scr k" "tss k3 = tss k" "last_pid k3 = last_pid k" "task k3 0 = task k2 0"
    "PID (task k3 1) = 1" "quantum (task k3 1) = 100" "dir_pages_baseAddr (task k3 1) = dir_addr sy 1"
    "parent (task k3 1) = parent (task k 1)" "quantum_ticks k3 = 100" "pending_unblocks (task k3 1) = pending_unblocks (task k 1)"
    using h(3) k2f m'(1) nr
    by (simp add: init_task1_def upd_task_def on_lists_def on_mem_def allocate_DIR_def get_DIR_def layout_simps Let_def)
  have l1: "last_pid k = 1" using on by (simp add: powered_on_def)
  have "tables_ok sy k3 boot_procs"
    using boot_procs_ok(2) h(4) k3f k2f on l1
    by (simp add: tables_ok_def kin_ok_def boot_procs_ok(3,4) pcb_ok_def powered_on_def) (simp add: boot_procs_def)
  moreover have "saved sy (task k3 0) 0"
    using k3f(7) k2f(11) by (auto simp: saved_def zeos_consts intro!: exI [of _ 1022])
  moreover have "detached (h3 (Anchor 1))" using h(5) on by (simp add: powered_on_def)
  ultimately have "kernel_ok sy k3 boot_procs"
    using boot_procs_ok k3f tss m'(2)
    by (simp add: kernel_ok_def INITIAL_ESP_def) (simp add: boot_procs_def insert_Diff_if)
  then show ?thesis
    using h(1) k2 k3 k3f k2f m'(3) l1 unfolding k0_def by (intro exI) (auto)
qed

section \<open>Loading the user image\<close>

text \<open>Bytes and double words of the kernel image, where the boot loader put it.\<close>

definition kbyte :: "mm \<Rightarrow> DWord \<Rightarrow> Byte" where
  "kbyte m a = ram m (page_of a) (offset_of a)"

definition kdword :: "mm \<Rightarrow> DWord \<Rightarrow> DWord" where
  "kdword m a = dword_of (map (\<lambda>i. kbyte m (a + of_nat i)) [0..<4])"

text \<open>The two images fit below the user area and the user image into it.\<close>

definition image_ok :: "mm \<Rightarrow> bool" where
  "image_ok m \<longleftrightarrow>
     unat KERNEL_START + unat (kdword m KERNEL_START) + unat (kdword m (KERNEL_START + 4)) \<le> L_USER_START \<and>
     unat (kdword m (KERNEL_START + 4)) \<le> PAGE_SIZE * (NUM_PAG_DATA + NUM_PAG_CODE)"

lemma frame_at_cong: "same_but sy F m m' \<Longrightarrow> frame_at sy m' a = frame_at sy m a"
  by (simp add: frame_at_def same_but_def)

lemma user_byte_frame:
  "effective sy m (page_of a) \<noteq> None \<Longrightarrow> user_byte sy m a = ram m (frame_at sy m a) (offset_of a)"
  by (auto simp: user_byte_def frame_at_def)

lemma load_dword_ok:
  assumes sy: "linked sy" and ok: "mem_ok sy (mem k) L r" and r: "r \<in> L" and a: "\<And>i. i < 4 \<Longrightarrow> a + of_nat i \<in> kernel_area"
  shows "\<exists>m'. load_dword sy a k = Some (kdword (mem k) a, k\<lparr>mem := m'\<rparr>) \<and> same_but sy {} (mem k) m'"
proof -
  let ?R = "{a + of_nat i |i. i < 4}" and ?m = "mem k"
  have R: "?R \<subseteq> kernel_area" using a by auto
  have "copying sy ?m ?R {} ?m"
    using areas_separated [OF sy ok r R, of "{}"] by (simp add: copying_def same_but_refl)
  then obtain m' where m': "load_bytes (load8 sy) 4 a ?m =
      Some (map (\<lambda>i. ram ?m (frame_at sy ?m (a + of_nat i)) (offset_of (a + of_nat i))) [0..<4], m')"
    "copying sy ?m ?R {} m'"
    using region.load_bytes_ok [of sy ?m ?R "{}" ?m 4 a] by blast
  have eq: "map (\<lambda>i. ram ?m (frame_at sy ?m (a + of_nat i)) (offset_of (a + of_nat i))) [0..<4] =
      map (\<lambda>i. kbyte ?m (a + of_nat i)) [0..<4]"
    using kernel_mapped(2) [OF sy ok a] by (intro map_cong) (simp_all add: kbyte_def)
  show ?thesis
    using m'(1) [unfolded eq] m'(2)
    by (intro exI [of _ m']) (simp add: load_dword_def kdword_def copying_def)
qed

lemma kernel_area_range:
  assumes "4096 \<le> unat a" and "unat a + n \<le> 2 ^ 20" and "i < n"
  shows "a + of_nat i \<in> kernel_area"
proof -
  have "unat (a + of_nat i) = unat a + i" using assms by (subst unat_add32) simp_all
  then show ?thesis using assms by (auto simp: kernel_area_def unat_page_of zeos_consts)
qed

lemma header_area: "n \<in> {0, 4, 8} \<Longrightarrow> i < 4 \<Longrightarrow> KERNEL_START + n + of_nat i \<in> kernel_area"
  by (rule kernel_area_range [of _ 4]) (auto simp: KERNEL_START_def)

lemma kdword_cong: "ram m' = ram m \<Longrightarrow> kdword m' a = kdword m a"
  by (simp add: kdword_def kbyte_def)

lemma same_but_none: "same_but sy {} m m' \<Longrightarrow> ram m' = ram m"
  by (intro ext) (simp add: same_but_def)

lemma copy_image:
  assumes sy: "linked sy" and ok: "mem_ok sy m L r" and r: "r \<in> L"
    and src: "4096 \<le> unat p" "unat p + n \<le> 2 ^ 20" and n: "n \<le> 4096 * (NUM_PAG_DATA + NUM_PAG_CODE)"
  shows "\<exists>m'. copy_data (load8 sy) (store8 sy) p (of_nat L_USER_START) (int n) m = Some m' \<and>
    same_but sy (frame_at sy m ` user_area) m m' \<and>
    (\<forall>i<n. user_byte sy m' (of_nat L_USER_START + of_nat i) = kbyte m (p + of_nat i))"
proof -
  let ?q = "of_nat L_USER_START :: DWord"
  let ?R = "{p + of_nat i |i. i < n}" and ?W = "{?q + of_nat i |i. i < n}"
  have R: "p + of_nat i \<in> kernel_area" if "i < n" for i using kernel_area_range [OF src that] .
  have W: "?q + of_nat i \<in> user_area" if "i < n" for i
    by (rule range_user_area [of _ n]) (use n that in \<open>auto simp: unat_page_of zeos_consts\<close>)
  have sub: "?R \<subseteq> kernel_area" "?W \<subseteq> user_area" using R W by blast+
  have "n < 2 ^ 31" using n by (simp add: zeos_consts)
  then obtain m' where m': "copy_data (load8 sy) (store8 sy) p ?q (int n) m = Some m'"
    "same_but sy (frame_at sy m ` ?W) m m'"
    "\<forall>i<n. ram m' (frame_at sy m (?q + of_nat i)) (offset_of (?q + of_nat i)) =
      ram m (frame_at sy m (p + of_nat i)) (offset_of (p + of_nat i))"
    using copy_regions [OF areas_separated [OF sy ok r sub]] by blast
  have sb: "same_but sy (frame_at sy m ` user_area) m m'"
    by (rule same_but_mono [OF m'(2)]) (use sub(2) in blast)
  have "user_byte sy m' (?q + of_nat i) = kbyte m (p + of_nat i)" if i: "i < n" for i
  proof -
    have "effective sy m' (page_of (?q + of_nat i)) \<noteq> None"
      using user_area_mapped [OF sy ok r W [OF i]] sb by (simp add: same_but_def)
    then show ?thesis
      using m'(3) i kernel_mapped(2) [OF sy ok R [OF i]] frame_at_cong [OF sb]
      by (simp add: user_byte_frame kbyte_def)
  qed
  with m'(1) sb show ?thesis by blast
qed

lemma load_user_image_ok:
  assumes sy: "linked sy" and ok: "mem_ok sy (mem k) L r" and r: "r \<in> L" and im: "image_ok (mem k)"
  shows "\<exists>m'. load_user_image sy k = Some (k\<lparr>mem := m'\<rparr>) \<and> same_but sy (frame_at sy (mem k) ` user_area) (mem k) m' \<and>
    (\<forall>i<unat (kdword (mem k) (KERNEL_START + 4)). user_byte sy m' (of_nat L_USER_START + of_nat i) =
       kbyte (mem k) (KERNEL_START + kdword (mem k) KERNEL_START + of_nat i))"
proof -
  let ?m = "mem k" and ?s = "kdword (mem k) KERNEL_START" and ?u = "kdword (mem k) (KERNEL_START + 4)"
  obtain m1 where m1: "load_dword sy KERNEL_START k = Some (?s, k\<lparr>mem := m1\<rparr>)" "same_but sy {} ?m m1"
    using load_dword_ok [OF sy ok r, of KERNEL_START] header_area [of 0] by auto
  have ok1: "mem_ok sy m1 L r" by (rule mem_ok_same_but [OF ok m1(2)])
  obtain m2 where m2: "load_dword sy (KERNEL_START + 4) (k\<lparr>mem := m1\<rparr>) = Some (kdword m1 (KERNEL_START + 4), k\<lparr>mem := m2\<rparr>)"
    "same_but sy {} m1 m2"
    using load_dword_ok [OF sy, of "k\<lparr>mem := m1\<rparr>" L r "KERNEL_START + 4"] ok1 r header_area [of 4] by auto
  have ram: "ram m1 = ram ?m" "ram m2 = ram ?m" using same_but_none m1(2) m2(2) by metis+
  have sb: "same_but sy {} ?m m2" using m1(2) m2(2) by (rule same_but_trans)
  have ok2: "mem_ok sy m2 L r" by (rule mem_ok_same_but [OF ok sb])
  have u: "unat ?u \<le> 4096 * (NUM_PAG_DATA + NUM_PAG_CODE)" "unat KERNEL_START + unat ?s + unat ?u \<le> 2 ^ 20"
    using im by (simp_all add: image_ok_def zeos_consts)
  have p: "unat (KERNEL_START + ?s) = unat KERNEL_START + unat ?s"
    using u(2) by (subst unat_add32) simp_all
  have n: "sint ?u = int (unat ?u)"
    using sint_of_nat32 [of "unat ?u"] u(1) by (simp add: zeos_consts)
  obtain m3 where m3: "copy_data (load8 sy) (store8 sy) (KERNEL_START + ?s) (of_nat L_USER_START) (int (unat ?u)) m2 = Some m3"
    "same_but sy (frame_at sy m2 ` user_area) m2 m3"
    "\<forall>i<unat ?u. user_byte sy m3 (of_nat L_USER_START + of_nat i) = kbyte m2 (KERNEL_START + ?s + of_nat i)"
    using copy_image [OF sy ok2 r, of "KERNEL_START + ?s" "unat ?u"] p u by (auto simp: KERNEL_START_def)
  have fr: "frame_at sy m2 = frame_at sy ?m" using frame_at_cong [OF sb] by (intro ext)
  have "load_user_image sy k = Some (k\<lparr>mem := m3\<rparr>)"
    using m1(1) m2(1) m3(1) n kdword_cong [OF ram(1)] by (simp add: load_user_image_def on_mem_def)
  moreover have "same_but sy (frame_at sy ?m ` user_area) ?m m3"
    using same_but_trans [OF same_but_mono [OF sb] m3(2)] by (simp add: fr)
  ultimately show ?thesis using m3(3) ram(2) by (auto simp: kbyte_def)
qed

section \<open>Entering user mode\<close>

text \<open>The four bytes \<^verbatim>\<open>return_gate\<close> writes are the last of the data pages.\<close>

definition gate_word :: DWord where "gate_word = USER_ESP + 12"

lemma gate_word_area: "i < 4 \<Longrightarrow> gate_word + of_nat i \<in> user_area"
  by (rule range_user_area [of _ 4]) (simp_all add: gate_word_def unat_page_of zeos_consts)

lemma length_bytes_of [simp]: "length (bytes_of w) = 4"
  by (simp add: bytes_of_def)

lemma store_user_bytes:
  assumes sy: "linked sy" and ok: "mem_ok sy m L r" and r: "r \<in> L"
    and W: "\<And>i. i < length bs \<Longrightarrow> q + of_nat i \<in> user_area" and len: "length bs \<le> 2 ^ 32"
  shows "\<exists>m'. store_bytes (store8 sy) q bs m = Some m' \<and> same_but sy (frame_at sy m ` user_area) m m' \<and>
    (\<forall>x\<in>user_area. user_byte sy m' x = (if unat (x - q) < length bs then bs ! unat (x - q) else user_byte sy m x))"
proof -
  have "copying sy m {} user_area m"
    using areas_separated [OF sy ok r, of "{}" user_area] by (simp add: copying_def same_but_refl)
  then obtain m' where m': "store_bytes (store8 sy) q bs m = Some m'" "copying sy m {} user_area m'"
    "\<forall>x\<in>user_area. ram m' (frame_at sy m x) (offset_of x) =
      (if unat (x - q) < length bs then bs ! unat (x - q) else ram m (frame_at sy m x) (offset_of x))"
    using region.store_bytes_ok [of sy m "{}" user_area m bs q] W len by blast
  have sb: "same_but sy (frame_at sy m ` user_area) m m'" using m'(2) by (simp add: copying_def)
  have "user_byte sy m' x = ram m' (frame_at sy m x) (offset_of x)" "user_byte sy m x = ram m (frame_at sy m x) (offset_of x)"
    if x: "x \<in> user_area" for x
  proof -
    have e: "effective sy m (page_of x) \<noteq> None" using user_area_mapped [OF sy ok r x] by simp
    then show "user_byte sy m x = ram m (frame_at sy m x) (offset_of x)" by (rule user_byte_frame)
    have "effective sy m' (page_of x) \<noteq> None" using e sb by (simp add: same_but_def)
    then show "user_byte sy m' x = ram m' (frame_at sy m x) (offset_of x)"
      using frame_at_cong [OF sb] by (simp add: user_byte_frame)
  qed
  with m'(1,3) sb show ?thesis by auto
qed

definition gate_context :: "Word16 \<Rightarrow> Word16 \<Rightarrow> Word16 \<Rightarrow> DWord \<Rightarrow> machine \<Rightarrow> machine \<Rightarrow> bool" where
  "gate_context uds ss cs ip M M' \<longleftrightarrow> user_ss M' = ss \<and> user_esp M' = USER_ESP \<and> user_cs M' = cs \<and> user_eip M' = ip \<and>
     ds_reg M' = outer_selector M uds \<and> es_reg M' = outer_selector M uds \<and> fs_reg M' = outer_selector M (fs_reg M) \<and>
     gs_reg M' = outer_selector M (gs_reg M) \<and> eflags M' = eflags M \<and> gdt M' = gdt M \<and> gdt_reg M' = gdt_reg M \<and>
     idt M' = idt M \<and> idt_reg M' = idt_reg M \<and> task_reg M' = task_reg M \<and> int_mask M' = int_mask M"

lemma return_gate_ok:
  assumes sy: "linked sy" and ok: "mem_ok sy (mem (ker M)) L r" and r: "r \<in> L"
  shows "\<exists>m' M'. return_gate sy uds ss USER_ESP cs ip M = Some M' \<and>
    ker M' = (ker M)\<lparr>mem := m'\<rparr> \<and> gate_context uds ss cs ip M M' \<and>
    mem_ok sy m' L r \<and>
    (\<forall>x\<in>user_area. 4 \<le> unat (x - gate_word) \<longrightarrow> user_byte sy m' x = user_byte sy (mem (ker M)) x)"
proof -
  let ?m = "mem (ker M)"
  define w where "w = kdword ?m (KERNEL_START + 8)"
  obtain m1 where m1: "load_dword sy (KERNEL_START + 8) (ker M) = Some (w, (ker M)\<lparr>mem := m1\<rparr>)" "same_but sy {} ?m m1"
    using load_dword_ok [OF sy ok r, of "KERNEL_START + 8"] header_area [of 8] unfolding w_def by auto
  have ok1: "mem_ok sy m1 L r" by (rule mem_ok_same_but [OF ok m1(2)])
  obtain m2 where m2: "store_bytes (store8 sy) gate_word (bytes_of w) m1 = Some m2"
    "same_but sy (frame_at sy m1 ` user_area) m1 m2"
    "\<forall>x\<in>user_area. user_byte sy m2 x =
      (if unat (x - gate_word) < 4 then bytes_of w ! unat (x - gate_word) else user_byte sy m1 x)"
    using store_user_bytes [OF sy ok1 r, of "bytes_of w" gate_word] gate_word_area by auto
  have "user_byte sy m1 x = user_byte sy ?m x" for x
    using m1(2) unfolding user_byte_def same_but_none [OF m1(2)] by (simp add: same_but_def)
  then show ?thesis
    using m1(1) m2(1,3) mem_ok_same_but [OF ok1 m2(2)]
    by (intro exI [of _ m2] exI [of _ "the (return_gate sy uds ss USER_ESP cs ip M)"])
      (simp add: return_gate_def on_mem_def gate_word_def gate_context_def outer_selector_def Let_def)
qed

text \<open>
  \<^verbatim>\<open>main\<close> as a whole: it reaches user mode in a state of the invariant, with the user
  program at the start of the user area (but for the last word of the data pages, which
  \<^verbatim>\<open>return_gate\<close> overwrites).
\<close>

definition user_loaded :: "symbols \<Rightarrow> mm \<Rightarrow> mm \<Rightarrow> bool" where
  "user_loaded sy m m' \<longleftrightarrow> (\<forall>i<unat (kdword m (KERNEL_START + 4)).
     4 \<le> unat (of_nat L_USER_START + of_nat i - gate_word) \<longrightarrow>
     user_byte sy m' (of_nat L_USER_START + of_nat i) = kbyte m (KERNEL_START + kdword m KERNEL_START + of_nat i))"

lemma print_message:
  assumes "0 \<notin> set (cstring t)" and "cursor_ok (scr k)"
  shows "\<exists>s. on_scr (printk (lit t)) k = Some (k\<lparr>scr := s\<rparr>) \<and> cursor_ok s"
  using printk_lit [OF assms(1)] console.ok_fold [OF assms(2)] by (auto simp: on_scr_def)

lemma powered_on_scr: "powered_on k \<Longrightarrow> cursor_ok s \<Longrightarrow> powered_on (k\<lparr>scr := s, tss := t\<rparr>)"
  by (simp add: powered_on_def)

lemma kernel_ok_mem_scr:
  assumes "kernel_ok sy k a" and "mem_ok sy m (live a) (running a)" and "cursor_ok s"
  shows "kernel_ok sy (k\<lparr>scr := s, mem := m\<rparr>) a"
  using assms by (simp add: kernel_ok_def tables_ok_def pcb_ok_def)

lemma user_area_start: "i < PAGE_SIZE * (NUM_PAG_DATA + NUM_PAG_CODE) \<Longrightarrow> of_nat L_USER_START + of_nat i \<in> user_area"
  by (rule range_user_area [of _ "4096 * 28"]) (auto simp: unat_page_of zeos_consts)

text \<open>The machine in user mode: interrupts are on, clock and keyboard unmasked, the tables of the
  kernel are in use, and the other segments than the loader's are those of the source.\<close>

definition user_mode :: "symbols \<Rightarrow> machine \<Rightarrow> machine \<Rightarrow> bool" where
  "user_mode sy M M' \<longleftrightarrow> eflags M' = 0x202 \<and> int_mask M' = 0xfc \<and>
     user_cs M' = USER_CS \<and> user_eip M' = usr_main \<and> user_ss M' = USER_DS \<and> user_esp M' = USER_ESP \<and>
     (\<forall>e. e = 6 \<or> gdt M' e = gdt M e) \<and> gdt_reg M' = \<lparr>r_limit = 2048, r_base = GDT_START\<rparr> \<and>
     descriptor_base (gdt M' 6) = a_tss sy \<and> task_reg M' = KERNEL_TSS \<and>
     ds_reg M' = outer_selector M USER_DS \<and> es_reg M' = outer_selector M USER_DS \<and>
     fs_reg M' = outer_selector M KERNEL_DS \<and> gs_reg M' = outer_selector M KERNEL_DS"

text \<open>The machine before \<^verbatim>\<open>return_gate\<close>, with the kernel states before the tables are set up
  and at the end.\<close>

definition before_gate :: "symbols \<Rightarrow> idt_t \<Rightarrow> kernel \<Rightarrow> kernel \<Rightarrow> machine \<Rightarrow> machine" where
  "before_gate sy t k0 k M =
     (let M = (set_seg_regs KERNEL_DS KERNEL_DS (task_addr sy 4) (set_eflags M))\<lparr>ker := k0\<rparr>;
          M = setTSS sy (set_idt_reg \<lparr>r_limit = 2047, r_base = a_idt sy\<rparr> ((setGdt sy M)\<lparr>idt := t\<rparr>))
      in enable_int (M\<lparr>ker := k\<rparr>))"

lemmas hardware_defs = set_seg_regs_def set_eflags_def enable_int_def delay_def setTSS_def setGdt_def set_idt_reg_def
  set_gdt_reg_def set_task_reg_def before_gate_def Let_def

lemma before_gate_user_mode:
  assumes "gate_context USER_DS USER_DS USER_CS usr_main (before_gate sy t k0 k M) M'"
  shows "user_mode sy M M'" "idt M' = t" "idt_reg M' = \<lparr>r_limit = 2047, r_base = a_idt sy\<rparr>"
proof -
  define M5 where "M5 = before_gate sy t k0 k M"
  have r: "eflags M5 = 0x202" "int_mask M5 = 0xfc" "\<forall>e. e = 6 \<or> gdt M5 e = gdt M e"
    "gdt_reg M5 = \<lparr>r_limit = 2048, r_base = GDT_START\<rparr>" "descriptor_base (gdt M5 6) = a_tss sy" "task_reg M5 = KERNEL_TSS"
    "fs_reg M5 = KERNEL_DS" "gs_reg M5 = KERNEL_DS" "idt M5 = t" "idt_reg M5 = \<lparr>r_limit = 2047, r_base = a_idt sy\<rparr>"
    by (simp_all add: M5_def hardware_defs KERNEL_TSS_def descriptor_base_def base_split)
  have "outer_selector M5 USER_DS = outer_selector M USER_DS" "outer_selector M5 KERNEL_DS = outer_selector M KERNEL_DS"
    using r(3) [rule_format, of 5] r(3) [rule_format, of 3] by (simp_all add: outer_selector_def segment_consts)
  with r assms show "user_mode sy M M'" "idt M' = t" "idt_reg M' = \<lparr>r_limit = 2047, r_base = a_idt sy\<rparr>"
    unfolding M5_def [symmetric] by (simp_all add: user_mode_def gate_context_def)
qed

lemma main_ok:
  assumes sy: "linked sy" and on: "powered_on (ker M)" and im: "image_ok (mem (ker M))"
  shows "\<exists>M'. main sh sy ep M = Some M' \<and> kernel_ok sy (ker M') boot_procs \<and>
    user_loaded sy (mem (ker M)) (mem (ker M')) \<and>
    quantum_ticks (ker M') = 100 \<and> last_pid (ker M') = 1 \<and> PID (task (ker M') 0) = 0 \<and> PID (task (ker M') 1) = 1 \<and>
    pending_unblocks (task (ker M') 1) = pending_unblocks (task (ker M) 1) \<and>
    user_mode sy M M' \<and> setIdt sh sy ep (idt M) = Some (idt M', idt_reg M')"
proof -
  let ?k = "ker M"
  obtain s1 where s1: "on_scr (printk (lit ''Kernel Loaded!    '')) ?k = Some (?k\<lparr>scr := s1\<rparr>)" "cursor_ok s1"
    using print_message [of "''Kernel Loaded!    ''" ?k] on by (auto simp: powered_on_def cstring_def)
  obtain t where t: "setIdt sh sy ep (idt M) = Some (t, \<lparr>r_limit = 2047, r_base = a_idt sy\<rparr>)"
    using setIdt_gates [of sh sy ep "idt M"] by blast
  define k0 where "k0 = ?k\<lparr>scr := s1, tss := initial_tss sy\<rparr>"
  have k0: "powered_on k0" "esp0 (tss k0) = INITIAL_ESP sy" "mem k0 = mem ?k"
    using powered_on_scr [OF on s1(2)] by (simp_all add: k0_def initial_tss_def)
  obtain k1 k2 k3 where k: "init_sched (init_mm sy k0) = Some k1" "init_idle sy k1 = Some k2" "init_task1 sy k2 = Some k3"
    and ok: "kernel_ok sy k3 boot_procs" and ram: "ram (mem k3) = ram (mem ?k)"
    and k3: "PID (task k3 0) = 0" "PID (task k3 1) = 1" "last_pid k3 = 1" "quantum_ticks k3 = 100"
      "pending_unblocks (task k3 1) = pending_unblocks (task k0 1)"
    using init_kernel_ok [OF sy k0(1,2)] k0(3) by metis
  have mok: "mem_ok sy (mem k3) {1} 1" using ok boot_procs_ok(3) by (simp add: kernel_ok_def) (simp add: boot_procs_def)
  have eq: "kdword (mem k3) = kdword (mem ?k)" "kbyte (mem k3) = kbyte (mem ?k)"
    using ram kdword_cong by (auto simp: kbyte_def)
  obtain m4 where m4: "load_user_image sy k3 = Some (k3\<lparr>mem := m4\<rparr>)"
    "same_but sy (frame_at sy (mem k3) ` user_area) (mem k3) m4"
    "\<forall>i<unat (kdword (mem ?k) (KERNEL_START + 4)). user_byte sy m4 (of_nat L_USER_START + of_nat i) =
       kbyte (mem ?k) (KERNEL_START + kdword (mem ?k) KERNEL_START + of_nat i)"
    using load_user_image_ok [OF sy mok] im unfolding image_ok_def eq by blast
  have mok4: "mem_ok sy m4 {1} 1" by (rule mem_ok_same_but [OF mok m4(2)])
  obtain s5 where s5: "on_scr (printk (lit ''Entering user mode...'')) (k3\<lparr>mem := m4\<rparr>) = Some (k3\<lparr>mem := m4, scr := s5\<rparr>)"
    "cursor_ok s5"
    using print_message [of "''Entering user mode...''" "k3\<lparr>mem := m4\<rparr>"] kernel_okD(5) [OF ok] by (auto simp: cstring_def)
  define M5 where "M5 = before_gate sy t (?k\<lparr>scr := s1\<rparr>) (k3\<lparr>mem := m4, scr := s5\<rparr>) M"
  have M5: "ker M5 = k3\<lparr>mem := m4, scr := s5\<rparr>" by (simp add: M5_def hardware_defs)
  obtain m6 M6 where m6: "return_gate sy USER_DS USER_DS USER_ESP USER_CS usr_main M5 = Some M6"
    "ker M6 = (ker M5)\<lparr>mem := m6\<rparr>" "gate_context USER_DS USER_DS USER_CS usr_main M5 M6"
    "mem_ok sy m6 {1} 1" "\<forall>x\<in>user_area. 4 \<le> unat (x - gate_word) \<longrightarrow> user_byte sy m6 x = user_byte sy m4 x"
    using return_gate_ok [OF sy, of M5 "{1}" 1 USER_DS USER_DS USER_CS usr_main] mok4 M5 by auto
  have main: "main sh sy ep M = Some M6"
    using s1(1) t k m4(1) s5(1) unfolding m6(1) [symmetric]
    by (simp add: main_def on_ker_def M5_def k0_def hardware_defs)
  have "user_mode sy M M6" "setIdt sh sy ep (idt M) = Some (idt M6, idt_reg M6)"
    using before_gate_user_mode [OF m6(3) [unfolded M5_def]] t by simp_all
  moreover have "kernel_ok sy ((ker M5)\<lparr>mem := m6\<rparr>) boot_procs"
    using kernel_ok_mem_scr [OF ok _ s5(2), of m6] m6(4) boot_procs_ok(3) by (simp add: M5) (simp add: boot_procs_def)
  moreover have "user_loaded sy (mem ?k) m6"
    using m4(3) m6(5) im user_area_start by (simp add: user_loaded_def image_ok_def)
  moreover have "task k0 = task ?k" by (simp add: k0_def)
  ultimately show ?thesis unfolding main using M5 k3 m6(2) by simp
qed

end
