(* ===== verification/Build.thy ===== *)
theory Build
  imports Boot
begin

text \<open>
  \<^verbatim>\<open>build.c\<close>, the host program that puts the boot sector, the kernel and the user
  program into one disk image and patches their sizes into it, and how
  \<^verbatim>\<open>main\<close> of the kernel finds them again. Files are byte lists; failing calls of
  the host system (\<^verbatim>\<open>open\<close>, \<^verbatim>\<open>fstat\<close>, \<^verbatim>\<open>read\<close>,
  \<^verbatim>\<open>write\<close>, \<^verbatim>\<open>lseek\<close>) are properties of the files, and every call of
  \<^verbatim>\<open>die\<close> is an error value.
\<close>

section \<open>Files\<close>

datatype build_error = Usage | Unable_to_open | Unable_to_read_header | Non_Minix_header
  | Illegal_data_segment | Illegal_bss_segment | Illegal_symbol_table | Boot_block_size
  | No_boot_flag | Unable_to_stat | Error_reading | Unexpected_EOF | Write_failed | Seek_failed

text \<open>An input file: what \<^verbatim>\<open>fstat\<close> reports (if it succeeds), whether
  \<^verbatim>\<open>read\<close> works, and the bytes it delivers.\<close>

record infile =
  st_size :: "nat option"
  readable :: bool
  contents :: "Byte list"

text \<open>Standard output: the bytes so far, the offset, how much fits, and whether it can seek.\<close>

record outfile =
  o_bytes :: "Byte list"
  o_off :: nat
  o_cap :: nat
  o_seekable :: bool

definition and_then :: "'e + 'a \<Rightarrow> ('a \<Rightarrow> 'e + 'b) \<Rightarrow> 'e + 'b" where
  "and_then r f = (case r of Inl e \<Rightarrow> Inl e | Inr x \<Rightarrow> f x)"

lemma and_then_simps [simp]: "and_then (Inl e) f = Inl e" "and_then (Inr x) f = f x"
  by (simp_all add: and_then_def)

definition check :: "bool \<Rightarrow> build_error \<Rightarrow> build_error + unit" where
  "check b e = (if b then Inr () else Inl e)"

lemma check_simps [simp]: "check True e = Inr ()" "check False e = Inl e"
  by (simp_all add: check_def)

text \<open>\<^verbatim>\<open>read\<close> of \<open>n\<close> bytes: the count, the data, and what is left of the file.\<close>

definition file_read :: "infile \<Rightarrow> nat \<Rightarrow> Byte list \<Rightarrow> int \<times> Byte list \<times> Byte list" where
  "file_read f n rest = (if readable f then (int (length (take n rest)), take n rest, drop n rest) else (-1, [], rest))"

definition file_write :: "Byte list \<Rightarrow> outfile \<Rightarrow> build_error + outfile" where
  "file_write bs out =
     (if o_off out + length bs \<le> o_cap out
      then Inr (out\<lparr>o_bytes := take (o_off out) (o_bytes out) @ replicate (o_off out - length (o_bytes out)) 0 @
                   bs @ drop (o_off out + length bs) (o_bytes out),
                 o_off := o_off out + length bs\<rparr>)
      else Inl Write_failed)"

definition file_seek :: "nat \<Rightarrow> outfile \<Rightarrow> build_error + outfile" where
  "file_seek pos out = (if o_seekable out then Inr (out\<lparr>o_off := pos\<rparr>) else Inl Seek_failed)"

section \<open>build.c\<close>

definition MINIX_HEADER_LEN :: nat where "MINIX_HEADER_LEN = 32"

definition minix_hdr :: "Byte list" where
  "minix_hdr = [0x01, 0x03, 0x10, 0x04, 0x20, 0x00, 0x00, 0x00]"

text \<open>\<^verbatim>\<open>lb[i]\<close>: the buffer read as little-endian double words.\<close>

definition lb :: "Byte list \<Rightarrow> nat \<Rightarrow> DWord" where
  "lb buf i = dword_of (take 4 (drop (4 * i) buf))"

text \<open>\<^verbatim>\<open>minix_open\<close> returns the file and what follows its header.\<close>

definition minix_open :: "infile option \<Rightarrow> build_error + infile \<times> Byte list" where
  "minix_open name = (case name of None \<Rightarrow> Inl Unable_to_open | Some f \<Rightarrow>
     (let (n, buf, rest) = file_read f MINIX_HEADER_LEN (contents f) in
      and_then (check (n = int MINIX_HEADER_LEN) Unable_to_read_header) (\<lambda>_.
      and_then (check (take 8 buf = minix_hdr \<and> lb buf 5 = 0) Non_Minix_header) (\<lambda>_.
      and_then (check (lb buf 3 = 0) Illegal_data_segment) (\<lambda>_.
      and_then (check (lb buf 4 = 0) Illegal_bss_segment) (\<lambda>_.
      and_then (check (lb buf 7 = 0) Illegal_symbol_table) (\<lambda>_. Inr (f, rest))))))))"

definition copy_boot :: "infile option \<Rightarrow> outfile \<Rightarrow> build_error + outfile" where
  "copy_boot name out = and_then (minix_open name) (\<lambda>(f, rest).
     let (i, buf, _) = file_read f 1024 rest in
     and_then (check (i = 512) Boot_block_size) (\<lambda>_.
     and_then (check (buf ! 510 = 0x55 \<and> buf ! 511 = 0xaa) No_boot_flag) (\<lambda>_.
     let buf = buf[508 := 0, 509 := 0] in
     file_write (take 512 buf) out)))"

text \<open>The copy loop, in blocks of the size of \<^verbatim>\<open>buf\<close>.\<close>

function copy_blocks :: "infile \<Rightarrow> nat \<Rightarrow> Byte list \<Rightarrow> outfile \<Rightarrow> build_error + outfile" where
  "copy_blocks f sz rest out =
     (if 0 < sz then
        let l = (if 1024 < sz then 1024 else sz); (n, buf, rest) = file_read f l rest in
        if n \<noteq> int l then Inl (if n < 0 then Error_reading else Unexpected_EOF)
        else and_then (file_write buf out) (copy_blocks f (sz - l) rest)
      else Inr out)"
  by pat_completeness auto
termination
  by (relation "measure (\<lambda>(f, sz, rest, out). sz)") (auto split: if_splits)

declare copy_blocks.simps [simp del]

text \<open>One of the two images: opened, measured with \<^verbatim>\<open>fstat\<close> into an \<^verbatim>\<open>unsigned int\<close>,
  copied. Returns the size.\<close>

definition copy_image_file :: "infile option \<Rightarrow> outfile \<Rightarrow> build_error + DWord \<times> outfile" where
  "copy_image_file name out = (case name of None \<Rightarrow> Inl Unable_to_open | Some f \<Rightarrow>
     (case st_size f of None \<Rightarrow> Inl Unable_to_stat | Some n \<Rightarrow>
       let sz = of_nat n :: DWord in
       and_then (copy_blocks f (unat sz) (contents f) out) (\<lambda>out. Inr (sz, out))))"

definition patch :: "nat \<Rightarrow> Byte list \<Rightarrow> outfile \<Rightarrow> build_error + outfile" where
  "patch pos bs out = and_then (file_seek pos out) (file_write bs)"

text \<open>The three low bytes of a size and a zero.\<close>

definition size_bytes :: "DWord \<Rightarrow> Byte list" where
  "size_bytes w = [ucast (w AND 0xff), ucast (drop_bit 8 w AND 0xff), ucast (drop_bit 16 w AND 0xff), 0]"

definition usage :: "build_error + outfile" where "usage = Inl Usage"

definition build_main :: "nat \<Rightarrow> infile option \<Rightarrow> infile option \<Rightarrow> infile option \<Rightarrow> outfile \<Rightarrow> build_error + outfile" where
  "build_main argc boot sys usr out =
     (if argc \<noteq> 4 then usage else
      and_then (copy_boot boot out) (\<lambda>out.
      and_then (copy_image_file sys out) (\<lambda>(sys_size, out).
      and_then (copy_image_file usr out) (\<lambda>(usr_size, out).
      let im_size = (sys_size + usr_size + 15) div 16 in
      and_then (patch 500 [ucast (im_size AND 0xff), ucast (drop_bit 8 im_size AND 0xff)] out) (\<lambda>out.
      and_then (patch 512 (size_bytes sys_size) out) (\<lambda>out.
      and_then (patch 516 (size_bytes usr_size) out) (\<lambda>out.
      patch 520 (size_bytes 0x7E6A) out)))))))"

section \<open>The image\<close>

text \<open>A file whose size is what can be read, and one with a valid header and a boot block.\<close>

definition regular :: "Byte list \<Rightarrow> infile \<Rightarrow> bool" where
  "regular bs f \<longleftrightarrow> st_size f = Some (length bs) \<and> readable f \<and> contents f = bs"

definition boot_file :: "Byte list \<Rightarrow> Byte list \<Rightarrow> bool" where
  "boot_file hdr block \<longleftrightarrow> length hdr = MINIX_HEADER_LEN \<and> take 8 hdr = minix_hdr \<and>
     lb hdr 3 = 0 \<and> lb hdr 4 = 0 \<and> lb hdr 5 = 0 \<and> lb hdr 7 = 0 \<and>
     length block = 512 \<and> block ! 510 = 0x55 \<and> block ! 511 = 0xaa"

definition image :: "Byte list \<Rightarrow> Byte list \<Rightarrow> Byte list \<Rightarrow> Byte list" where
  "image block sys usr =
     (let s = of_nat (length sys) :: DWord; u = of_nat (length usr) :: DWord; n = (s + u + 15) div 16 in
      take 500 block @ [ucast (n AND 0xff), ucast (drop_bit 8 n AND 0xff)] @ take 6 (drop 502 block) @ [0, 0] @ drop 510 block @
      size_bytes s @ size_bytes u @ size_bytes 0x7E6A @ drop 12 sys @ usr)"

definition empty_out :: "nat \<Rightarrow> outfile \<Rightarrow> bool" where
  "empty_out n out \<longleftrightarrow> o_bytes out = [] \<and> o_off out = 0 \<and> n \<le> o_cap out \<and> o_seekable out"

lemma file_write_end:
  "o_off out = length (o_bytes out) \<Longrightarrow> o_off out + length bs \<le> o_cap out \<Longrightarrow>
    file_write bs out = Inr (out\<lparr>o_bytes := o_bytes out @ bs, o_off := o_off out + length bs\<rparr>)"
  by (simp add: file_write_def)

lemma copy_blocks_ok:
  assumes "readable f" and "sz \<le> length rest" and "o_off out = length (o_bytes out)" and "o_off out + sz \<le> o_cap out"
  shows "copy_blocks f sz rest out = Inr (out\<lparr>o_bytes := o_bytes out @ take sz rest, o_off := o_off out + sz\<rparr>)"
  using assms
proof (induction sz arbitrary: rest out rule: less_induct)
  case (less sz)
  show ?case
  proof (cases "sz = 0")
    case True
    then show ?thesis by (simp add: copy_blocks.simps)
  next
    case False
    define l where "l = (if 1024 < sz then 1024 else sz)"
    have l: "0 < l" "l \<le> sz" using False by (auto simp: l_def)
    define out1 where "out1 = out\<lparr>o_bytes := o_bytes out @ take l rest, o_off := o_off out + l\<rparr>"
    have rd: "file_read f l rest = (int l, take l rest, drop l rest)"
      using less.prems(1,2) l by (simp add: file_read_def min_def)
    have w: "file_write (take l rest) out = Inr out1"
      using file_write_end [of out "take l rest"] less.prems l by (simp add: out1_def min_def)
    have "copy_blocks f sz rest out = copy_blocks f (sz - l) (drop l rest) out1"
      using False rd w by (subst copy_blocks.simps) (simp add: l_def [symmetric])
    also have "\<dots> = Inr (out1\<lparr>o_bytes := o_bytes out1 @ take (sz - l) (drop l rest), o_off := o_off out1 + (sz - l)\<rparr>)"
      by (rule less.IH) (use less.prems l in \<open>simp_all add: out1_def\<close>)
    also have "\<dots> = Inr (out\<lparr>o_bytes := o_bytes out @ take sz rest, o_off := o_off out + sz\<rparr>)"
      using l take_add [of l "sz - l" rest] by (simp add: out1_def)
    finally show ?thesis .
  qed
qed

lemma copy_image_file_ok:
  assumes "regular bs f" and "length bs < 2 ^ 32" and "o_off out = length (o_bytes out)" and "o_off out + length bs \<le> o_cap out"
  shows "copy_image_file (Some f) out =
    Inr (of_nat (length bs), out\<lparr>o_bytes := o_bytes out @ bs, o_off := o_off out + length bs\<rparr>)"
  using assms copy_blocks_ok [of f "length bs" bs out] by (simp add: copy_image_file_def regular_def Let_def)

lemma copy_boot_ok:
  assumes "boot_file hdr block" and "readable f" and "contents f = hdr @ block" and "empty_out n out" and "512 \<le> n"
  shows "copy_boot (Some f) out = Inr (out\<lparr>o_bytes := block[508 := 0, 509 := 0], o_off := 512\<rparr>)"
  using assms by (simp add: copy_boot_def minix_open_def file_read_def file_write_end boot_file_def empty_out_def
      MINIX_HEADER_LEN_def Let_def)

lemma patch_ok:
  assumes "o_seekable out" and "pos + length bs \<le> length (o_bytes out)" and "pos + length bs \<le> o_cap out"
  shows "patch pos bs out = Inr (out\<lparr>o_bytes := take pos (o_bytes out) @ bs @ drop (pos + length bs) (o_bytes out),
    o_off := pos + length bs\<rparr>)"
  using assms by (simp add: patch_def file_seek_def file_write_def)

lemma length_size_bytes [simp]: "length (size_bytes w) = 4"
  by (simp add: size_bytes_def)

lemma block_parts:
  assumes "length block = 512"
  shows "block[508 := 0, 509 := 0] = take 500 block @ take 2 (drop 500 block) @ take 6 (drop 502 block) @ [0, 0] @ drop 510 block"
proof -
  have "block[508 := 0, 509 := 0] = take 508 block @ [0, 0] @ drop 510 block"
    using assms by (simp add: upd_conv_take_nth_drop take_update_swap drop_update_swap nth_append min_def)
  moreover have "take 508 block = take 500 block @ take 2 (drop 500 block) @ take 6 (drop 502 block)"
    using take_add [of 500 8 block] take_add [of 2 6 "drop 500 block"] by simp
  ultimately show ?thesis by simp
qed

lemma build_main_ok:
  assumes boot: "boot_file hdr block" "readable f" "contents f = hdr @ block"
    and sys: "regular sys g" "12 \<le> length sys" and usr: "regular usr h"
    and n: "length sys + length usr < 2 ^ 24" and out: "empty_out (512 + length sys + length usr) out"
  shows "\<exists>out'. build_main 4 (Some f) (Some g) (Some h) out = Inr out' \<and> o_bytes out' = image block sys usr"
proof -
  let ?B = "block[508 := 0, 509 := 0]" and ?s = "of_nat (length sys) :: DWord" and ?u = "of_nat (length usr) :: DWord"
  let ?n = "(?s + ?u + 15) div 16"
  let ?im = "[ucast (?n AND 0xff), ucast (drop_bit 8 ?n AND 0xff)] :: Byte list"
  have len: "length block = 512" using boot(1) by (simp add: boot_file_def)
  have cap: "512 + length sys + length usr \<le> o_cap out" "o_seekable out" "o_bytes out = []"
    using out by (simp_all add: empty_out_def)
  define o1 where "o1 = out\<lparr>o_bytes := ?B @ sys @ usr, o_off := 512 + length sys + length usr\<rparr>"
  have run: "build_main 4 (Some f) (Some g) (Some h) out =
      and_then (patch 500 ?im o1) (\<lambda>out. and_then (patch 512 (size_bytes ?s) out) (\<lambda>out.
      and_then (patch 516 (size_bytes ?u) out) (patch 520 (size_bytes 0x7E6A))))"
    using copy_boot_ok [OF boot out] copy_image_file_ok [OF sys(1)] copy_image_file_ok [OF usr] cap n len
    by (simp add: build_main_def o1_def Let_def)
  define b1 where "b1 = take 500 block @ ?im @ take 6 (drop 502 block) @ [0, 0] @ drop 510 block"
  have b1: "length b1 = 512" using len by (simp add: b1_def)
  have p1: "patch 500 ?im o1 = Inr (o1\<lparr>o_bytes := b1 @ sys @ usr, o_off := 502\<rparr>)"
    using patch_ok [of o1 500 ?im] cap len by (simp add: o1_def block_parts b1_def)
  have p2: "patch 512 (size_bytes ?s) (o1\<lparr>o_bytes := b1 @ sys @ usr, o_off := 502\<rparr>) =
      Inr (o1\<lparr>o_bytes := b1 @ size_bytes ?s @ drop 4 sys @ usr, o_off := 516\<rparr>)"
    using patch_ok [of "o1\<lparr>o_bytes := b1 @ sys @ usr, o_off := 502\<rparr>" 512 "size_bytes ?s"] cap b1 sys(2) by (simp add: o1_def)
  have p3: "patch 516 (size_bytes ?u) (o1\<lparr>o_bytes := b1 @ size_bytes ?s @ drop 4 sys @ usr, o_off := 516\<rparr>) =
      Inr (o1\<lparr>o_bytes := b1 @ size_bytes ?s @ size_bytes ?u @ drop 8 sys @ usr, o_off := 520\<rparr>)"
    using patch_ok [of "o1\<lparr>o_bytes := b1 @ size_bytes ?s @ drop 4 sys @ usr, o_off := 516\<rparr>" 516 "size_bytes ?u"] cap b1 sys(2)
    by (simp add: o1_def)
  have p4: "patch 520 (size_bytes 0x7E6A) (o1\<lparr>o_bytes := b1 @ size_bytes ?s @ size_bytes ?u @ drop 8 sys @ usr, o_off := 520\<rparr>) =
      Inr (o1\<lparr>o_bytes := b1 @ size_bytes ?s @ size_bytes ?u @ size_bytes 0x7E6A @ drop 12 sys @ usr, o_off := 524\<rparr>)"
    using patch_ok [of "o1\<lparr>o_bytes := b1 @ size_bytes ?s @ size_bytes ?u @ drop 8 sys @ usr, o_off := 520\<rparr>" 520 "size_bytes 0x7E6A"]
      cap b1 sys(2) by (simp add: o1_def)
  show ?thesis unfolding run p1 and_then_simps p2 p3 p4 by (simp add: image_def b1_def Let_def)
qed

section \<open>The kernel finds the images\<close>

lemma dword_of_size_bytes: "unat w < 2 ^ 24 \<Longrightarrow> dword_of (size_bytes w) = w"
proof -
  assume "unat w < 2 ^ 24"
  then have "unat (take_bit 24 w) = unat w" by (simp only: unsigned_take_bit_eq take_bit_nat_eq_self)
  then have w: "take_bit 24 w = w" by (simp add: word_unat_eq_iff)
  have "dword_of (size_bytes w) = take_bit 24 w"
  proof (rule bit_word_eqI)
    fix n assume "n < LENGTH(32)"
    then show "bit (dword_of (size_bytes w)) n = bit (take_bit 24 w) n"
      by (cases "n < 8"; cases "n < 16"; cases "n < 24") (auto simp: dword_of_def size_bytes_def numeral_masks bit_simps)
  qed
  with w show ?thesis by simp
qed

text \<open>What the boot sector leaves in memory: the image from its second sector on.\<close>

definition loaded :: "Byte list \<Rightarrow> mm \<Rightarrow> bool" where
  "loaded img m \<longleftrightarrow> (\<forall>i<length img - 512. kbyte m (KERNEL_START + of_nat i) = img ! (512 + i))"

lemma image_tail:
  assumes "length block = 512"
  shows "drop 512 (image block sys usr) = size_bytes (of_nat (length sys)) @ size_bytes (of_nat (length usr)) @
    size_bytes 0x7E6A @ drop 12 sys @ usr"
  using assms by (simp add: image_def Let_def)

lemma loaded_dword:
  assumes "loaded img m" and "j + 4 \<le> length img - 512"
  shows "kdword m (KERNEL_START + of_nat j) = dword_of (take 4 (drop (512 + j) img))"
proof -
  have "kbyte m (KERNEL_START + of_nat j + of_nat i) = img ! (512 + (j + i))" if "i < 4" for i
    using assms that by (simp add: loaded_def add.assoc flip: of_nat_add)
  then have "map (\<lambda>i. kbyte m (KERNEL_START + of_nat j + of_nat i)) [0..<4] = take 4 (drop (512 + j) img)"
    using assms(2) by (intro nth_equalityI) (simp_all add: add.assoc)
  then show ?thesis by (simp only: kdword_def)
qed

lemma image_found:
  assumes len: "length block = 512" and sys: "12 \<le> length sys" and ld: "loaded (image block sys usr) m"
    and fit: "unat KERNEL_START + length sys + length usr \<le> L_USER_START" "length usr \<le> PAGE_SIZE * (NUM_PAG_DATA + NUM_PAG_CODE)"
  shows "image_ok m" and "kdword m KERNEL_START = of_nat (length sys)" and "kdword m (KERNEL_START + 4) = of_nat (length usr)"
    and "i < length usr \<Longrightarrow> kbyte m (KERNEL_START + of_nat (length sys) + of_nat i) = usr ! i"
proof -
  let ?img = "image block sys usr"
  let ?hd = "size_bytes (of_nat (length sys)) @ size_bytes (of_nat (length usr)) @ size_bytes 0x7E6A @ drop 12 sys"
  have n: "length sys < 2 ^ 24" "length usr < 2 ^ 24" using fit(1) by (simp_all add: zeos_consts)
  have li: "length ?img - 512 = length sys + length usr"
    using arg_cong [OF image_tail [OF len, of sys usr], of length] sys by simp
  have d0: "take 4 (drop (512 + 0) ?img) = size_bytes (of_nat (length sys))" using image_tail [OF len, of sys usr] by simp
  have d4: "take 4 (drop (512 + 4) ?img) = size_bytes (of_nat (length usr))"
  proof -
    have "drop (512 + 4) ?img = drop 4 (drop 512 ?img)" by (simp only: drop_drop add.commute)
    then show ?thesis by (simp add: image_tail [OF len])
  qed
  show s: "kdword m KERNEL_START = of_nat (length sys)"
    using loaded_dword [OF ld, of 0] li sys n(1) unfolding d0 by (simp add: dword_of_size_bytes)
  show u: "kdword m (KERNEL_START + 4) = of_nat (length usr)"
    using loaded_dword [OF ld, of 4] li sys n(2) unfolding d4 by (simp add: dword_of_size_bytes)
  show "image_ok m" using fit n unfolding image_ok_def s u by simp
  assume i: "i < length usr"
  have "kbyte m (KERNEL_START + of_nat (length sys) + of_nat i) = ?img ! (512 + (length sys + i))"
    using ld li i by (simp add: loaded_def add.assoc flip: of_nat_add)
  also have "\<dots> = drop 512 ?img ! (length sys + i)" using li i by (subst nth_drop) auto
  also have "\<dots> = (?hd @ usr) ! (length ?hd + i)" unfolding image_tail [OF len] using sys by simp
  also have "\<dots> = usr ! i" by (rule nth_append_length_plus)
  finally show "kbyte m (KERNEL_START + of_nat (length sys) + of_nat i) = usr ! i" .
qed

text \<open>
  From the three files to the running process: the image \<^verbatim>\<open>build\<close> writes, loaded by the
  boot sector, leaves the user program in the memory of the first process.
\<close>

lemma build_and_boot:
  assumes sy: "linked sy" and on: "powered_on (ker M)"
    and len: "length block = 512" and sys: "12 \<le> length sys" and ld: "loaded (image block sys usr) (mem (ker M))"
    and fit: "unat KERNEL_START + length sys + length usr \<le> L_USER_START" "length usr \<le> PAGE_SIZE * (NUM_PAG_DATA + NUM_PAG_CODE)"
  shows "\<exists>M'. main sh sy ep M = Some M' \<and> kernel_ok sy (ker M') boot_procs \<and> user_mode sy M M' \<and>
    setIdt sh sy ep (idt M) = Some (idt M', idt_reg M') \<and>
    (\<forall>i<length usr. i + 4 < PAGE_SIZE * NUM_PAG_DATA \<or> PAGE_SIZE * NUM_PAG_DATA \<le> i \<longrightarrow>
      user_byte sy (mem (ker M')) (of_nat L_USER_START + of_nat i) = usr ! i)"
proof -
  note F = image_found [OF len sys ld fit]
  obtain M' where M': "main sh sy ep M = Some M'" "kernel_ok sy (ker M') boot_procs" "user_mode sy M M'"
    "user_loaded sy (mem (ker M)) (mem (ker M'))" "setIdt sh sy ep (idt M) = Some (idt M', idt_reg M')"
    using main_ok [OF sy on F(1), of sh ep] by blast
  have n: "length usr < 2 ^ 24" "length usr \<le> 114688" using fit by (simp_all add: zeos_consts)
  have "user_byte sy (mem (ker M')) (of_nat L_USER_START + of_nat i) = usr ! i"
    if i: "i < length usr" "i + 4 < PAGE_SIZE * NUM_PAG_DATA \<or> PAGE_SIZE * NUM_PAG_DATA \<le> i" for i
  proof -
    have "4 \<le> unat (of_nat L_USER_START + of_nat i - gate_word)"
    proof -
      have eq: "of_nat L_USER_START + of_nat i - gate_word = of_nat i - of_nat 81916"
        by (simp add: gate_word_def zeos_consts)
      have "unat (of_nat i :: DWord) = i" using i n by simp
      then show ?thesis unfolding eq using unat_shift_window [of 81916 4 "of_nat i"] i(2) by (auto simp: zeos_consts not_less)
    qed
    then show ?thesis using M'(4) F(2-4) i n by (simp add: user_loaded_def)
  qed
  with M'(1-3,5) show ?thesis by auto
qed

section \<open>Refusals\<close>

lemma build_refuses:
  "argc \<noteq> 4 \<Longrightarrow> build_main argc boot sys usr out = Inl Usage"
  "build_main 4 None sys usr out = Inl Unable_to_open"
  by (simp_all add: build_main_def usage_def copy_boot_def minix_open_def)

lemma boot_refuses:
  assumes "length hdr = MINIX_HEADER_LEN" and "readable f" and "contents f = hdr @ block" and "length block \<le> 1024"
    and "\<not> boot_file hdr block"
  shows "\<exists>e \<in> {Non_Minix_header, Illegal_data_segment, Illegal_bss_segment, Illegal_symbol_table, Boot_block_size, No_boot_flag}.
    build_main 4 (Some f) sys usr out = Inl e"
  using assms
  by (auto simp: build_main_def copy_boot_def minix_open_def file_read_def boot_file_def MINIX_HEADER_LEN_def check_def and_then_def Let_def)

text \<open>A file that is shorter than \<^verbatim>\<open>fstat\<close> said stops the program.\<close>

lemma copy_blocks_eof:
  assumes "readable f" and "length rest < sz"
  shows "copy_blocks f sz rest out \<in> {Inl Unexpected_EOF, Inl Write_failed}"
  using assms
proof (induction sz arbitrary: rest out rule: less_induct)
  case (less sz)
  define l where "l = (if 1024 < sz then 1024 else sz)"
  have l: "0 < l" "l \<le> sz" using less.prems(2) by (auto simp: l_def)
  show ?case
  proof (cases "length rest < l")
    case True
    then show ?thesis
      using l less.prems by (subst copy_blocks.simps) (simp add: l_def [symmetric] file_read_def)
  next
    case False
    then have "copy_blocks f sz rest out = and_then (file_write (take l rest) out) (copy_blocks f (sz - l) (drop l rest))"
      using l less.prems by (subst copy_blocks.simps) (simp add: l_def [symmetric] file_read_def min_def)
    moreover have "copy_blocks f (sz - l) (drop l rest) out1 \<in> {Inl Unexpected_EOF, Inl Write_failed}" for out1
      by (rule less.IH) (use l less.prems False in auto)
    ultimately show ?thesis by (auto simp: file_write_def and_then_def)
  qed
qed

end
