(* ===== verification/Bootsect.thy ===== *)
theory Bootsect
  imports Build
begin

text \<open>
  \<^verbatim>\<open>bootsect.S\<close>, the 16-bit program in the first sector of the disk: it moves itself out of
  the way, reads the kernel and the user program through the BIOS track by track, loads the
  first descriptor table and jumps to \<^verbatim>\<open>main\<close> in protected mode. The theory shows that the
  load ends, that the memory from \<^verbatim>\<open>KERNEL_START\<close> on then holds the disk from its second
  sector on, that the loader does not write over itself, and that the interrupt controllers are
  programmed for the vectors of \<^verbatim>\<open>interrupt.c\<close>. The waits for the keyboard controller end
  whatever the controller answers; the wait for the A20 line ends when the line opens, and only
  then, and leaves memory as it was.
\<close>

section \<open>Real mode\<close>

type_synonym memory = "nat \<Rightarrow> Byte"

definition linear :: "Word16 \<Rightarrow> Word16 \<Rightarrow> nat" where
  "linear seg off = 16 * unat seg + unat off"

definition load16 :: "memory \<Rightarrow> nat \<Rightarrow> Word16" where
  "load16 m a = ucast (m a) OR push_bit 8 (ucast (m (a + 1)))"

definition store16 :: "memory \<Rightarrow> nat \<Rightarrow> Word16 \<Rightarrow> memory" where
  "store16 m a w = m(a := ucast w, a + 1 := ucast (drop_bit 8 w))"

text \<open>The registers of a call of the BIOS, and the accesses to ports.\<close>

record bios_regs =
  b_ax :: Word16
  b_bx :: Word16
  b_cx :: Word16
  b_dx :: Word16
  b_bp :: Word16
  b_es :: Word16

datatype io = Out Word16 Byte | In Word16 Byte

text \<open>
  What the program finds around it is a parameter: the video service \<^verbatim>\<open>int 0x10\<close>, the disk service
  \<^verbatim>\<open>int 0x13\<close> (after which the program restores its registers, so only memory matters), the byte a
  port gives after a sequence of accesses, and whether the A20 line is open at the \<open>n\<close>-th look at
  it after a sequence of accesses.
\<close>

record pc =
  int10 :: "bios_regs \<Rightarrow> memory \<Rightarrow> bios_regs \<times> memory"
  int13 :: "bios_regs \<Rightarrow> memory \<Rightarrow> memory"
  port_in :: "io list \<Rightarrow> Word16 \<Rightarrow> Byte"
  a20_open :: "io list \<Rightarrow> nat \<Rightarrow> bool"

text \<open>While the line is closed, bit 20 of an address is ignored.\<close>

definition a20_addr :: "bool \<Rightarrow> nat \<Rightarrow> nat" where
  "a20_addr on a = (if on then a else take_bit 20 a)"

section \<open>bootsect.S\<close>

text \<open>The word \<^verbatim>\<open>sectors\<close> of the sector is assembled from \<^verbatim>\<open>SEC_PISTA\<close> and never written, so
  it is a constant here; the other words the program reads are read from memory.\<close>

definition BOOTSEG :: Word16 where "BOOTSEG = 0x07C0"
definition INITSEG :: Word16 where "INITSEG = 0x9000"
definition SYSSEG :: Word16 where "SYSSEG = 0x1000"
definition sectors :: Word16 where "sectors = 18"

lemmas boot_consts = BOOTSEG_def INITSEG_def SYSSEG_def sectors_def

text \<open>Offsets of the labels in the sector.\<close>

definition off_gdt :: Word16 where "off_gdt = 435"
definition off_setup_sects :: Word16 where "off_setup_sects = 497"
definition off_syssize :: Word16 where "off_syssize = 500"
definition off_gdt_48 :: Word16 where "off_gdt_48 = 502"
definition off_idt_48 :: Word16 where "off_idt_48 = 491"

text \<open>The offsets of the message and of \<^verbatim>\<open>sread\<close>, which the assembler chooses; \<^verbatim>\<open>head\<close> and
  \<^verbatim>\<open>track\<close> are the next two words after \<^verbatim>\<open>sread\<close>.\<close>

record labels =
  o_msg1 :: Word16
  o_sread :: Word16

text \<open>\<^verbatim>\<open>rep movsw\<close> with the direction flag clear.\<close>

fun rep_movsw :: "nat \<Rightarrow> Word16 \<Rightarrow> Word16 \<Rightarrow> Word16 \<Rightarrow> Word16 \<Rightarrow> memory \<Rightarrow> memory" where
  "rep_movsw 0 ds si es di m = m"
| "rep_movsw (Suc cx) ds si es di m =
     (let lo = m (linear ds si); hi = m (linear ds si + 1)
      in rep_movsw cx ds (si + 2) es (di + 2) (m(linear es di := lo, linear es di + 1 := hi)))"

text \<open>From \<^verbatim>\<open>go\<close> on: the cursor is read, the message written where it is, and the cursor hidden.\<close>

definition print_loading :: "pc \<Rightarrow> labels \<Rightarrow> bios_regs \<Rightarrow> memory \<Rightarrow> bios_regs \<times> memory" where
  "print_loading hw lab r m =
     (let r = r\<lparr>b_ax := (b_ax r AND 0xff) OR push_bit 8 3, b_bx := b_bx r AND 0xff\<rparr>;
          (r, m) = int10 hw r m;
          r = r\<lparr>b_cx := 0xB, b_bx := 7, b_bp := o_msg1 lab, b_ax := 0x1301\<rparr>;
          (r, m) = int10 hw r m;
          r = r\<lparr>b_ax := (b_ax r AND 0xff) OR push_bit 8 1, b_cx := (b_cx r AND 0xff) OR push_bit 8 0x30\<rparr>
      in int10 hw r m)"

text \<open>The registers of \<^verbatim>\<open>read_it\<close> and memory; it keeps \<^verbatim>\<open>dx\<close> and \<^verbatim>\<open>bp\<close>.\<close>

record loader =
  l_es :: Word16
  l_bx :: Word16
  l_dx :: Word16
  l_bp :: Word16
  l_mem :: memory

text \<open>Its variables are words of the sector itself.\<close>

definition sread :: "labels \<Rightarrow> memory \<Rightarrow> Word16" where
  "sread lab m = load16 m (linear INITSEG (o_sread lab))"
definition head :: "labels \<Rightarrow> memory \<Rightarrow> Word16" where
  "head lab m = load16 m (linear INITSEG (o_sread lab + 2))"
definition track :: "labels \<Rightarrow> memory \<Rightarrow> Word16" where
  "track lab m = load16 m (linear INITSEG (o_sread lab + 4))"

definition set_sread :: "labels \<Rightarrow> Word16 \<Rightarrow> memory \<Rightarrow> memory" where
  "set_sread lab w m = store16 m (linear INITSEG (o_sread lab)) w"
definition set_head :: "labels \<Rightarrow> Word16 \<Rightarrow> memory \<Rightarrow> memory" where
  "set_head lab w m = store16 m (linear INITSEG (o_sread lab + 2)) w"
definition set_track :: "labels \<Rightarrow> Word16 \<Rightarrow> memory \<Rightarrow> memory" where
  "set_track lab w m = store16 m (linear INITSEG (o_sread lab + 4)) w"

text \<open>\<^verbatim>\<open>read_track\<close> prints a dot and reads \<^verbatim>\<open>al\<close> sectors; \<^verbatim>\<open>pusha\<close> and
  \<^verbatim>\<open>popa\<close> keep the registers, and the status of the call is not looked at. In its \<^verbatim>\<open>cx\<close> is
  the end of the track, from \<^verbatim>\<open>ok1_read\<close>.\<close>

definition read_track :: "pc \<Rightarrow> labels \<Rightarrow> Word16 \<Rightarrow> loader \<Rightarrow> loader" where
  "read_track hw lab ax l =
     (let cx = push_bit 9 (sectors - sread lab (l_mem l)) + l_bx l;
          m = snd (int10 hw \<lparr>b_ax = 0x0e2e, b_bx = 7, b_cx = cx, b_dx = l_dx l, b_bp = l_bp l, b_es = l_es l\<rparr> (l_mem l));
          dx = track lab m;
          cx = sread lab m;
          cx = cx + 1;
          cx = (cx AND 0xff) OR push_bit 8 (dx AND 0xff);
          dx = head lab m;
          dx = (dx AND 0xff) OR push_bit 8 (dx AND 0xff);
          dx = dx AND 0x0100;
          ax = (ax AND 0xff) OR push_bit 8 2
      in l\<lparr>l_mem := int13 hw \<lparr>b_ax = ax, b_bx = l_bx l, b_cx = cx, b_dx = dx, b_bp = l_bp l, b_es = l_es l\<rparr> m\<rparr>)"

text \<open>The carry of a 16-bit addition.\<close>

definition carry :: "Word16 \<Rightarrow> Word16 \<Rightarrow> bool" where
  "carry a b \<longleftrightarrow> 2 ^ 16 \<le> unat a + unat b"

text \<open>From \<^verbatim>\<open>ok1_read\<close> to \<^verbatim>\<open>ok2_read\<close>: the rest of the track, or what is left of the
  64 KB segment.\<close>

definition sectors_to_read :: "labels \<Rightarrow> loader \<Rightarrow> Word16" where
  "sectors_to_read lab l =
     (let ax = sectors - sread lab (l_mem l); cx = push_bit 9 ax in
      if \<not> carry cx (l_bx l) \<or> cx + l_bx l = 0 then ax else drop_bit 9 (0 - l_bx l))"

text \<open>After a read of \<^verbatim>\<open>ax\<close> sectors: the next sector, side and track.\<close>

definition next_sector :: "labels \<Rightarrow> Word16 \<Rightarrow> loader \<Rightarrow> loader" where
  "next_sector lab ax l =
     (let m = l_mem l;
          ax = ax + sread lab m;
          (m, ax) = (if ax \<noteq> sectors then (m, ax)
                     else let ax = 1 - head lab m;
                              m = (if ax \<noteq> 0 then m else set_track lab (track lab m + 1) m)
                          in (set_head lab ax m, 0))
      in l\<lparr>l_mem := set_sread lab ax m\<rparr>)"

text \<open>From \<^verbatim>\<open>ok3_read\<close> to the jump back: the address in memory; \<^verbatim>\<open>add ah,#0x10\<close> adds to the
  high byte of \<^verbatim>\<open>ax\<close> only.\<close>

definition next_address :: "Word16 \<Rightarrow> loader \<Rightarrow> loader" where
  "next_address cx l =
     (let cx = push_bit 9 cx;
          cf = carry (l_bx l) cx;
          l = l\<lparr>l_bx := l_bx l + cx\<rparr>
      in if \<not> cf then l
         else let ax = l_es l; ax = (ax AND 0xff) OR push_bit 8 (drop_bit 8 ax + 0x10)
              in l\<lparr>l_es := ax, l_bx := 0\<rparr>)"

definition ok2_read :: "pc \<Rightarrow> labels \<Rightarrow> Word16 \<Rightarrow> loader \<Rightarrow> loader" where
  "ok2_read hw lab ax l =
     (let l = read_track hw lab ax l;
          l = next_sector lab ax l
      in next_address ax l)"

partial_function (option) rp_read :: "pc \<Rightarrow> labels \<Rightarrow> loader \<Rightarrow> loader option" where
  "rp_read hw lab l =
     (if l_es l - SYSSEG \<le> load16 (l_mem l) (linear INITSEG off_syssize)
      then rp_read hw lab (ok2_read hw lab (sectors_to_read lab l) l)
      else Some l)"

text \<open>Only the low byte of \<^verbatim>\<open>sread\<close> is set at the start. A segment that is not at a 64 KB boundary
  makes the program hang.\<close>

definition read_it :: "pc \<Rightarrow> labels \<Rightarrow> loader \<Rightarrow> loader option" where
  "read_it hw lab l =
     (let al = l_mem l (linear INITSEG off_setup_sects) + 1;
          l = l\<lparr>l_mem := (l_mem l)(linear INITSEG (o_sread lab) := al)\<rparr>
      in if l_es l AND 0x0fff \<noteq> 0 then None
         else rp_read hw lab (l\<lparr>l_bx := 0\<rparr>))"

text \<open>The descriptor in the eight bytes at an address.\<close>

definition descriptor_at :: "memory \<Rightarrow> nat \<Rightarrow> Descriptor" where
  "descriptor_at m a = \<lparr>d_limit = load16 m a, lowBase = load16 m (a + 2), midBase = m (a + 4),
     flags1 = m (a + 5), flags2 = m (a + 6), highBase = m (a + 7)\<rparr>"

text \<open>The accesses to ports: \<^verbatim>\<open>kill_motor\<close>, the keyboard controller, which switches the A20
  line, and the two interrupt controllers.\<close>

definition kill_motor :: "io list" where
  "kill_motor = [Out 0x3f2 0]"

lemma unat_pred: "e \<noteq> 0 \<Longrightarrow> unat e = Suc (unat (e - 1))" for e :: DWord
  by (simp add: unat_minus_one unat_gt_0)

text \<open>The loop counts down, so it ends even if the controller never answers.\<close>

function empty_8042_loop :: "pc \<Rightarrow> DWord \<Rightarrow> io list \<Rightarrow> io list" where
  "empty_8042_loop hw ecx tr =
     (let ecx = ecx - 1 in
      if ecx = 0 then tr
      else let al = port_in hw tr 0x64; tr = tr @ [In 0x64 al] in
           if al AND 1 \<noteq> 0 then let al = port_in hw tr 0x60; tr = tr @ [In 0x60 al] in empty_8042_loop hw ecx tr
           else if al AND 2 \<noteq> 0 then empty_8042_loop hw ecx tr
           else tr)"
  by pat_completeness auto
termination
  by (relation "measure (\<lambda>(hw, ecx, tr). unat (ecx - 1))") (simp_all add: unat_pred del: diff_diff_eq)

declare empty_8042_loop.simps [simp del]

definition empty_8042 :: "pc \<Rightarrow> io list \<Rightarrow> io list" where
  "empty_8042 hw tr = empty_8042_loop hw 0xFFFFFF tr"

definition enable_a20 :: "pc \<Rightarrow> io list \<Rightarrow> io list" where
  "enable_a20 hw tr =
     (let tr = tr @ [Out 0x70 0x80];
          tr = empty_8042 hw tr;
          tr = tr @ [Out 0x64 0xD1];
          tr = empty_8042 hw tr;
          tr = tr @ [Out 0x60 0xDF]
      in empty_8042 hw tr)"

text \<open>The wait for the line: a word is written below 64 KB and compared with the one 1 MB above it.\<close>

definition TEST_ADDR :: Word16 where "TEST_ADDR = 0x7c"

partial_function (option) a20_wait :: "pc \<Rightarrow> io list \<Rightarrow> nat \<Rightarrow> Word16 \<Rightarrow> Word16 \<Rightarrow> Word16 \<Rightarrow> memory \<Rightarrow> memory option" where
  "a20_wait hw tr n ds gs ax m =
     (let ax = ax + 1; m = store16 m (linear ds TEST_ADDR) ax in
      if ax = load16 m (a20_addr (a20_open hw tr n) (linear gs (TEST_ADDR + 0x10)))
      then a20_wait hw tr (n + 1) ds gs ax m
      else Some m)"

definition wait_a20 :: "pc \<Rightarrow> io list \<Rightarrow> memory \<Rightarrow> memory option" where
  "wait_a20 hw tr m = do {
     let ax = 0; let ds = ax;
     let ax = ax - 1; let gs = ax;
     let bx = load16 m (linear ds TEST_ADDR);
     m \<leftarrow> a20_wait hw tr 0 ds gs ax m;
     Some (store16 m (linear ds TEST_ADDR) bx) }"

definition program_pics :: "io list" where
  "program_pics =
     [Out 0x20 0x11, Out 0xA0 0x11, Out 0x21 0x20, Out 0xA1 0x28, Out 0x21 0x04, Out 0xA1 0x02, Out 0x21 0x01, Out 0xA1 0x01,
      Out 0xA1 0xFF, Out 0x21 0xFB]"

text \<open>What the program hands over: memory, the registers of the two tables, \<^verbatim>\<open>cr0\<close>, the accesses to
  ports, and where it jumps to. Interrupts are off.\<close>

record handover =
  h_mem :: memory
  h_idt_reg :: Register
  h_gdt_reg :: Register
  h_cr0 :: DWord
  h_io :: "io list"
  h_cs :: Word16
  h_eip :: DWord

text \<open>The program, started with the registers \<open>r\<close>; \<^verbatim>\<open>rep movsw\<close> leaves \<^verbatim>\<open>cx\<close> zero.\<close>

definition register_at :: "memory \<Rightarrow> Word16 \<Rightarrow> Register" where
  "register_at m off = \<lparr>r_limit = load16 m (linear INITSEG off),
     r_base = ucast (load16 m (linear INITSEG off + 2)) OR push_bit 16 (ucast (load16 m (linear INITSEG off + 4)))\<rparr>"

definition bootsect :: "pc \<Rightarrow> labels \<Rightarrow> bios_regs \<Rightarrow> memory \<Rightarrow> handover option" where
  "bootsect hw lab r m = do {
     let m = rep_movsw 256 BOOTSEG 0 INITSEG 0 m;
     let (r, m) = print_loading hw lab (r\<lparr>b_ax := INITSEG, b_cx := 0, b_es := INITSEG\<rparr>) m;
     l \<leftarrow> read_it hw lab \<lparr>l_es = SYSSEG, l_bx = 0, l_dx = b_dx r, l_bp = b_bp r, l_mem = m\<rparr>;
     let tr = enable_a20 hw kill_motor;
     m \<leftarrow> wait_a20 hw tr (l_mem l);
     let tr = tr @ program_pics;
     Some \<lparr>h_mem = m, h_idt_reg = register_at m off_idt_48, h_gdt_reg = register_at m off_gdt_48,
           h_cr0 = 1, h_io = tr, h_cs = KERNEL_CS, h_eip = 0x10010\<rparr> }"

text \<open>The bytes of the sector at \<^verbatim>\<open>gdt\<close> and from \<^verbatim>\<open>setup_sects\<close> on, as the source has
  them; \<^verbatim>\<open>build\<close> writes over \<^verbatim>\<open>syssize\<close> and over the \<^verbatim>\<open>dummy\<close> word after
  \<^verbatim>\<open>gdt_addr\<close>.\<close>

definition boot_gdt :: "Byte list" where
  "boot_gdt =
     [0, 0, 0, 0, 0, 0, 0, 0,
      0, 0, 0, 0, 0, 0, 0, 0,
      0xFF, 0xFF, 0, 0, 0, 0x9a, 0xcf, 0,
      0xFF, 0xFF, 0, 0, 0, 0x92, 0xcf, 0,
      0xFF, 0xFF, 0, 0, 0, 0xfa, 0xcf, 0,
      0xFF, 0xFF, 0, 0, 0, 0xf2, 0xcf, 0,
      104, 0, 0, 0, 0, 0x89, 0, 0]"

definition boot_idt :: "Byte list" where
  "boot_idt = [0, 0, 0, 0, 0, 0]"

definition boot_tail :: "Byte list" where
  "boot_tail = [0, 0, 0, 0x00, 0x7F, 0x00, 0x80, 0xb3, 0x01, 0x09, 0x00, 0, 0, 0x55, 0xAA]"

section \<open>The interrupt controller\<close>

text \<open>
  The 8259A as its data sheet documents it: a write to the even port with bit 4 set starts an
  initialisation, in which the odd port takes the vector of line 0, the cascade and the mode;
  outside it the odd port is the mask.
\<close>

record pic =
  p_expect :: nat
  p_base :: Byte
  p_mask :: Byte

definition pic_write :: "bool \<Rightarrow> Byte \<Rightarrow> pic \<Rightarrow> pic" where
  "pic_write odd_port b p =
     (if \<not> odd_port then if bit b 4 then p\<lparr>p_expect := 2, p_mask := 0\<rparr> else p
      else if p_expect p = 2 then p\<lparr>p_expect := 3, p_base := b AND 0xF8\<rparr>
      else if p_expect p = 3 then p\<lparr>p_expect := 4\<rparr>
      else if p_expect p = 4 then p\<lparr>p_expect := 0\<rparr>
      else p\<lparr>p_mask := b\<rparr>)"

fun pic_writes :: "Word16 \<Rightarrow> io list \<Rightarrow> pic \<Rightarrow> pic" where
  "pic_writes port [] p = p"
| "pic_writes port (Out x b # ws) p =
     pic_writes port ws (if x = port then pic_write False b p else if x = port + 1 then pic_write True b p else p)"
| "pic_writes port (In x b # ws) p = pic_writes port ws p"

fun outs :: "io list \<Rightarrow> (Word16 \<times> Byte) list" where
  "outs [] = []"
| "outs (Out x b # tr) = (x, b) # outs tr"
| "outs (In x b # tr) = outs tr"

lemma outs_append [simp]: "outs (tr @ tr') = outs tr @ outs tr'"
  by (induction tr rule: outs.induct) simp_all

lemma pic_writes_append [simp]: "pic_writes port (tr @ tr') p = pic_writes port tr' (pic_writes port tr p)"
  by (induction port tr p rule: pic_writes.induct) simp_all

lemma pic_writes_other: "port \<notin> fst ` set (outs tr) \<Longrightarrow> port + 1 \<notin> fst ` set (outs tr) \<Longrightarrow> pic_writes port tr p = p"
  by (induction port tr p rule: pic_writes.induct) auto

lemma pics_programmed:
  assumes "outs tr = [(0x3f2, 0), (0x70, 0x80), (0x64, 0xD1), (0x60, 0xDF)]"
  shows "pic_writes 0x20 (tr @ program_pics) p = \<lparr>p_expect = 0, p_base = 0x20, p_mask = 0xFB\<rparr>"
    and "pic_writes 0xA0 (tr @ program_pics) p = \<lparr>p_expect = 0, p_base = 0x28, p_mask = 0xFF\<rparr>"
  using assms by (simp_all add: pic_writes_other program_pics_def pic_write_def)

section \<open>The disk service\<close>

text \<open>
  Function 2 of \<^verbatim>\<open>int 0x13\<close> as the BIOS documents it, for drive 0 with a disk of 80 tracks, two
  sides and 18 sectors: it reads sectors of one track to memory, if they do not cross a 64 KB
  boundary. It keeps its own data below \<^verbatim>\<open>0x10000\<close> and its frames above the loader.
\<close>

definition reads_disk :: "memory \<Rightarrow> pc \<Rightarrow> bool" where
  "reads_disk disk hw \<longleftrightarrow> (\<forall>r m a n c s h p.
     n = unat (b_ax r AND 0xff) \<and> c = unat (drop_bit 8 (b_cx r)) \<and> s = unat (b_cx r AND 0xff) \<and>
     h = unat (drop_bit 8 (b_dx r)) \<and> p = linear (b_es r) (b_bx r) \<and>
     drop_bit 8 (b_ax r) = 2 \<and> b_dx r AND 0xff = 0 \<and> c < 80 \<and> h < 2 \<and> 1 \<le> s \<and> 0 < n \<and> s + n \<le> 19 \<and>
     p div 0x10000 = (p + 512 * n - 1) div 0x10000 \<and> 0x10000 \<le> a \<and> a < 0x90200 \<longrightarrow>
     int13 hw r m a = (if p \<le> a \<and> a < p + 512 * n then disk (512 * ((2 * c + h) * 18 + s - 1) + (a - p)) else m a))"

text \<open>The video service has its data there too, and the screen above.\<close>

definition video_keeps :: "pc \<Rightarrow> bool" where
  "video_keeps hw \<longleftrightarrow> (\<forall>r m a. 0x10000 \<le> a \<and> a < 0x90200 \<longrightarrow> snd (int10 hw r m) a = m a)"

section \<open>The keyboard controller and the A20 line\<close>

text \<open>
  The 8042 as its data sheet documents it. If it is only read, both its buffers are empty after a
  while. A command and a byte written while they are empty are taken; the command
  \<^verbatim>\<open>0xD1\<close> writes the byte to the output port, whose bit 1 is the A20 line, and the line
  opens some time later.
\<close>

fun is_in :: "io \<Rightarrow> bool" where
  "is_in (In x b) = True"
| "is_in (Out x b) = False"

fun idle_8042 :: "io list \<Rightarrow> bool" where
  "idle_8042 [] = False"
| "idle_8042 [e] = (case e of In x b \<Rightarrow> x = 0x64 \<and> b AND 3 = 0 | Out x b \<Rightarrow> False)"
| "idle_8042 (e # e' # tr) = idle_8042 (e' # tr)"

definition settles :: "pc \<Rightarrow> bool" where
  "settles hw \<longleftrightarrow> (\<exists>n<0xFFFFFE. \<forall>tr ins. list_all is_in ins \<and> n \<le> length ins \<longrightarrow> port_in hw (tr @ ins) 0x64 AND 3 = 0)"

definition opens_a20 :: "pc \<Rightarrow> bool" where
  "opens_a20 hw \<longleftrightarrow> (\<forall>tr ins ins'. idle_8042 tr \<and> list_all is_in ins \<and> idle_8042 ins \<and> list_all is_in ins' \<longrightarrow>
     (\<exists>n. \<forall>k\<ge>n. a20_open hw (tr @ [Out 0x64 0xD1] @ ins @ [Out 0x60 0xDF] @ ins') k))"

definition standard_pc :: "memory \<Rightarrow> pc \<Rightarrow> bool" where
  "standard_pc disk hw \<longleftrightarrow> reads_disk disk hw \<and> video_keeps hw \<and> settles hw \<and> opens_a20 hw"

lemma idle_append [simp]: "idle_8042 (tr @ [e]) = idle_8042 [e]"
  by (induction tr rule: idle_8042.induct) simp_all

lemma outs_ins [simp]: "list_all is_in ins \<Longrightarrow> outs ins = []"
  by (induction ins rule: outs.induct) simp_all

lemma status_bits: "b AND 3 = 0 \<longleftrightarrow> b AND 1 = 0 \<and> b AND 2 = 0" for b :: Byte
proof -
  have "(3 :: Byte) = 1 OR 2" by simp
  then show ?thesis by (simp only: bit.conj_disj_distrib or_eq_0_iff)
qed

text \<open>The loop only reads, at most twice in each of its rounds.\<close>

lemma empty_8042_loop_reads:
  "\<exists>ins. empty_8042_loop hw ecx tr = tr @ ins \<and> list_all is_in ins \<and> length ins \<le> 2 * unat (ecx - 1)"
proof (induction hw ecx tr rule: empty_8042_loop.induct)
  case (1 hw ecx tr)
  let ?e = "ecx - 1" and ?t = "tr @ [In 0x64 (port_in hw tr 0x64)]"
  show ?case
  proof (cases "?e = 0")
    case True
    then show ?thesis by (subst empty_8042_loop.simps) simp
  next
    case False
    note u = unat_pred [OF False]
    have more: "\<exists>ins. empty_8042_loop hw ?e (tr @ i) = tr @ ins \<and> list_all is_in ins \<and> length ins \<le> 2 * unat ?e"
      if r: "\<exists>ins. empty_8042_loop hw ?e (tr @ i) = (tr @ i) @ ins \<and> list_all is_in ins \<and> length ins \<le> 2 * unat (?e - 1)"
        and i: "list_all is_in i" "length i \<le> 2" for i
    proof -
      obtain ins where "empty_8042_loop hw ?e (tr @ i) = (tr @ i) @ ins" "list_all is_in ins" "length ins \<le> 2 * unat (?e - 1)"
        using r by blast
      then show ?thesis using i u by (intro exI [of _ "i @ ins"]) simp
    qed
    show ?thesis using 1 [OF refl False refl refl] u more [of "[In 0x64 (port_in hw tr 0x64)]"]
        more [of "[In 0x64 (port_in hw tr 0x64), In 0x60 (port_in hw ?t 0x60)]"]
      by (subst empty_8042_loop.simps) (auto simp: Let_def False)
  qed
qed

lemma empty_8042_reads: "\<exists>ins. empty_8042 hw tr = tr @ ins \<and> list_all is_in ins \<and> length ins \<le> 2 * 0xFFFFFE"
  using empty_8042_loop_reads [of hw "0xFFFFFF" tr] by (simp add: empty_8042_def)

text \<open>A controller that settles is found idle before the count is over.\<close>

lemma empty_8042_loop_idle:
  assumes calm: "\<forall>tr ins. list_all is_in ins \<and> n \<le> length ins \<longrightarrow> port_in hw (tr @ ins) 0x64 AND 3 = 0"
    and "list_all is_in ins" "0 < unat (ecx - 1)" "n < unat (ecx - 1) + length ins"
  shows "\<exists>ins'. empty_8042_loop hw ecx (tr @ ins) = tr @ ins' \<and> list_all is_in ins' \<and> idle_8042 ins'"
  using assms(2-4)
proof (induction "unat (ecx - 1)" arbitrary: ecx ins rule: less_induct)
  case less
  define al where "al = port_in hw (tr @ ins) 0x64"
  let ?e = "ecx - 1" and ?i = "ins @ [In 0x64 al]"
  have e: "?e \<noteq> 0" using less.prems(2) by auto
  note u = unat_pred [OF e]
  show ?case
  proof (cases "al AND 3 = 0")
    case True
    then have "empty_8042_loop hw ecx (tr @ ins) = tr @ ?i"
      using e by (subst empty_8042_loop.simps) (simp add: Let_def al_def status_bits)
    then show ?thesis using less.prems(1) True by (intro exI [of _ ?i]) simp
  next
    case False
    have "length ins < n" using calm less.prems(1) False by (metis al_def not_le)
    then have "\<exists>ins'. empty_8042_loop hw ?e (tr @ i) = tr @ ins' \<and> list_all is_in ins' \<and> idle_8042 ins'"
      if "list_all is_in i" "length ins < length i" for i
      using less.hyps [of ?e i] less.prems(3) that u by simp
    from this [of ?i] this [of "?i @ [In 0x60 (port_in hw (tr @ ?i) 0x60)]"] show ?thesis
      using e False less.prems(1) by (subst empty_8042_loop.simps) (auto simp: Let_def al_def status_bits)
  qed
qed

lemma empty_8042_idle:
  assumes "settles hw"
  shows "\<exists>ins. empty_8042 hw tr = tr @ ins \<and> list_all is_in ins \<and> idle_8042 ins"
proof -
  obtain n where n: "n < 0xFFFFFE" "\<forall>tr ins. list_all is_in ins \<and> n \<le> length ins \<longrightarrow> port_in hw (tr @ ins) 0x64 AND 3 = 0"
    using assms by (auto simp: settles_def)
  show ?thesis using empty_8042_loop_idle [OF n(2), of "[]" "0xFFFFFF" tr] n(1) by (simp add: empty_8042_def)
qed

lemma enable_a20_outs: "outs (enable_a20 hw tr) = outs tr @ [(0x70, 0x80), (0x64, 0xD1), (0x60, 0xDF)]"
proof -
  have "outs (empty_8042 hw tr) = outs tr" for tr using empty_8042_reads [of hw tr] by auto
  then show ?thesis by (simp add: enable_a20_def Let_def)
qed

lemma idle_suffix: "idle_8042 ins \<Longrightarrow> idle_8042 (tr @ ins)"
  by (cases ins rule: rev_cases) (simp_all flip: append_assoc)

lemma enable_a20_opens:
  assumes "settles hw" and "opens_a20 hw"
  shows "\<exists>n. \<forall>k\<ge>n. a20_open hw (enable_a20 hw tr) k"
proof -
  let ?t = "tr @ [Out 0x70 0x80]"
  obtain i1 where i1: "empty_8042 hw ?t = ?t @ i1" "idle_8042 i1" using empty_8042_idle [OF assms(1), of ?t] by blast
  let ?t2 = "(?t @ i1) @ [Out 0x64 0xD1]"
  obtain i2 where i2: "empty_8042 hw ?t2 = ?t2 @ i2" "list_all is_in i2" "idle_8042 i2"
    using empty_8042_idle [OF assms(1), of ?t2] by blast
  let ?t3 = "(?t2 @ i2) @ [Out 0x60 0xDF]"
  obtain i3 where i3: "empty_8042 hw ?t3 = ?t3 @ i3" "list_all is_in i3" using empty_8042_reads [of hw ?t3] by blast
  have "enable_a20 hw tr = (?t @ i1) @ [Out 0x64 0xD1] @ i2 @ [Out 0x60 0xDF] @ i3"
    unfolding enable_a20_def Let_def i1(1) i2(1) i3(1) by simp
  then show ?thesis using assms(2) i1(2) i2 i3(2) idle_suffix [of i1 ?t] unfolding opens_a20_def by metis
qed

subsection \<open>The wait for the line\<close>

lemma load_store16: "load16 (store16 m a w) a = w"
  unfolding load16_def store16_def by (rule bit_word_eqI) (auto simp: bit_simps)

lemma load_store16_other: "a + 1 < b \<or> b + 1 < a \<Longrightarrow> load16 (store16 m a w) b = load16 m b"
  by (auto simp: load16_def store16_def)

lemma store16_twice: "store16 (store16 m a v) a w = store16 m a w"
  by (auto simp: store16_def)

lemma store_load16: "store16 m a (load16 m a) = m"
proof -
  have "ucast (load16 m a) = m a" "ucast (drop_bit 8 (load16 m a)) = m (a + 1)"
    unfolding load16_def by (rule bit_word_eqI; auto simp: bit_simps dest: bit_imp_le_length)+
  then show ?thesis by (simp add: store16_def)
qed

text \<open>The two addresses: the same while the line is closed, different ones when it is open.\<close>

lemma test_addr: "linear 0 TEST_ADDR = 0x7c" "a20_addr True (linear (- 1) (TEST_ADDR + 0x10)) = 0x10007c"
  "a20_addr False (linear (- 1) (TEST_ADDR + 0x10)) = 0x7c"
  by (simp_all add: linear_def TEST_ADDR_def a20_addr_def take_bit_eq_mod unsigned_minus_1_eq_mask mask_eq_exp_minus_1)

lemma a20_wait_closed:
  assumes "\<not> a20_open hw tr n"
  shows "a20_wait hw tr n 0 (- 1) ax m = a20_wait hw tr (n + 1) 0 (- 1) (ax + 1) (store16 m 0x7c (ax + 1))"
  using assms by (subst a20_wait.simps) (simp add: Let_def test_addr load_store16)

text \<open>When the line is open the loop ends, in its second round at the latest, since the word above
  1 MB stays as it is.\<close>

lemma a20_wait_open:
  assumes "a20_open hw tr n" "a20_open hw tr (n + 1)"
  shows "\<exists>w. a20_wait hw tr n 0 (- 1) ax m = Some (store16 m 0x7c w)"
proof -
  have other: "load16 (store16 m 0x7c w) 0x10007c = load16 m 0x10007c" for w m by (rule load_store16_other) simp
  have r: "a20_wait hw tr k 0 (- 1) ax m = (if ax + 1 = load16 m 0x10007c
      then a20_wait hw tr (k + 1) 0 (- 1) (ax + 1) (store16 m 0x7c (ax + 1)) else Some (store16 m 0x7c (ax + 1)))"
    if "a20_open hw tr k" for k ax m using that by (subst a20_wait.simps) (simp add: Let_def test_addr other)
  show ?thesis
  proof (cases "ax + 1 = load16 m 0x10007c")
    case True
    have "ax + 1 + 1 \<noteq> ax + 1" by simp
    then show ?thesis
      using True r [OF assms(1), of ax m] r [OF assms(2), of "ax + 1" "store16 m 0x7c (ax + 1)"]
      unfolding other store16_twice True by (metis Suc_eq_plus1)
  next
    case False
    then show ?thesis using r [OF assms(1), of ax m] by auto
  qed
qed

lemma a20_wait_step:
  "(\<exists>w. a20_wait hw tr n 0 (- 1) ax m = Some (store16 m 0x7c w)) \<or>
   a20_wait hw tr n 0 (- 1) ax m = a20_wait hw tr (n + 1) 0 (- 1) (ax + 1) (store16 m 0x7c (ax + 1))"
  using a20_wait.simps [of hw tr n 0 "- 1" ax m] by (auto simp: Let_def test_addr)

lemma a20_wait_ends:
  assumes "\<forall>k\<ge>n. a20_open hw tr k" and "i \<le> n"
  shows "\<exists>w. a20_wait hw tr i 0 (- 1) ax m = Some (store16 m 0x7c w)"
  using assms(2)
proof (induction i arbitrary: ax m rule: inc_induct)
  case base
  show ?case using a20_wait_open [of hw tr n ax m] assms(1) by simp
next
  case (step i)
  show ?case using a20_wait_step [of hw tr i ax m] step.IH [of "ax + 1" "store16 m 0x7c (ax + 1)"]
    by (auto simp: store16_twice)
qed

lemma wait_a20_ends: "\<forall>k\<ge>n. a20_open hw tr k \<Longrightarrow> wait_a20 hw tr m = Some m"
  using a20_wait_ends [of n hw tr 0 "- 1" m] by (auto simp: wait_a20_def test_addr store16_twice store_load16)

lemma a20_wait_opened: "a20_wait hw tr n ds gs ax m = Some m' \<Longrightarrow> ds = 0 \<Longrightarrow> gs = - 1 \<Longrightarrow> \<exists>k\<ge>n. a20_open hw tr k"
proof (induction hw tr n ds gs ax m m' rule: a20_wait.raw_induct [rotated 1, consumes 1])
  case (1 f hw tr n ds gs ax m m')
  show ?case
  proof (cases "a20_open hw tr n")
    case False
    then have "f hw tr (n + 1) 0 (- 1) (ax + 1) (store16 m 0x7c (ax + 1)) = Some m'"
      using "1.prems" "1.hyps" by (simp add: Let_def test_addr load_store16)
    from "1.IH" [OF this] show ?thesis by (auto dest: Suc_leD)
  qed auto
qed

lemma wait_a20_never: "\<forall>k. \<not> a20_open hw tr k \<Longrightarrow> wait_a20 hw tr m = None"
  using a20_wait_opened [of hw tr 0 0 "- 1" "- 1" m] by (cases "a20_wait hw tr 0 0 (- 1) (- 1) m") (auto simp: wait_a20_def)

section \<open>The state of the load\<close>

lemma unat16: "n < 2 ^ 16 \<Longrightarrow> unat (of_nat n :: Word16) = n"
  by (simp add: take_bit_nat_eq_self unsigned_of_nat)

lemma byte_mask: "(0xff :: Word16) = mask 8"
  by (simp add: mask_eq_exp_minus_1)

lemma word16_eqI: "unat (a :: Word16) = unat b \<Longrightarrow> a = b"
  by (rule word_unat_eq_iff [THEN iffD2])

text \<open>The words of the sector that are variables lie in its code, before the table.\<close>

definition in_code :: "labels \<Rightarrow> bool" where
  "in_code lab \<longleftrightarrow> unat (o_sread lab) + 6 \<le> 435"

definition vars :: "labels \<Rightarrow> nat set" where
  "vars lab = {0x90000 + unat (o_sread lab) ..< 0x90000 + unat (o_sread lab) + 6}"

lemma var_addr:
  assumes "in_code lab"
  shows "linear INITSEG (o_sread lab) = 0x90000 + unat (o_sread lab)"
    "linear INITSEG (o_sread lab + 2) = 0x90000 + unat (o_sread lab) + 2"
    "linear INITSEG (o_sread lab + 4) = 0x90000 + unat (o_sread lab) + 4"
  using assms by (simp_all add: linear_def INITSEG_def in_code_def unat_word_ariths)

lemma vars_set:
  assumes "in_code lab"
  shows "sread lab (set_sread lab w m) = w" "head lab (set_sread lab w m) = head lab m" "track lab (set_sread lab w m) = track lab m"
    "sread lab (set_head lab w m) = sread lab m" "head lab (set_head lab w m) = w" "track lab (set_head lab w m) = track lab m"
    "sread lab (set_track lab w m) = sread lab m" "head lab (set_track lab w m) = head lab m" "track lab (set_track lab w m) = w"
  unfolding sread_def head_def track_def set_sread_def set_head_def set_track_def var_addr [OF assms]
  by (simp_all add: load_store16 load_store16_other)

lemma set_outside:
  assumes "in_code lab" and "a \<notin> vars lab"
  shows "set_sread lab w m a = m a" "set_head lab w m a = m a" "set_track lab w m a = m a"
  using assms(2) unfolding set_sread_def set_head_def set_track_def var_addr [OF assms(1)] by (auto simp: store16_def vars_def)

lemma vars_cong:
  assumes "in_code lab" and "\<forall>a\<in>vars lab. m' a = m a"
  shows "sread lab m' = sread lab m" "head lab m' = head lab m" "track lab m' = track lab m"
  using assms(2) unfolding sread_def head_def track_def load16_def var_addr [OF assms(1)] by (auto simp: vars_def)

text \<open>The registers after \<open>r\<close> sectors; sector 0 is the boot sector, so the next one has number
  \<open>r + 1\<close>.\<close>

definition at_sector :: "labels \<Rightarrow> nat \<Rightarrow> loader \<Rightarrow> bool" where
  "at_sector lab r l \<longleftrightarrow> l_es l = of_nat (0x1000 * (1 + r div 128)) \<and> l_bx l = of_nat (512 * (r mod 128)) \<and>
     sread lab (l_mem l) = of_nat ((r + 1) mod 18) \<and> head lab (l_mem l) = of_nat ((r + 1) div 18 mod 2) \<and>
     track lab (l_mem l) = of_nat ((r + 1) div 36)"

text \<open>How much is read at once.\<close>

definition chunk :: "nat \<Rightarrow> nat" where
  "chunk r = min (18 - (r + 1) mod 18) (128 - r mod 128)"

lemma chunk_bounds: "0 < chunk r" "(r + 1) mod 18 + chunk r \<le> 18" "r mod 128 + chunk r \<le> 128" "chunk r \<le> 18"
  using mod_less_divisor [of 18 "r + 1"] mod_less_divisor [of 128 r] unfolding chunk_def by linarith+

lemma push9: "push_bit 9 (of_nat n :: Word16) = of_nat (512 * n)"
  by (simp add: push_bit_eq_mult mult.commute)

lemma sectors_to_read_ok:
  assumes "at_sector lab r l"
  shows "sectors_to_read lab l = of_nat (chunk r)"
proof -
  define x b where "x = (r + 1) mod 18" and "b = r mod 128"
  have b: "x < 18" "b < 128" by (simp_all add: x_def b_def)
  have l: "sread lab (l_mem l) = of_nat x" "l_bx l = of_nat (512 * b)" using assms by (simp_all add: at_sector_def x_def b_def)
  have ax: "sectors - sread lab (l_mem l) = of_nat (18 - x)" using b(1) by (simp add: l(1) sectors_def of_nat_diff)
  have cx: "push_bit 9 (sectors - sread lab (l_mem l)) = of_nat (512 * (18 - x))" unfolding ax by (rule push9)
  have u: "unat (of_nat (512 * (18 - x)) :: Word16) = 512 * (18 - x)" "unat (of_nat (512 * b) :: Word16) = 512 * b"
    using b by (simp_all add: unat16 del: of_nat_mult)
  have cf: "carry (of_nat (512 * (18 - x))) (of_nat (512 * b)) \<longleftrightarrow> 128 \<le> 18 - x + b"
    unfolding carry_def u by auto
  have sum: "(of_nat (512 * (18 - x)) :: Word16) + of_nat (512 * b) = of_nat (512 * (18 - x + b))" by (simp add: algebra_simps)
  have z: "(of_nat (512 * (18 - x)) :: Word16) + of_nat (512 * b) = 0 \<longleftrightarrow> 18 - x + b = 128"
    if "128 \<le> 18 - x + b"
  proof -
    define q where "q = 18 - x + b"
    have "128 \<le> q" "q < 256" using that b by (simp_all add: q_def)
    moreover have "65536 dvd 512 * q \<longleftrightarrow> 128 dvd q" using dvd_times_left_cancel_iff [of 512 128 q] by simp
    ultimately have "65536 dvd 512 * q \<longleftrightarrow> q = 128" by (auto elim!: dvdE)
    then show ?thesis unfolding sum word_of_nat_eq_0_iff q_def by simp
  qed
  have neg: "drop_bit 9 (0 - of_nat (512 * b) :: Word16) = of_nat (128 - b)" if "0 < b"
  proof -
    have "(0 - of_nat (512 * b) :: Word16) = of_nat (65536 - 512 * b)" using b(2) by (simp add: of_nat_diff)
    then have "unat (drop_bit 9 (0 - of_nat (512 * b) :: Word16)) = drop_bit 9 (unat (of_nat (65536 - 512 * b) :: Word16))"
      by (simp only: unat_drop_bit_eq)
    also have "\<dots> = (65536 - 512 * b) div 512" using that by (simp add: unat16 drop_bit_eq_div del: of_nat_diff)
    also have "65536 - 512 * b = 512 * (128 - b)" by simp
    also have "512 * (128 - b) div 512 = 128 - b" by simp
    finally show ?thesis by (intro word16_eqI) (simp add: unat16)
  qed
  have "sectors_to_read lab l = (if 128 < 18 - x + b then of_nat (128 - b) else of_nat (18 - x))"
    unfolding sectors_to_read_def Let_def cx l(2) cf using ax z neg b by auto
  moreover have "chunk r = (if 128 < 18 - x + b then 128 - b else 18 - x)" unfolding chunk_def x_def [symmetric] b_def [symmetric] by auto
  ultimately show ?thesis by simp
qed

section \<open>One read\<close>

lemma packed:
  "((lo AND 0xff) OR push_bit 8 hi) AND 0xff = lo AND (0xff :: Word16)"
  "drop_bit 8 ((lo AND 0xff) OR push_bit 8 hi) = hi AND (0xff :: Word16)"
  unfolding byte_mask by (rule bit_word_eqI; auto simp: bit_simps)+

lemma low_byte: "n < 256 \<Longrightarrow> of_nat n AND (0xff :: Word16) = of_nat n"
  unfolding byte_mask take_bit_eq_mask [symmetric]
  by (rule word16_eqI) (simp add: unsigned_take_bit_eq unat16 take_bit_nat_eq_self)

lemma sector_number: "(2 * ((q :: nat) div 36) + q div 18 mod 2) * 18 + q mod 18 = q"
proof -
  have "q div 36 = q div 18 div 2" by (simp add: div_mult2_eq [symmetric])
  then have "2 * (q div 36) + q div 18 mod 2 = q div 18" by presburger
  then show ?thesis by simp
qed

lemma segment_split:
  assumes "(r :: nat) < 1024"
  obtains d b where "r = 128 * d + b" "r div 128 = d" "r mod 128 = b" "b < 128" "d < 8"
  using assms by (intro that [of "r div 128" "r mod 128"]) (simp_all add: less_mult_imp_div_less)

lemma load_address:
  assumes "at_sector lab r l" and "r < 1024"
  shows "linear (l_es l) (l_bx l) = 0x10000 + 512 * r"
proof -
  obtain d b where d: "r = 128 * d + b" "r div 128 = d" "r mod 128 = b" "b < 128" "d < 8" by (rule segment_split [OF assms(2)])
  then have "unat (l_es l) = 0x1000 * (1 + d)" "unat (l_bx l) = 512 * b"
    using assms(1) unfolding at_sector_def d(2,3) by (simp_all add: unat16 del: of_nat_mult of_nat_add)
  then show ?thesis unfolding linear_def d(1) by simp
qed

lemma one_segment:
  assumes "r < 1024"
  shows "(0x10000 + 512 * r) div 0x10000 = (0x10000 + 512 * r + 512 * chunk r - 1) div 0x10000"
proof -
  obtain d b where d: "r = 128 * d + b" "r div 128 = d" "r mod 128 = b" "b < 128" "d < 8" by (rule segment_split [OF assms])
  have div_eq: "x div 0x10000 = k" if "x = 0x10000 * k + y" "y < 0x10000" for x k y :: nat using that by simp
  have n: "0 < chunk r" "b + chunk r \<le> 128" using chunk_bounds(1,3) [of r] d(3) by simp_all
  have "(0x10000 + 512 * r) div 0x10000 = 1 + d" by (rule div_eq [of _ _ "512 * b"]) (use d in simp_all)
  moreover have "(0x10000 + 512 * r + 512 * chunk r - 1) div 0x10000 = 1 + d"
    by (rule div_eq [of _ _ "512 * b + 512 * chunk r - 1"]) (use d n in simp_all)
  ultimately show ?thesis by simp
qed

lemma reads_diskD:
  assumes "reads_disk disk hw"
    and "unat (b_ax r AND 0xff) = n" "drop_bit 8 (b_ax r) = 2" "unat (b_cx r AND 0xff) = s" "unat (drop_bit 8 (b_cx r)) = c"
    and "unat (drop_bit 8 (b_dx r)) = h" "b_dx r AND 0xff = 0" "linear (b_es r) (b_bx r) = p"
    and "c < 80" "h < 2" "1 \<le> s" "0 < n" "s + n \<le> 19" "p div 0x10000 = (p + 512 * n - 1) div 0x10000" "0x10000 \<le> a" "a < 0x90200"
  shows "int13 hw r m a = (if p \<le> a \<and> a < p + 512 * n then disk (512 * ((2 * c + h) * 18 + s - 1) + (a - p)) else m a)"
  using assms unfolding reads_disk_def by blast

lemma read_track_ok:
  assumes io: "standard_pc disk hw" and lab: "in_code lab" and at: "at_sector lab r l" and r: "r < 1024"
  shows "\<exists>m. read_track hw lab (of_nat (chunk r)) l = l\<lparr>l_mem := m\<rparr> \<and> (\<forall>a. 0x10000 \<le> a \<and> a < 0x90200 \<longrightarrow>
    m a = (if 0x10000 + 512 * r \<le> a \<and> a < 0x10000 + 512 * (r + chunk r) then disk (512 + (a - 0x10000)) else l_mem l a))"
proof -
  let ?q = "r + 1" and ?n = "chunk r"
  define m1 where "m1 = snd (int10 hw \<lparr>b_ax = 0x0e2e, b_bx = 7, b_cx = push_bit 9 (sectors - sread lab (l_mem l)) + l_bx l,
    b_dx = l_dx l, b_bp = l_bp l, b_es = l_es l\<rparr> (l_mem l))"
  have m1: "m1 a = l_mem l a" if "0x10000 \<le> a" "a < 0x90200" for a using io that by (simp add: m1_def standard_pc_def video_keeps_def)
  have v: "sread lab m1 = sread lab (l_mem l)" "head lab m1 = head lab (l_mem l)" "track lab m1 = track lab (l_mem l)"
    by (rule vars_cong [OF lab], use lab in \<open>auto simp: vars_def in_code_def intro!: m1\<close>)+
  define rs where "rs = \<lparr>b_ax = (of_nat ?n AND 0xff) OR push_bit 8 2, b_bx = l_bx l,
    b_cx = (sread lab m1 + 1 AND 0xff) OR push_bit 8 (track lab m1 AND 0xff),
    b_dx = ((head lab m1 AND 0xff) OR push_bit 8 (head lab m1 AND 0xff)) AND 0x0100, b_bp = l_bp l, b_es = l_es l\<rparr>"
  have s: "sread lab m1 + 1 = of_nat (?q mod 18 + 1)" "track lab m1 = of_nat (?q div 36)" using at by (simp_all add: at_sector_def v)
  have x: "?q mod 18 + 1 < 256" "?q div 36 < 80" "?n < 256" using mod_less_divisor [of 18 ?q] chunk_bounds(4) [of r] r by auto
  have ax: "unat (b_ax rs AND 0xff) = ?n" "drop_bit 8 (b_ax rs) = 2"
    unfolding rs_def bios_regs.simps packed using x(3) low_byte [of ?n] by (simp_all add: unat16)
  have cx: "unat (b_cx rs AND 0xff) = ?q mod 18 + 1" "unat (drop_bit 8 (b_cx rs)) = ?q div 36"
    unfolding rs_def s bios_regs.simps packed using x(1,2) low_byte [of "?q mod 18 + 1"] low_byte [of "?q div 36"]
    by (simp_all only: and.assoc) (simp_all add: unat16 del: of_nat_add of_nat_Suc)
  have "head lab m1 = 0 \<and> ?q div 18 mod 2 = 0 \<or> head lab m1 = 1 \<and> ?q div 18 mod 2 = 1"
    using at unfolding at_sector_def v by (cases "?q div 18 mod 2 = 0") auto
  then have dx: "unat (drop_bit 8 (b_dx rs)) = ?q div 18 mod 2" "b_dx rs AND 0xff = 0" by (auto simp: rs_def)
  have p: "linear (b_es rs) (b_bx rs) = 0x10000 + 512 * r" using load_address [OF at r] by (simp add: rs_def)
  note seg = one_segment [OF r]
  have lba: "512 * ((2 * (?q div 36) + ?q div 18 mod 2) * 18 + (?q mod 18 + 1) - 1) + (a - (0x10000 + 512 * r)) =
      512 + (a - 0x10000)" if "0x10000 + 512 * r \<le> a" for a
  proof -
    have "(2 * (?q div 36) + ?q div 18 mod 2) * 18 + (?q mod 18 + 1) - 1 = r + 1" using sector_number [of ?q] by simp
    then show ?thesis using that by (simp del: add_diff_cancel_left' add_diff_cancel_right' One_nat_def)
  qed
  have "int13 hw rs m1 a = (if 0x10000 + 512 * r \<le> a \<and> a < 0x10000 + 512 * (r + ?n)
      then disk (512 + (a - 0x10000)) else l_mem l a)" if "0x10000 \<le> a" "a < 0x90200" for a
  proof -
    have h: "?q div 18 mod 2 < 2" "1 \<le> ?q mod 18 + 1" "?q mod 18 + 1 + ?n \<le> 19" using chunk_bounds(2) [of r] by simp_all
    have "int13 hw rs m1 a = (if 0x10000 + 512 * r \<le> a \<and> a < 0x10000 + 512 * r + 512 * ?n
        then disk (512 * ((2 * (?q div 36) + ?q div 18 mod 2) * 18 + (?q mod 18 + 1) - 1) + (a - (0x10000 + 512 * r))) else l_mem l a)"
      unfolding m1 [OF that, symmetric] using io
      by (intro reads_diskD [OF _ ax cx dx p x(2) h(1,2) chunk_bounds(1) h(3) seg that]) (simp add: standard_pc_def)
    also have "0x10000 + 512 * r + 512 * ?n = 0x10000 + 512 * (r + ?n)" by simp
    finally show ?thesis using lba [of a] by simp
  qed
  then show ?thesis
    by (intro exI [of _ "int13 hw rs m1"]) (simp add: read_track_def Let_def rs_def m1_def)
qed


text \<open>Moving to the next track, and within a track.\<close>

lemma track_split: "x = 18 * k + y \<Longrightarrow> y < (18 :: nat) \<Longrightarrow> x mod 18 = y" "x = 18 * k + y \<Longrightarrow> y < (18 :: nat) \<Longrightarrow> x div 18 = k"
  by simp_all

lemma next_track:
  assumes "q mod 18 + n = (18 :: nat)"
  shows "(q + n) mod 18 = 0" "(q + n) div 18 = q div 18 + 1"
proof -
  have "q + n = 18 * (q div 18 + 1) + 0" using assms mult_div_mod_eq [of 18 q]
    by (simp only: distrib_left add_0_right)
  from track_split [OF this] show "(q + n) mod 18 = 0" "(q + n) div 18 = q div 18 + 1" by simp_all
qed

lemma same_track:
  assumes "q mod 18 + n < (18 :: nat)"
  shows "(q + n) mod 18 = q mod 18 + n" "(q + n) div 18 = q div 18"
proof -
  have "q + n = 18 * (q div 18) + (q mod 18 + n)" using mult_div_mod_eq [of 18 q] by linarith
  from track_split [OF this assms] show "(q + n) mod 18 = q mod 18 + n" "(q + n) div 18 = q div 18" .
qed

lemma next_side: "(d + 1) mod 2 = 1 - d mod 2" "(d + 1) div 2 = d div 2 + d mod 2" for d :: nat
  by presburger+

text \<open>The position on the disk after \<open>q\<close> sectors.\<close>

definition position :: "labels \<Rightarrow> nat \<Rightarrow> memory \<Rightarrow> bool" where
  "position lab q m \<longleftrightarrow> sread lab m = of_nat (q mod 18) \<and> head lab m = of_nat (q div 18 mod 2) \<and> track lab m = of_nat (q div 36)"

lemma next_sector_ok:
  assumes lab: "in_code lab" and p: "position lab q (l_mem l)" and n: "q mod 18 + n \<le> 18" and ax: "ax = of_nat n"
  shows "\<exists>m. next_sector lab ax l = l\<lparr>l_mem := m\<rparr> \<and> position lab (q + n) m \<and> (\<forall>a. a \<notin> vars lab \<longrightarrow> m a = l_mem l a)"
proof -
  have l: "sread lab (l_mem l) = of_nat (q mod 18)" "head lab (l_mem l) = of_nat (q div 18 mod 2)" "track lab (l_mem l) = of_nat (q div 36)"
    using p by (simp_all add: position_def)
  have sum: "ax + sread lab (l_mem l) = of_nat (q mod 18 + n)" by (simp add: ax l(1))
  have half: "q div 36 = q div 18 div 2" for q :: nat by (simp add: div_mult2_eq [symmetric])
  have full: "ax + sread lab (l_mem l) = sectors \<longleftrightarrow> q mod 18 + n = 18"
  proof
    assume "ax + sread lab (l_mem l) = sectors"
    then have "unat (of_nat (q mod 18 + n) :: Word16) = unat sectors" using sum by simp
    then show "q mod 18 + n = 18" using n by (simp add: unat16 sectors_def del: of_nat_add)
  qed (simp only: sum, simp add: sectors_def)
  show ?thesis
  proof (cases "q mod 18 + n = 18")
    case True
    note t = next_track [OF True]
    have c: "head lab (l_mem l) = 0 \<and> q div 18 mod 2 = 0 \<or> head lab (l_mem l) = 1 \<and> q div 18 mod 2 = 1"
      using l(2) by (cases "q div 18 mod 2 = 0") auto
    define m where "m = set_sread lab 0 (set_head lab (1 - head lab (l_mem l))
      (if 1 - head lab (l_mem l) \<noteq> 0 then l_mem l else set_track lab (track lab (l_mem l) + 1) (l_mem l)))"
    have "next_sector lab ax l = l\<lparr>l_mem := m\<rparr>" using full True by (simp add: next_sector_def Let_def m_def)
    moreover have "position lab (q + n) m"
      unfolding position_def t half [of "q + n"] next_side half [of q, symmetric] using c l(3) by (auto simp: m_def vars_set [OF lab])
    moreover have "\<forall>a. a \<notin> vars lab \<longrightarrow> m a = l_mem l a" by (simp add: m_def set_outside [OF lab])
    ultimately show ?thesis by blast
  next
    case False
    then have "q mod 18 + n < 18" using n by simp
    note t = same_track [OF this]
    define m where "m = set_sread lab (of_nat (q mod 18 + n)) (l_mem l)"
    have "next_sector lab ax l = l\<lparr>l_mem := m\<rparr>" using full False sum by (simp add: next_sector_def Let_def m_def)
    moreover have "position lab (q + n) m"
      unfolding position_def t half [of "q + n"] half [of q, symmetric] using l by (simp add: m_def vars_set [OF lab])
    moreover have "\<forall>a. a \<notin> vars lab \<longrightarrow> m a = l_mem l a" by (simp add: m_def set_outside [OF lab])
    ultimately show ?thesis by blast
  qed
qed

lemma es_moves:
  assumes "d < 8"
  shows "((of_nat (0x1000 * (1 + d)) :: Word16) AND 0xff) OR push_bit 8 (drop_bit 8 (of_nat (0x1000 * (1 + d))) + 0x10) =
    of_nat (0x1000 * (2 + d))"
proof -
  have "d = 0 \<or> d = 1 \<or> d = 2 \<or> d = 3 \<or> d = 4 \<or> d = 5 \<or> d = 6 \<or> d = 7" using assms by arith
  then show ?thesis by (elim disjE) simp_all
qed

lemma next_address_ok:
  assumes at: "l_es l = of_nat (0x1000 * (1 + r div 128))" "l_bx l = of_nat (512 * (r mod 128))" and r: "r < 1024" and n: "n \<le> 18" "r mod 128 + n \<le> 128"
  shows "next_address (of_nat n) l =
    l\<lparr>l_es := of_nat (0x1000 * (1 + (r + n) div 128)), l_bx := of_nat (512 * ((r + n) mod 128))\<rparr>"
proof -
  obtain d b where d: "r = 128 * d + b" "r div 128 = d" "r mod 128 = b" "b < 128" "d < 8" by (rule segment_split [OF r])
  have l: "l_es l = of_nat (0x1000 * (1 + d))" "l_bx l = of_nat (512 * b)"
    using at unfolding d(2,3) by simp_all
  have sum: "(of_nat (512 * b) :: Word16) + of_nat (512 * n) = of_nat (512 * (b + n))" by (simp add: algebra_simps)
  show ?thesis
  proof (cases "b + n = 128")
    case True
    then have "r + n = 128 * (d + 1)" using d(1) by simp
    then have t: "(r + n) div 128 = d + 1" "(r + n) mod 128 = 0" by simp_all
    have cf: "carry (of_nat (512 * b)) (of_nat (512 * n))"
      using True d(4) n(1) by (simp add: carry_def unat16 del: of_nat_mult)
    show ?thesis
      unfolding next_address_def Let_def push9 t l using cf True es_moves [OF d(5)] l(1) by simp
  next
    case False
    then have lt: "b + n < 128" using n(2) d(3) by simp
    have eq: "r + n = 128 * d + (b + n)" using d(1) by simp
    have t: "(r + n) div 128 = d" "(r + n) mod 128 = b + n" unfolding eq using lt by simp_all
    have "\<not> carry (of_nat (512 * b)) (of_nat (512 * n))"
      using lt by (simp add: carry_def unat16 del: of_nat_mult)
    then show ?thesis unfolding next_address_def Let_def push9 t l(2) sum using l(1) by simp
  qed
qed

section \<open>The loop\<close>

text \<open>Memory after \<open>r\<close> sectors, with what was there before behind them.\<close>

definition holding :: "labels \<Rightarrow> memory \<Rightarrow> memory \<Rightarrow> nat \<Rightarrow> memory \<Rightarrow> bool" where
  "holding lab disk m0 r m \<longleftrightarrow> (\<forall>a. 0x10000 \<le> a \<and> a < 0x90200 \<and> a \<notin> vars lab \<longrightarrow>
     m a = (if a < 0x10000 + 512 * r then disk (512 + (a - 0x10000)) else m0 a))"

lemma ok2_read_ok:
  assumes io: "standard_pc disk hw" and lab: "in_code lab" and at: "at_sector lab r l" and r: "r < 1024"
    and m: "holding lab disk m0 r (l_mem l)"
  shows "at_sector lab (r + chunk r) (ok2_read hw lab (sectors_to_read lab l) l)"
    and "holding lab disk m0 (r + chunk r) (l_mem (ok2_read hw lab (sectors_to_read lab l) l))"
proof -
  let ?n = "chunk r"
  obtain m1 where m1: "read_track hw lab (of_nat ?n) l = l\<lparr>l_mem := m1\<rparr>"
    "\<forall>a. 0x10000 \<le> a \<and> a < 0x90200 \<longrightarrow> m1 a =
      (if 0x10000 + 512 * r \<le> a \<and> a < 0x10000 + 512 * (r + ?n) then disk (512 + (a - 0x10000)) else l_mem l a)"
    using read_track_ok [OF io lab at r] by blast
  have top: "r + ?n \<le> 1024"
  proof -
    obtain d b where d: "r = 128 * d + b" "r div 128 = d" "r mod 128 = b" "b < 128" "d < 8" by (rule segment_split [OF r])
    then show ?thesis using chunk_bounds(3) [of r] by simp
  qed
  have same: "m1 a = l_mem l a" if a: "a \<in> vars lab" for a
  proof -
    have "0x90000 \<le> a" "a < 0x90200" using a lab by (auto simp: vars_def in_code_def)
    moreover have "\<not> a < 0x10000 + 512 * (r + ?n)" using calculation(1) top by simp
    ultimately show ?thesis using m1(2) by simp
  qed
  have "position lab (r + 1) m1"
    using at vars_cong [OF lab, of m1 "l_mem l"] same by (simp add: position_def at_sector_def)
  then obtain m2 where m2: "next_sector lab (of_nat ?n) (l\<lparr>l_mem := m1\<rparr>) = l\<lparr>l_mem := m2\<rparr>" "position lab (r + 1 + ?n) m2"
    "\<forall>a. a \<notin> vars lab \<longrightarrow> m2 a = m1 a"
    using next_sector_ok [OF lab, of "r + 1" "l\<lparr>l_mem := m1\<rparr>" ?n "of_nat ?n"] chunk_bounds(2) [of r] by auto
  have na: "next_address (of_nat ?n) (l\<lparr>l_mem := m2\<rparr>) =
      (l\<lparr>l_mem := m2\<rparr>)\<lparr>l_es := of_nat (0x1000 * (1 + (r + ?n) div 128)), l_bx := of_nat (512 * ((r + ?n) mod 128))\<rparr>"
    by (rule next_address_ok [OF _ _ r chunk_bounds(4,3)]) (use at in \<open>simp_all add: at_sector_def\<close>)
  have ok2: "ok2_read hw lab (sectors_to_read lab l) l =
      (l\<lparr>l_mem := m2\<rparr>)\<lparr>l_es := of_nat (0x1000 * (1 + (r + ?n) div 128)), l_bx := of_nat (512 * ((r + ?n) mod 128))\<rparr>"
    unfolding sectors_to_read_ok [OF at] ok2_read_def Let_def m1(1) m2(1) by (rule na)
  have q: "r + 1 + ?n = r + ?n + 1" by simp
  show "at_sector lab (r + ?n) (ok2_read hw lab (sectors_to_read lab l) l)"
    unfolding ok2 using m2(2) unfolding q by (simp add: at_sector_def position_def)
  show "holding lab disk m0 (r + ?n) (l_mem (ok2_read hw lab (sectors_to_read lab l) l))"
    unfolding ok2 using m1(2) m2(3) m by (simp add: holding_def)
qed

lemma rp_read_ok:
  assumes io: "standard_pc disk hw" and lab: "in_code lab" and z: "load16 m0 (linear INITSEG off_syssize) = of_nat z" "z < 0x8000"
    and "at_sector lab r l" and "holding lab disk m0 r (l_mem l)" and "r \<le> 128 * (z div 0x1000 + 1)"
  shows "\<exists>l'. rp_read hw lab l = Some l' \<and> holding lab disk m0 (128 * (z div 0x1000 + 1)) (l_mem l')"
  using assms(5-7)
proof (induction "128 * (z div 0x1000 + 1) - r" arbitrary: r l rule: less_induct)
  case less
  let ?T = "128 * (z div 0x1000 + 1)"
  have T: "?T \<le> 1024" using z(2) by (simp add: less_mult_imp_div_less Suc_leI)
  have lin: "linear INITSEG off_syssize = 0x901f4" by (simp add: linear_def INITSEG_def off_syssize_def)
  have r: "r \<le> 1024" using less.prems(3) T by (rule order_trans)
  have "l_mem l a = m0 a" if "a = 0x901f4 \<or> a = 0x901f5" for a
    using less.prems(2) that r lab unfolding holding_def vars_def in_code_def by auto
  then have size: "load16 (l_mem l) (linear INITSEG off_syssize) = of_nat z"
    using z(1) unfolding lin load16_def by simp
  have es: "l_es l - SYSSEG = of_nat (0x1000 * (r div 128))"
    using less.prems(1) by (simp add: at_sector_def SYSSEG_def)
  have rd: "r div 128 \<le> 8" using less.prems(3) T by simp
  then have "l_es l - SYSSEG \<le> of_nat z \<longleftrightarrow> 0x1000 * (r div 128) \<le> z"
    unfolding es word_le_nat_alt using z(2) by (simp add: unat16 del: of_nat_mult)
  also have "\<dots> \<longleftrightarrow> r div 128 < z div 0x1000 + 1" by (simp add: less_Suc_eq_le less_eq_div_iff_mult_less_eq mult.commute)
  also have "\<dots> \<longleftrightarrow> r < ?T" by (simp add: div_less_iff_less_mult mult.commute)
  finally have more: "l_es l - SYSSEG \<le> load16 (l_mem l) (linear INITSEG off_syssize) \<longleftrightarrow> r < ?T" unfolding size .
  show ?case
  proof (cases "r < ?T")
    case False
    then have "r = ?T" using less.prems(3) by simp
    then show ?thesis using less.prems(2) more by (subst rp_read.simps) simp
  next
    case True
    let ?l = "ok2_read hw lab (sectors_to_read lab l) l"
    have "r + chunk r \<le> ?T"
    proof -
      have "r + chunk r \<le> 128 * (r div 128) + 128" using chunk_bounds(3) [of r] mult_div_mod_eq [of 128 r] by linarith
      moreover have "r div 128 + 1 \<le> z div 0x1000 + 1" using True by (simp add: div_less_iff_less_mult less_Suc_eq_le [symmetric] mult.commute)
      ultimately show ?thesis by simp
    qed
    then have "\<exists>l'. rp_read hw lab ?l = Some l' \<and> holding lab disk m0 ?T (l_mem l')"
      using chunk_bounds(1) [of r] True T
      by (intro less.hyps [of "r + chunk r"] ok2_read_ok [OF io lab less.prems(1) _ less.prems(2)]) simp_all
    then show ?thesis using more True by (subst rp_read.simps) simp
  qed
qed

text \<open>\<^verbatim>\<open>read_it\<close> from its call: with no setup sectors it starts at the second sector.\<close>

lemma read_it_ok:
  assumes io: "standard_pc disk hw" and lab: "in_code lab" and z: "load16 m0 (linear INITSEG off_syssize) = of_nat z" "z < 0x8000"
    and none: "m0 (linear INITSEG off_setup_sects) = 0" and zero: "\<forall>a\<in>vars lab. m0 a = 0"
  shows "\<exists>l. read_it hw lab \<lparr>l_es = SYSSEG, l_bx = 0, l_dx = dx, l_bp = bp, l_mem = m0\<rparr> = Some l \<and>
    holding lab disk m0 (128 * (z div 0x1000 + 1)) (l_mem l)"
proof -
  let ?o = "0x90000 + unat (o_sread lab)"
  let ?m = "m0(?o := 1)"
  define l where "l = \<lparr>l_es = SYSSEG, l_bx = 0, l_dx = dx, l_bp = bp, l_mem = ?m\<rparr>"
  have "sread lab ?m = 1" "head lab ?m = 0" "track lab ?m = 0"
    using zero unfolding sread_def head_def track_def load16_def var_addr [OF lab] by (simp_all add: vars_def)
  then have at: "at_sector lab 0 l" by (simp add: at_sector_def SYSSEG_def l_def)
  have hold: "holding lab disk m0 0 (l_mem l)" by (auto simp: holding_def vars_def l_def)
  have "\<exists>l'. rp_read hw lab l = Some l' \<and> holding lab disk m0 (128 * (z div 0x1000 + 1)) (l_mem l')"
    by (rule rp_read_ok [OF io lab z at hold]) simp
  moreover have "read_it hw lab \<lparr>l_es = SYSSEG, l_bx = 0, l_dx = dx, l_bp = bp, l_mem = m0\<rparr> = rp_read hw lab l"
    unfolding read_it_def Let_def var_addr [OF lab] by (simp add: none l_def SYSSEG_def)
  ultimately show ?thesis by simp
qed

section \<open>The program\<close>

lemma rep_movsw_ok:
  assumes "unat si + 2 * cx < 2 ^ 16" and "unat di + 2 * cx < 2 ^ 16" and "linear ds si + 2 * cx \<le> linear es di"
  shows "rep_movsw cx ds si es di m a =
    (if linear es di \<le> a \<and> a < linear es di + 2 * cx then m (linear ds si + (a - linear es di)) else m a)"
  using assms
proof (induction cx arbitrary: si di m)
  case (Suc cx)
  have u: "unat (si + 2) = unat si + 2" "unat (di + 2) = unat di + 2"
    using Suc.prems(1,2) by (simp_all add: unat_word_ariths)
  then have lin: "linear ds (si + 2) = linear ds si + 2" "linear es (di + 2) = linear es di + 2" by (simp_all add: linear_def)
  define m1 where "m1 = m(linear es di := m (linear ds si), linear es di + 1 := m (linear ds si + 1))"
  have m1: "m1 (linear es di) = m (linear ds si)" "m1 (linear es di + 1) = m (linear ds si + 1)"
    "a \<noteq> linear es di \<Longrightarrow> a \<noteq> linear es di + 1 \<Longrightarrow> m1 a = m a" for a by (simp_all add: m1_def)
  have "rep_movsw (Suc cx) ds si es di m a = rep_movsw cx ds (si + 2) es (di + 2) m1 a" by (simp add: m1_def Let_def)
  also have "\<dots> = (if linear es di + 2 \<le> a \<and> a < linear es di + 2 + 2 * cx
      then m1 (linear ds si + 2 + (a - (linear es di + 2))) else m1 a)"
    by (subst Suc.IH) (use Suc.prems in \<open>simp_all add: lin u\<close>)
  also have "\<dots> = (if linear es di \<le> a \<and> a < linear es di + 2 * Suc cx then m (linear ds si + (a - linear es di)) else m a)"
  proof -
    consider "a = linear es di" | "a = linear es di + 1" | "a < linear es di" | "linear es di + 2 \<le> a" by linarith
    then show ?thesis using Suc.prems(3) by cases (auto simp: m1 m1(2) [simplified] dest!: le_Suc_ex)
  qed
  finally show ?case .
qed auto

lemma print_loading_keeps: "video_keeps hw \<Longrightarrow> 0x10000 \<le> a \<Longrightarrow> a < 0x90200 \<Longrightarrow> snd (print_loading hw lab r m) a = m a"
  unfolding video_keeps_def print_loading_def Let_def by (simp add: case_prod_beta)

text \<open>The program as a whole, for a disk whose first sector the BIOS has loaded.\<close>

lemma bootsect_ok:
  assumes io: "standard_pc disk hw" and lab: "in_code lab" and first: "\<forall>i<512. m (0x7C00 + i) = disk i"
    and z: "load16 disk 500 = of_nat z" "z < 0x8000" and none: "disk 497 = 0"
    and zero: "\<forall>i<6. disk (unat (o_sread lab) + i) = 0"
  shows "\<exists>h. bootsect hw lab rs m = Some h \<and> (\<forall>i<0x10000 * (z div 0x1000 + 1). h_mem h (0x10000 + i) = disk (512 + i)) \<and>
    (\<forall>i<512. 0x90000 + i \<notin> vars lab \<longrightarrow> h_mem h (0x90000 + i) = disk i) \<and> h_cr0 h = 1 \<and>
    h_io h = enable_a20 hw kill_motor @ program_pics \<and> h_cs h = KERNEL_CS \<and> h_eip h = 0x10010 \<and>
    h_idt_reg h = \<lparr>r_limit = load16 disk 491, r_base = ucast (load16 disk 493) OR push_bit 16 (ucast (load16 disk 495))\<rparr> \<and>
    h_gdt_reg h = \<lparr>r_limit = load16 disk 502, r_base = ucast (load16 disk 504) OR push_bit 16 (ucast (load16 disk 506))\<rparr>"
proof -
  define m0 where "m0 = rep_movsw 256 BOOTSEG 0 INITSEG 0 m"
  obtain rs1 m1 where p: "print_loading hw lab (rs\<lparr>b_ax := INITSEG, b_cx := 0, b_es := INITSEG\<rparr>) m0 = (rs1, m1)" by fastforce
  have m1: "m1 a = m0 a" if "0x10000 \<le> a" "a < 0x90200" for a
    using print_loading_keeps [of hw a lab] io that p unfolding standard_pc_def by (metis snd_conv)
  have m0: "m1 (0x90000 + i) = disk i" if "i < 512" for i
    using rep_movsw_ok [of 0 256 0 BOOTSEG INITSEG m "0x90000 + i"] first that m1 [of "0x90000 + i"] by (simp add: m0_def boot_consts linear_def)
  have lin: "linear INITSEG off_syssize = 0x90000 + 500" "linear INITSEG off_setup_sects = 0x90000 + 497"
    "linear INITSEG off_gdt_48 = 0x90000 + 502" "linear INITSEG off_idt_48 = 0x90000 + 491"
    by (simp_all add: linear_def INITSEG_def off_syssize_def off_setup_sects_def off_gdt_48_def off_idt_48_def)
  have "m1 a = 0" if a: "a \<in> vars lab" for a
  proof -
    obtain i where i: "a = 0x90000 + (unat (o_sread lab) + i)" "i < 6" using a by (auto simp: vars_def dest!: le_Suc_ex)
    then show ?thesis using m0 [of "unat (o_sread lab) + i"] zero lab by (simp add: in_code_def)
  qed
  moreover have "load16 m1 (linear INITSEG off_syssize) = of_nat z" "m1 (linear INITSEG off_setup_sects) = 0"
    using z(1) none m0 [of 497] m0 [of 500] m0 [of 501] unfolding lin load16_def by (simp_all add: add.assoc)
  ultimately obtain l where l: "read_it hw lab \<lparr>l_es = SYSSEG, l_bx = 0, l_dx = b_dx rs1, l_bp = b_bp rs1, l_mem = m1\<rparr> = Some l"
    "holding lab disk m1 (128 * (z div 0x1000 + 1)) (l_mem l)"
    using read_it_ok [OF io lab _ z(2)] by blast
  have T: "z div 0x1000 + 1 \<le> 8" using z(2) by (simp add: less_mult_imp_div_less Suc_leI)
  have sys: "l_mem l (0x10000 + i) = disk (512 + i)" if "i < 0x10000 * (z div 0x1000 + 1)" for i
    using l(2) that T unfolding holding_def vars_def by simp
  have sec: "l_mem l (0x90000 + i) = disk i" if "i < 512" "0x90000 + i \<notin> vars lab" for i
  proof -
    have "\<not> 0x90000 + i < 0x10000 + 512 * (128 * (z div 0x1000 + 1))" using T by simp
    then show ?thesis using l(2) m0 [OF that(1)] that unfolding holding_def by simp
  qed
  have w: "load16 (l_mem l) (0x90000 + i) = load16 disk i" if "435 \<le> i" "i + 1 < 512" for i
    using sec [of i] sec [of "i + 1"] that lab unfolding load16_def vars_def in_code_def by (simp add: add.assoc)
  obtain n where "\<forall>k\<ge>n. a20_open hw (enable_a20 hw kill_motor) k"
    using enable_a20_opens io unfolding standard_pc_def by blast
  then have a20: "wait_a20 hw (enable_a20 hw kill_motor) (l_mem l) = Some (l_mem l)" by (rule wait_a20_ends)
  show ?thesis
    using l(1) a20 sys sec w [of 502] w [of 504] w [of 506] w [of 491] w [of 493] w [of 495]
    unfolding bootsect_def m0_def [symmetric] p register_at_def lin Let_def by (simp add: add.assoc)
qed

section \<open>From the disk to main\<close>

text \<open>The assembled boot sector: the table and the words at its end are where \<^verbatim>\<open>build\<close> and
  \<^verbatim>\<open>mm.c\<close> expect them.\<close>

definition assembled :: "labels \<Rightarrow> Byte list \<Rightarrow> bool" where
  "assembled lab block \<longleftrightarrow> length block = 512 \<and> in_code lab \<and> (\<forall>i<6. block ! (unat (o_sread lab) + i) = 0) \<and>
     take 56 (drop 435 block) = boot_gdt \<and> take 6 (drop 491 block) = boot_idt \<and> drop 497 block = boot_tail"

text \<open>The disk starts with the image.\<close>

definition on_disk :: "Byte list \<Rightarrow> memory \<Rightarrow> bool" where
  "on_disk img disk \<longleftrightarrow> (\<forall>i<length img. disk i = img ! i)"

text \<open>What the processor and its memory keep when \<^verbatim>\<open>main\<close> starts.\<close>

definition handed_over :: "handover \<Rightarrow> machine \<Rightarrow> bool" where
  "handed_over h M \<longleftrightarrow> (\<forall>f j. j < 4096 \<longrightarrow> ram (mem (ker M)) f j = h_mem h (4096 * f + j)) \<and>
     (\<forall>e<7. gdt M e = descriptor_at (h_mem h) (unat (r_base (h_gdt_reg h)) + 8 * e)) \<and> gdt_reg M = h_gdt_reg h \<and>
     idt_reg M = h_idt_reg h \<and> cr0 (mem (ker M)) = h_cr0 h"

lemma length_boot_gdt [simp]: "length boot_gdt = 56"
  by (simp add: boot_gdt_def)

lemma image_sector:
  assumes "assembled lab block"
  shows "take 512 (image block sys usr) = (let n = (of_nat (length sys) + of_nat (length usr) + 15) div 16 :: DWord in
    take 435 block @ boot_gdt @ take 6 (drop 491 block) @ [0, 0, 0, ucast (n AND 0xff), ucast (drop_bit 8 n AND 0xff)] @
    [0x00, 0x80, 0xb3, 0x01, 0x09, 0x00, 0, 0, 0x55, 0xAA])"
proof -
  have b: "length block = 512" "take 56 (drop 435 block) = boot_gdt" "drop 497 block = boot_tail"
    using assms by (simp_all add: assembled_def)
  have "take 500 block = take 435 block @ take 56 (drop 435 block) @ take 6 (drop 491 block) @ take 3 (drop 497 block)"
    using take_add [of 435 65 block] take_add [of 56 9 "drop 435 block"] take_add [of 6 3 "drop 491 block"] by simp
  moreover have "drop 502 block = drop 5 (drop 497 block)" "drop 510 block = drop 13 (drop 497 block)" by simp_all
  ultimately show ?thesis using b by (simp add: image_def Let_def boot_tail_def)
qed

lemma image_words:
  assumes "assembled lab block" and "on_disk (image block sys usr) disk" and "length sys + length usr \<le> 0x7FFF0"
  shows "disk 497 = 0" "load16 disk 500 = of_nat ((length sys + length usr + 15) div 16)"
    "load16 disk 502 = 0x8000" "load16 disk 504 = 0x01b3" "load16 disk 506 = 9"
    "i < 56 \<Longrightarrow> disk (435 + i) = boot_gdt ! i" "i < 435 \<Longrightarrow> disk i = block ! i"
    "load16 disk 491 = 0" "load16 disk 493 = 0" "load16 disk 495 = 0"
proof -
  let ?img = "image block sys usr"
  define n where "n = ((of_nat (length sys) + of_nat (length usr) + 15) div 16 :: DWord)"
  let ?hd = "take 435 block @ boot_gdt @ take 6 (drop 491 block)"
  have blk: "length block = 512" using assms(1) by (simp add: assembled_def)
  note sec = image_sector [OF assms(1), of sys usr, folded n_def, unfolded Let_def]
  have len: "512 \<le> length ?img" using blk by (simp add: image_def Let_def)
  have d: "disk i = take 512 ?img ! i" if "i < 512" for i using assms(2) that len by (simp add: on_disk_def)
  have hd: "length ?hd = 497" using blk by simp
  have t: "disk (497 + i) = ([0, 0, 0, ucast (n AND 0xff), ucast (drop_bit 8 n AND 0xff)] @
    [0x00, 0x80, 0xb3, 0x01, 0x09, 0x00, 0, 0, 0x55, 0xAA]) ! i" if "i < 15" for i
    using d [of "497 + i"] nth_append_length_plus [of ?hd _ i] that hd unfolding sec by simp
  show "disk 497 = 0" using t [of 0] by simp
  show "load16 disk 502 = 0x8000" "load16 disk 504 = 0x01b3" "load16 disk 506 = 9"
    using t [of 5] t [of 6] t [of 7] t [of 8] t [of 9] t [of 10] by (simp_all add: load16_def)
  have un: "unat n = (length sys + length usr + 15) div 16"
  proof -
    have "n = of_nat (length sys + length usr + 15) div 16" by (simp add: n_def)
    then have "unat n = unat (of_nat (length sys + length usr + 15) :: DWord) div 16" by (simp add: unat_div del: of_nat_add)
    then show ?thesis using assms(3) by (simp del: of_nat_add)
  qed
  have "load16 disk 500 = ucast n"
  proof -
    have "load16 disk 500 = ucast (ucast (n AND 0xff) :: Byte) OR push_bit 8 (ucast (ucast (drop_bit 8 n AND 0xff) :: Byte))"
      using t [of 3] t [of 4] by (simp add: load16_def)
    also have "\<dots> = ucast n"
      by (rule bit_word_eqI) (auto simp: numeral_masks bit_simps)
    finally show ?thesis .
  qed
  then have "load16 disk 500 = of_nat (unat n)" by simp
  then show "load16 disk 500 = of_nat ((length sys + length usr + 15) div 16)" unfolding un .
  show "disk (435 + i) = boot_gdt ! i" if "i < 56"
    using d [of "435 + i"] that blk unfolding sec by (simp add: nth_append)
  show "disk i = block ! i" if "i < 435" using d [of i] that blk unfolding sec by (simp add: nth_append)
  have "disk (491 + i) = (boot_idt @ drop 497 (take 512 ?img)) ! i" if "i < 6" for i
    using d [of "491 + i"] that assms(1) unfolding sec by (simp add: nth_append assembled_def boot_idt_def)
  from this [of 0] this [of 1] this [of 2] this [of 3] this [of 4] this [of 5]
  show "load16 disk 491 = 0" "load16 disk 493 = 0" "load16 disk 495 = 0" by (simp_all add: load16_def boot_idt_def)
qed

text \<open>The image is in memory, and the table of the sector is the one \<^verbatim>\<open>main\<close> goes on with.\<close>

lemma boot_handover:
  assumes io: "standard_pc disk hw" and first: "\<forall>i<512. m (0x7C00 + i) = disk i"
    and blk: "assembled lab block" and img: "on_disk (image block sys usr) disk"
    and sys: "12 \<le> length sys" and len: "length sys + length usr \<le> 0x7FFF0"
  shows "\<exists>h. bootsect hw lab rs m = Some h \<and> h_cr0 h = 1 \<and> h_io h = enable_a20 hw kill_motor @ program_pics \<and> h_cs h = KERNEL_CS \<and> h_eip h = KERNEL_START + 16 \<and>
    h_gdt_reg h = \<lparr>r_limit = 0x8000, r_base = GDT_START\<rparr> \<and> h_idt_reg h = \<lparr>r_limit = 0, r_base = 0\<rparr> \<and>
    (\<forall>i<length sys + length usr. h_mem h (0x10000 + i) = image block sys usr ! (512 + i)) \<and>
    (\<forall>i<56. h_mem h (unat GDT_START + i) = boot_gdt ! i)"
proof -
  let ?n = "(length sys + length usr + 15) div 16"
  note w = image_words [OF blk img len]
  have n: "?n < 0x8000" using len by simp
  have lab: "in_code lab" and zero: "\<forall>i<6. disk (unat (o_sread lab) + i) = 0"
    using blk w(7) by (auto simp: assembled_def in_code_def)
  obtain h where h: "bootsect hw lab rs m = Some h" "\<forall>i<0x10000 * (?n div 0x1000 + 1). h_mem h (0x10000 + i) = disk (512 + i)"
    "\<forall>i<512. 0x90000 + i \<notin> vars lab \<longrightarrow> h_mem h (0x90000 + i) = disk i" "h_cr0 h = 1" "h_io h = enable_a20 hw kill_motor @ program_pics" "h_cs h = KERNEL_CS" "h_eip h = 0x10010"
    "h_gdt_reg h = \<lparr>r_limit = 0x8000, r_base = ucast (0x01b3 :: Word16) OR push_bit 16 (ucast (9 :: Word16))\<rparr>"
    "h_idt_reg h = \<lparr>r_limit = 0, r_base = 0\<rparr>"
    using bootsect_ok [OF io lab first w(2) n w(1) zero, of rs] unfolding w(3-5) w(8-10) by auto
  have li: "length (image block sys usr) = 512 + (length sys + length usr)"
  proof -
    have b: "length block = 512" using blk by (simp add: assembled_def)
    have "length (image block sys usr) - 512 = length sys + length usr"
      using arg_cong [OF image_tail [OF b, of sys usr], of length] sys by simp
    moreover have "512 \<le> length (image block sys usr)" using b by (simp add: image_def Let_def)
    ultimately show ?thesis by simp
  qed
  have "length sys + length usr \<le> 0x10000 * (?n div 0x1000 + 1)"
  proof -
    have "length sys + length usr \<le> 16 * ?n" by simp
    moreover have "?n < 0x1000 * (?n div 0x1000 + 1)" using div_less_iff_less_mult [of "0x1000" ?n "?n div 0x1000 + 1"] by (simp add: mult.commute)
    ultimately show ?thesis by linarith
  qed
  then have "h_mem h (0x10000 + i) = image block sys usr ! (512 + i)" if "i < length sys + length usr" for i
    using h(2) img that li unfolding on_disk_def by (auto dest!: spec [of _ i])
  moreover have "h_mem h (unat GDT_START + i) = boot_gdt ! i" if "i < 56" for i
  proof -
    have "h_mem h (0x90000 + (435 + i)) = disk (435 + i)" using h(3) [rule_format, of "435 + i"] that lab by (simp add: vars_def in_code_def)
    then show ?thesis using w(6) [OF that] by (simp add: GDT_START_def add.assoc)
  qed
  ultimately show ?thesis using h by (simp add: KERNEL_START_def GDT_START_def)
qed

lemma boot_loaded:
  assumes "handed_over h M" and "\<forall>i<length sys + length usr. h_mem h (0x10000 + i) = image block sys usr ! (512 + i)"
    and "length block = 512" "12 \<le> length sys" "length sys + length usr \<le> 0x7FFF0"
  shows "loaded (image block sys usr) (mem (ker M))"
  unfolding loaded_def
proof (intro allI impI)
  fix i assume i: "i < length (image block sys usr) - 512"
  then have i: "i < length sys + length usr"
    using arg_cong [OF image_tail [OF assms(3), of sys usr], of length] assms(4) by simp
  then have "unat (of_nat i :: DWord) = i" using assms(5) by simp
  then have u: "unat (KERNEL_START + of_nat i) = 65536 + i"
    using i assms(5) by (subst unat_add32) (simp_all add: KERNEL_START_def)
  have "4096 * page_of (KERNEL_START + of_nat i) + offset_of (KERNEL_START + of_nat i) = 65536 + i"
    unfolding unat_page_of unat_offset_of u by simp
  moreover have "offset_of (KERNEL_START + of_nat i) < 4096" unfolding unat_offset_of by simp
  ultimately show "kbyte (mem (ker M)) (KERNEL_START + of_nat i) = image block sys usr ! (512 + i)"
    using assms(1,2) i by (simp add: kbyte_def handed_over_def)
qed

text \<open>The segments of the table: user data is of the outer level, kernel data is not.\<close>

lemma boot_segments:
  assumes "handed_over h M" and "h_gdt_reg h = \<lparr>r_limit = 0x8000, r_base = GDT_START\<rparr>"
    and "\<forall>i<56. h_mem h (unat GDT_START + i) = boot_gdt ! i"
  shows "outer_selector M USER_DS = USER_DS" "outer_selector M KERNEL_DS = 0"
proof -
  have "flags1 (gdt M e) = boot_gdt ! (8 * e + 5)" if "e < 7" for e
    using assms(1,2) assms(3) [rule_format, of "8 * e + 5"] that by (simp add: handed_over_def descriptor_at_def add.assoc)
  from this [of 5] this [of 3] show "outer_selector M USER_DS = USER_DS" "outer_selector M KERNEL_DS = 0"
    by (simp_all add: outer_selector_def segment_consts boot_gdt_def)
qed

text \<open>From the disk to user mode. The lines 0 and 1 of the first controller raise the vectors of the
  clock and the keyboard.\<close>

definition in_user_mode :: "symbols \<Rightarrow> entry_points \<Rightarrow> Byte list \<Rightarrow> handover \<Rightarrow> machine \<Rightarrow> machine \<Rightarrow> bool" where
  "in_user_mode sy ep usr h M M' \<longleftrightarrow> kernel_ok sy (ker M') boot_procs \<and> user_mode sy M M' \<and>
     ds_reg M' = USER_DS \<and> es_reg M' = USER_DS \<and> fs_reg M' = 0 \<and> gs_reg M' = 0 \<and>
     (\<forall>p. gate_offset (idt M' (unat (p_base (pic_writes 0x20 (h_io h) p)))) = clock_handler ep \<and>
       gate_offset (idt M' (unat (p_base (pic_writes 0x20 (h_io h) p)) + 1)) = keyboard_handler ep) \<and>
     (\<forall>i<length usr. i + 4 < PAGE_SIZE * NUM_PAG_DATA \<or> PAGE_SIZE * NUM_PAG_DATA \<le> i \<longrightarrow>
       user_byte sy (mem (ker M')) (of_nat L_USER_START + of_nat i) = usr ! i)"

lemma disk_boots:
  assumes io: "standard_pc disk hw" and first: "\<forall>i<512. m (0x7C00 + i) = disk i"
    and blk: "assembled lab block" and img: "on_disk (image block sys usr) disk"
    and sys: "12 \<le> length sys" and len: "length sys + length usr \<le> 0x7FFF0"
    and usr: "length usr \<le> PAGE_SIZE * (NUM_PAG_DATA + NUM_PAG_CODE)"
    and sy: "linked sy"
  shows "\<exists>h. bootsect hw lab rs m = Some h \<and> h_eip h = KERNEL_START + 16 \<and>
    (\<forall>M. powered_on (ker M) \<and> handed_over h M \<longrightarrow> (\<exists>M'. main sh sy ep M = Some M' \<and> in_user_mode sy ep usr h M M'))"
proof -
  have b: "length block = 512" using blk by (simp add: assembled_def)
  obtain h where h: "bootsect hw lab rs m = Some h" "h_eip h = KERNEL_START + 16" "h_io h = enable_a20 hw kill_motor @ program_pics"
    "h_gdt_reg h = \<lparr>r_limit = 0x8000, r_base = GDT_START\<rparr>"
    "\<forall>i<length sys + length usr. h_mem h (0x10000 + i) = image block sys usr ! (512 + i)"
    "\<forall>i<56. h_mem h (unat GDT_START + i) = boot_gdt ! i"
    using boot_handover [OF io first blk img sys len] by blast
  have fit: "unat KERNEL_START + length sys + length usr \<le> L_USER_START" using len by (simp add: zeos_consts)
  have "\<exists>M'. main sh sy ep M = Some M' \<and> in_user_mode sy ep usr h M M'"
    if M: "powered_on (ker M)" "handed_over h M" for M
  proof -
    have ld: "loaded (image block sys usr) (mem (ker M))" by (rule boot_loaded [OF M(2) h(5) b sys len])
    have pic: "pic_writes 0x20 (h_io h) p = \<lparr>p_expect = 0, p_base = 0x20, p_mask = 0xFB\<rparr>" for p
      unfolding h(3) by (rule pics_programmed) (simp add: enable_a20_outs kill_motor_def)
    from build_and_boot [OF sy M(1) b sys ld fit usr, of sh ep] boot_segments [OF M(2) h(4,6)]
      setIdt_gates [of sh sy ep "idt M"] show ?thesis
      unfolding in_user_mode_def pic by (auto simp: user_mode_def)
  qed
  with h(1,2) show ?thesis by blast
qed

end
