(* ===== verification/Debug.thy ===== *)
theory Debug
  imports Interrupt Kernel_Inv
begin

text \<open>
  The diagnostic routines: \<^verbatim>\<open>print_queue\<close> and \<^verbatim>\<open>print_stack\<close> of
  \<^verbatim>\<open>utils.c\<close>, \<^verbatim>\<open>debug_stack\<close> and \<^verbatim>\<open>overflow_breakpoint\<close> of
  \<^verbatim>\<open>sched.c\<close>. They print through local arrays of fixed size; the theory shows for
  which states the arrays are large enough and what is printed.
\<close>

section \<open>The routines\<close>

definition print_entry :: "symbols \<Rightarrow> lptr \<Rightarrow> kernel \<Rightarrow> kernel option" where
  "print_entry sy p k = do {
     let pos_task_s = list_entry sy p OFF_anchor;
     let pos_task = task_pos sy (task_addr sy pos_task_s);
     buff \<leftarrow> itoa (of_nat pos_task) (replicate 9 0);
     k \<leftarrow> on_scr (printk (lit [CHR 0x0A])) k;
     k \<leftarrow> on_scr (printk buff) k;
     k \<leftarrow> on_scr (printk (lit '': PID '')) k;
     buff \<leftarrow> itoa (PID (task k pos_task_s)) buff;
     on_scr (printk buff) k }"

fun print_entries :: "symbols \<Rightarrow> lptr list \<Rightarrow> kernel \<Rightarrow> kernel option" where
  "print_entries sy [] k = Some k"
| "print_entries sy (p # ps) k = do { k \<leftarrow> print_entry sy p k; print_entries sy ps k }"

definition print_queue :: "symbols \<Rightarrow> lptr \<Rightarrow> kernel \<Rightarrow> kernel option" where
  "print_queue sy head k = do { ps \<leftarrow> list_for_each head (lists k); print_entries sy ps k }"

text \<open>The loop of \<^verbatim>\<open>print_stack\<close>, at most \<^verbatim>\<open>aux\<close> lines from the base of the stack.\<close>

definition print_word :: "symbols \<Rightarrow> DWord \<Rightarrow> cint \<Rightarrow> kernel \<Rightarrow> kernel option" where
  "print_word sy stack_base i k = do {
     k \<leftarrow> on_scr (printk (lit [CHR 0x0A])) k;
     k \<leftarrow> print_num 9 i k;
     buff \<leftarrow> itoa_hex stack_base (replicate 9 0);
     k \<leftarrow> on_scr (printk (lit '' ('')) k;
     k \<leftarrow> on_scr (printk buff) k;
     k \<leftarrow> on_scr (printk (lit '')'')) k;
     k \<leftarrow> on_scr (printk (lit '': ['')) k;
     w \<leftarrow> stack_word sy k stack_base;
     k \<leftarrow> print_hex 9 w k;
     on_scr (printk (lit '']'')) k }"

function print_words :: "symbols \<Rightarrow> DWord \<Rightarrow> int \<Rightarrow> int \<Rightarrow> kernel \<Rightarrow> kernel option" where
  "print_words sy stack_base i aux k =
     (if 0 < i \<and> 0 < aux then do {
        k \<leftarrow> print_word sy stack_base (of_int i) k;
        print_words sy (stack_base - 4) (i - 1) (aux - 1) k }
      else Some k)"
  by pat_completeness auto
termination
  by (relation "measure (\<lambda>(sy, b, i, aux, k). nat aux)") auto

declare print_words.simps [simp del]

definition print_stack :: "symbols \<Rightarrow> nat \<Rightarrow> kernel \<Rightarrow> kernel option" where
  "print_stack sy t k =
     (let stack_base = stack_addr sy t (KERNEL_STACK_SIZE - 1);
          stack_top = kernel_esp (task k t) - 4;
          stack_top = (if t = current sy k then esp k else stack_top);
          i = sint (stack_base - stack_top) div 4 in
      if stack_base < stack_top then Some k
      else print_words sy stack_base i 50 k)"

definition overflow_breakpoint :: "symbols \<Rightarrow> kernel \<Rightarrow> kernel option" where
  "overflow_breakpoint sy k = do {
     k \<leftarrow> on_scr (printk (lit (CHR 0x0A # ''stack overflow at PID: ''))) k;
     k \<leftarrow> print_num 4 (PID (task k (current sy k))) k;
     on_scr (printk (lit ''                                      '')) k }"

text \<open>\<^verbatim>\<open>debug_stack\<close>, given the value \<^verbatim>\<open>esp_value()\<close> returns.\<close>

definition debug_stack :: "symbols \<Rightarrow> DWord \<Rightarrow> kernel \<Rightarrow> kernel option" where
  "debug_stack sy sp k = do {
     let base = stack_addr sy (current sy k) (KERNEL_STACK_SIZE - 1);
     k \<leftarrow> on_scr (printk (lit (CHR 0x0A # ''esp value at PID(''))) k;
     k \<leftarrow> print_num 8 (PID (task k (current sy k))) k;
     k \<leftarrow> on_scr (printk (lit ''): '')) k;
     k \<leftarrow> print_hex 8 sp k;
     k \<leftarrow> on_scr (printk (lit ''    system stack size: '')) k;
     k \<leftarrow> print_num 8 (of_int (sint (base - sp) div 4)) k;
     let stack_overflow_addr = task_addr sy (current sy k) + of_nat (SIZEOF_task_struct * 5);
     k \<leftarrow> on_scr (printk (lit ''    overflow_addr: '')) k;
     k \<leftarrow> print_hex 8 stack_overflow_addr k;
     if sp \<le> stack_overflow_addr then overflow_breakpoint sy k else Some k }"

section \<open>Printing\<close>

text \<open>What a routine prints; it changes nothing but the screen.\<close>

definition prints :: "Byte list \<Rightarrow> kernel \<Rightarrow> kernel" where
  "prints bs k = k\<lparr>scr := fold printc bs (scr k)\<rparr>"

lemma prints_fields [simp]:
  "task (prints bs k) = task k" "lists (prints bs k) = lists k" "esp (prints bs k) = esp k" "mem (prints bs k) = mem k"
  "port_e9 (scr (prints bs k)) = port_e9 (scr k) @ bs" "current sy (prints bs k) = current sy k"
  "stack_word sy (prints bs k) = stack_word sy k"
  by (simp_all add: prints_def console.out_fold current_def stack_word_def fun_eq_iff Let_def)

lemma prints_prints [simp]: "prints b (prints c k) = prints (c @ b) k"
  by (simp add: prints_def)

lemma prints_nil [simp]: "prints [] k = k"
  by (simp add: prints_def)

lemma message_prints: "0 \<notin> set (cstring t) \<Longrightarrow> on_scr (printk (lit t)) k = Some (prints (cstring t) k)"
  by (simp add: on_scr_def printk_lit prints_def)

lemma num_prints:
  "0 \<le> sint a \<Longrightarrow> sint a < 10 ^ n \<Longrightarrow> 0 < n \<Longrightarrow> print_num (Suc n) a k = Some (prints (number_text 10 dec_digit (sint a)) k)"
  using print_num_ok [of a n k] by (simp add: prints_def)

lemma hex_prints:
  "length (number_text 16 hex_digit (sint a)) < n \<Longrightarrow> print_hex n a k = Some (prints (number_text 16 hex_digit (sint a)) k)"
  by (simp add: print_hex_def itoa_hex_text Let_def on_scr_def printk_text number_text_hex_nonzero prints_def)

lemma hex_length: "length (number_text 16 hex_digit (sint (a :: cint))) \<le> 8"
  using sint_lt [of a] by (intro length_number_text_le) simp_all

lemma hex_length_image:
  assumes "unat (a :: cint) < 2 ^ 20"
  shows "length (number_text 16 hex_digit (sint a)) \<le> 5"
proof (rule length_number_text_le)
  have "int (unat a) < int (2 ^ 20)" using assms by (simp only: of_nat_less_iff)
  then show "sint a < 16 ^ 5" using sint_of_nat32 [of "unat a"] assms by simp
qed simp_all

section \<open>print_queue\<close>

definition queue_line :: "kernel \<Rightarrow> nat \<Rightarrow> Byte list" where
  "queue_line k i = cstring [CHR 0x0A] @ number_text 10 dec_digit (int i) @ cstring '': PID '' @
     number_text 10 dec_digit (sint (PID (task k i)))"

lemma print_entry_ok:
  assumes i: "i < NR_TASKS" and pid: "sint (PID (task k i)) < 10 ^ 8"
  shows "print_entry sy (Anchor i) k = Some (prints (queue_line k i) k)"
proof -
  let ?t = "number_text 10 dec_digit (int i)" and ?u = "number_text 10 dec_digit (sint (PID (task k i)))"
  have si: "sint (of_nat i :: cint) = int i" using i by (intro sint_of_nat32) (simp add: zeos_consts)
  have t: "length ?t \<le> 8" "length ?u \<le> 8"
    using i pid length_number_text_le [of 10 _ 8 dec_digit] by (simp_all add: zeos_consts)
  have print: "on_scr (printk (number_text 10 dec_digit x @ 0 # y)) k = Some (prints (number_text 10 dec_digit x) k)" for x y k
    by (simp add: on_scr_def printk_text number_text_dec_nonzero prints_def)
  have z: "0 \<notin> set (cstring [CHR 0x0A])" "0 \<notin> set (cstring '': PID '')" by (simp_all add: cstring_def)
  show ?thesis
    using i t by (simp add: print_entry_def layout_simps itoa_text si Let_def print message_prints z queue_line_def)
qed

lemma print_entries_ok:
  assumes "\<forall>i\<in>set xs. i < NR_TASKS \<and> sint (PID (task k i)) < 10 ^ 8"
  shows "print_entries sy (map Anchor xs) k = Some (prints (concat (map (queue_line k) xs)) k)"
  using assms
proof (induction xs arbitrary: k)
  case (Cons i xs)
  have "print_entry sy (Anchor i) k = Some (prints (queue_line k i) k)" using Cons.prems by (intro print_entry_ok) simp_all
  moreover have "queue_line (prints b k) = queue_line k" for b by (simp add: queue_line_def fun_eq_iff)
  ultimately show ?case using Cons.IH [of "prints (queue_line k i) k"] Cons.prems by simp
qed simp

lemma print_queue_ok:
  assumes "dll (lists k) head (map Anchor xs)" and "\<forall>i\<in>set xs. i < NR_TASKS \<and> sint (PID (task k i)) < 10 ^ 8"
  shows "print_queue sy head k = Some (prints (concat (map (queue_line k) xs)) k)"
  using dll_for_each [OF assms(1)] print_entries_ok [OF assms(2)] by (simp add: print_queue_def)

section \<open>print_stack\<close>

definition stack_line :: "symbols \<Rightarrow> kernel \<Rightarrow> nat \<Rightarrow> int \<Rightarrow> nat \<Rightarrow> Byte list" where
  "stack_line sy k t i j = cstring [CHR 0x0A] @ number_text 10 dec_digit i @ cstring '' ('' @
     number_text 16 hex_digit (sint (stack_addr sy t j)) @ cstring '')'' @ cstring '': ['' @
     number_text 16 hex_digit (sint (stack (task k t) j)) @ cstring '']''"

lemma stack_word_slot:
  assumes "t < NR_TASKS" and "j < KERNEL_STACK_SIZE"
  shows "stack_word sy k (stack_addr sy t j) = Some (stack (task k t) j)"
proof -
  have "task_pos sy (stack_addr sy t j) = t"
    unfolding stack_addr_def by (rule task_pos_off [OF assms(1)]) (use assms(2) in \<open>simp add: zeos_consts del: of_nat_mult\<close>)
  moreover have "unat (of_nat (4 * j) :: DWord) = 4 * j" by (rule unat_of_nat32) (use assms(2) in \<open>simp add: zeos_consts\<close>)
  ultimately show ?thesis using assms(1) by (simp add: stack_word_def stack_addr_def Let_def del: of_nat_mult)
qed

lemma print_word_ok:
  assumes t: "t < NR_TASKS" "j < KERNEL_STACK_SIZE" and i: "0 \<le> i" "i < 10 ^ 8"
  shows "print_word sy (stack_addr sy t j) (of_int i) k = Some (prints (stack_line sy k t i j) k)"
proof -
  have z: "0 \<notin> set (cstring [CHR 0x0A])" "0 \<notin> set (cstring '' ('')" "0 \<notin> set (cstring '')'')"
    "0 \<notin> set (cstring '': ['')" "0 \<notin> set (cstring '']'')" by (simp_all add: cstring_def)
  have si: "sint (of_int i :: cint) = i" using i sint_of_nat32 [of "nat i"] by simp
  have num: "print_num 9 (of_int i) k = Some (prints (number_text 10 dec_digit i) k)" for k
    using num_prints [of "of_int i" 8 k] i si by simp
  have hex: "print_hex 9 w k = Some (prints (number_text 16 hex_digit (sint w)) k)" for w k
    by (rule hex_prints) (use hex_length [of w] in simp)
  have addr: "itoa_hex w (replicate 9 0) = Some (number_text 16 hex_digit (sint w) @ 0 # drop (Suc (length (number_text 16 hex_digit (sint w)))) (replicate 9 0))" for w
    using hex_length [of w] by (simp add: itoa_hex_text Let_def)
  have print: "on_scr (printk (number_text 16 hex_digit x @ 0 # y)) k = Some (prints (number_text 16 hex_digit x) k)" for x y k
    by (simp add: on_scr_def printk_text number_text_hex_nonzero prints_def)
  show ?thesis
    by (simp add: print_word_def message_prints z num hex addr print stack_word_slot [OF t] stack_line_def)
qed

lemma print_words_ok:
  assumes t: "t < NR_TASKS" and i: "i < 10 ^ 8" and j: "aux \<le> Suc j" "j < KERNEL_STACK_SIZE"
  shows "print_words sy (stack_addr sy t j) i (int aux) k =
    Some (prints (concat (map (\<lambda>m. stack_line sy k t (i - int m) (j - m)) [0..<min aux (nat i)])) k)"
  using i j
proof (induction aux arbitrary: i j k)
  case 0
  then show ?case by (simp add: print_words.simps)
next
  case (Suc aux)
  show ?case
  proof (cases "0 < i")
    case False
    then show ?thesis by (simp add: print_words.simps)
  next
    case True
    have w: "print_word sy (stack_addr sy t j) (of_int i) k = Some (prints (stack_line sy k t i j) k)"
      using Suc.prems True t by (intro print_word_ok) simp_all
    have line: "stack_line sy (prints b k) t = stack_line sy k t" for b by (simp add: stack_line_def fun_eq_iff)
    have range: "[0..<min (Suc aux) (nat i)] = 0 # map Suc [0..<min aux (nat (i - 1))]"
    proof -
      have "nat i = Suc (nat (i - 1))" using True by arith
      then have "min (Suc aux) (nat i) = Suc (min aux (nat (i - 1)))" by simp
      then show ?thesis by (simp add: upt_conv_Cons map_Suc_upt del: upt_Suc)
    qed
    have rest: "print_words sy (stack_addr sy t j - 4) (i - 1) (int aux) (prints (stack_line sy k t i j) k) =
      Some (prints (concat (map (\<lambda>m. stack_line sy k t (i - 1 - int m) (j - 1 - m)) [0..<min aux (nat (i - 1))]))
        (prints (stack_line sy k t i j) k))"
    proof (cases aux)
      case 0
      then show ?thesis by (simp add: print_words.simps)
    next
      case (Suc b)
      then have "stack_addr sy t j - 4 = stack_addr sy t (j - 1)"
        using Suc.prems by (cases j) (simp_all add: stack_addr_def algebra_simps)
      then show ?thesis using Suc.IH [of "i - 1" "j - 1"] Suc.prems Suc line by simp
    qed
    have "print_words sy (stack_addr sy t j) i (int (Suc aux)) k =
        print_words sy (stack_addr sy t j - 4) (i - 1) (int aux) (prints (stack_line sy k t i j) k)"
      using True w by (simp add: print_words.simps [of sy "stack_addr sy t j"])
    then show ?thesis
      unfolding rest by (simp add: range o_def algebra_simps)
  qed
qed

text \<open>The words of a saved context, from the base of the stack down.\<close>

lemma print_stack_ok:
  assumes sy: "linked sy" and t: "t < NR_TASKS" and cur: "t \<noteq> current sy k"
    and j: "kernel_esp (task k t) = stack_addr sy t j" "0 < j" "j < KERNEL_STACK_SIZE"
  shows "print_stack sy t k = Some (prints (concat (map
    (\<lambda>m. stack_line sy k t (int (KERNEL_STACK_SIZE - j) - int m) (KERNEL_STACK_SIZE - 1 - m))
    [0..<min 50 (KERNEL_STACK_SIZE - j)])) k)"
proof -
  let ?b = "stack_addr sy t (KERNEL_STACK_SIZE - 1)"
  have top: "stack_addr sy t j - 4 = stack_addr sy t (j - 1)"
    using j(2) by (cases j) (simp_all add: stack_addr_def algebra_simps)
  have u: "unat (stack_addr sy t i) = unat (task_addr sy t) + 4 * i" if "i < KERNEL_STACK_SIZE" for i
  proof -
    have i: "unat (of_nat (4 * i) :: DWord) = 4 * i" by (rule unat_of_nat32) (use that in \<open>simp add: zeos_consts\<close>)
    show ?thesis
      unfolding stack_addr_def using unat_task_off [OF sy t, of "of_nat (4 * i)"] unat_task_off [OF sy t, of 0] i that
      by (simp add: zeos_consts del: of_nat_mult)
  qed
  have le: "\<not> ?b < stack_addr sy t (j - 1)"
    using u [of "j - 1"] u [of "KERNEL_STACK_SIZE - 1"] j by (simp add: word_less_nat_alt zeos_consts)
  have "?b - stack_addr sy t (j - 1) = of_nat (4 * (KERNEL_STACK_SIZE - j))"
    using j by (simp add: stack_addr_def zeos_consts of_nat_diff algebra_simps)
  moreover have "sint (of_nat (4 * (KERNEL_STACK_SIZE - j)) :: DWord) = int (4 * (KERNEL_STACK_SIZE - j))"
    by (rule sint_of_nat32) (simp add: zeos_consts)
  ultimately have i: "sint (?b - stack_addr sy t (j - 1)) div 4 = int (KERNEL_STACK_SIZE - j)" by simp
  have "print_words sy ?b (int (KERNEL_STACK_SIZE - j)) (int 50) k = Some (prints (concat (map
    (\<lambda>m. stack_line sy k t (int (KERNEL_STACK_SIZE - j) - int m) (KERNEL_STACK_SIZE - 1 - m))
    [0..<min 50 (nat (int (KERNEL_STACK_SIZE - j)))])) k)"
    by (rule print_words_ok [OF t]) (simp_all add: zeos_consts)
  then show ?thesis unfolding print_stack_def Let_def j(1) top using cur le i by simp
qed

section \<open>debug_stack\<close>

definition overflow_text :: "cint \<Rightarrow> Byte list" where
  "overflow_text pid = cstring (CHR 0x0A # ''stack overflow at PID: '') @ number_text 10 dec_digit (sint pid) @
     cstring ''                                      ''"

definition stack_report :: "symbols \<Rightarrow> kernel \<Rightarrow> nat \<Rightarrow> nat \<Rightarrow> Byte list" where
  "stack_report sy k t j = cstring (CHR 0x0A # ''esp value at PID('') @ number_text 10 dec_digit (sint (PID (task k t))) @
     cstring ''): '' @ number_text 16 hex_digit (sint (stack_addr sy t j)) @ cstring ''    system stack size: '' @
     number_text 10 dec_digit (int (KERNEL_STACK_SIZE - 1 - j)) @ cstring ''    overflow_addr: '' @
     number_text 16 hex_digit (sint (task_addr sy t + 260))"

lemma overflow_breakpoint_ok:
  assumes "sint (PID (task k (current sy k))) < 1000" and "0 \<le> sint (PID (task k (current sy k)))"
  shows "overflow_breakpoint sy k = Some (prints (overflow_text (PID (task k (current sy k)))) k)"
proof -
  have z: "0 \<notin> set (cstring (CHR 0x0A # ''stack overflow at PID: ''))"
    "0 \<notin> set (cstring ''                                      '')" by (simp_all add: cstring_def)
  show ?thesis
    using assms num_prints [of "PID (task k (current sy k))" 3]
    by (simp add: overflow_breakpoint_def message_prints z overflow_text_def)
qed

text \<open>The report says "stack overflow" exactly when the stack pointer is within the first
  five control blocks' worth of bytes of the page.\<close>

lemma debug_stack_ok:
  assumes sy: "linked sy" and ent: "entered sy k t" and sp: "sp = stack_addr sy t j" "j < KERNEL_STACK_SIZE"
    and pid: "0 \<le> sint (PID (task k t))" "sint (PID (task k t)) < 1000"
  shows "debug_stack sy sp k =
    Some (prints (stack_report sy k t j @ (if j \<le> 65 then overflow_text (PID (task k t)) else [])) k)"
proof -
  have cur: "current sy k = t" by (rule current_entered [OF sy ent])
  have t: "t < NR_TASKS" using ent by (simp add: entered_def)
  have off: "unat (task_addr sy t + x) = unat (task_addr sy t) + unat x" if "unat x \<le> 4096" for x
    using unat_task_off [OF sy t that] unat_task_off [OF sy t, of 0] by simp
  have small: "unat (task_addr sy t + x) < 2 ^ 20" if "unat x < 4096" for x
    using unat_task_off [OF sy t, of x] linked_task(3) [OF sy] t that by (simp add: zeos_consts)
  have uj: "unat (of_nat (4 * j) :: DWord) = 4 * j" by (rule unat_of_nat32) (use sp(2) in \<open>simp add: zeos_consts\<close>)
  have z: "0 \<notin> set (cstring (CHR 0x0A # ''esp value at PID(''))" "0 \<notin> set (cstring ''): '')"
    "0 \<notin> set (cstring ''    system stack size: '')" "0 \<notin> set (cstring ''    overflow_addr: '')"
    by (simp_all add: cstring_def)
  have num: "print_num 8 a k = Some (prints (number_text 10 dec_digit (sint a)) k)" if "0 \<le> sint a" "sint a < 10 ^ 7" for a k
    using num_prints [of a 7 k] that by simp
  have hex: "print_hex 8 (task_addr sy t + x) k = Some (prints (number_text 16 hex_digit (sint (task_addr sy t + x))) k)"
    if "unat x < 4096" for x k
    by (rule hex_prints) (use hex_length_image [OF small [OF that]] in simp)
  have d: "sint (stack_addr sy t (KERNEL_STACK_SIZE - Suc 0) - sp) = int (4 * (KERNEL_STACK_SIZE - Suc j))"
  proof -
    have "stack_addr sy t (KERNEL_STACK_SIZE - Suc 0) - sp = of_nat (4 * (KERNEL_STACK_SIZE - Suc j))"
      using sp by (simp add: stack_addr_def zeos_consts of_nat_diff algebra_simps)
    moreover have "sint (of_nat (4 * (KERNEL_STACK_SIZE - Suc j)) :: DWord) = int (4 * (KERNEL_STACK_SIZE - Suc j))"
      by (rule sint_of_nat32) (simp add: zeos_consts)
    ultimately show ?thesis by (simp only:)
  qed
  have depth: "0 \<le> sint (of_nat (KERNEL_STACK_SIZE - Suc j) :: cint)" "sint (of_nat (KERNEL_STACK_SIZE - Suc j) :: cint) < 10 ^ 7"
    "sint (of_nat (KERNEL_STACK_SIZE - Suc j) :: cint) = int (KERNEL_STACK_SIZE - Suc j)"
    using sint_of_nat32 [of "KERNEL_STACK_SIZE - Suc j"] by (simp_all add: zeos_consts)
  have cmp: "sp \<le> task_addr sy t + 260 \<longleftrightarrow> j \<le> 65"
    using off [of "of_nat (4 * j)"] off [of 260] uj sp
    by (auto simp: stack_addr_def word_le_nat_alt zeos_consts simp del: of_nat_mult)
  have pid8: "print_num 8 (PID (task k t)) x = Some (prints (number_text 10 dec_digit (sint (PID (task k t)))) x)" for x
    using num pid by simp
  define k1 where "k1 = prints (stack_report sy k t j) k"
  have "print_hex 8 sp x = Some (prints (number_text 16 hex_digit (sint sp)) x)" for x
    using hex [of "of_nat (4 * j)"] uj sp by (simp add: stack_addr_def zeos_consts del: of_nat_mult)
  then have "print_hex 8 (stack_addr sy t j) x = Some (prints (number_text 16 hex_digit (sint (stack_addr sy t j))) x)" for x
    by (simp add: sp(1))
  then have "debug_stack sy sp k = (if j \<le> 65 then overflow_breakpoint sy k1 else Some k1)"
    using cmp hex [of 260] num [OF depth(1,2)] d unfolding sp(1)
    by (simp add: debug_stack_def cur message_prints z pid8 d k1_def size_defs Let_def stack_report_def depth(3) sp(1))
  moreover have "overflow_breakpoint sy k1 = Some (prints (overflow_text (PID (task k t))) k1)"
    using overflow_breakpoint_ok [of k1 sy] pid by (simp add: k1_def cur)
  ultimately show ?thesis by (simp add: k1_def)
qed

section \<open>The page-fault report\<close>

lemma print_num_eq:
  "print_num n a k = (let t = number_text 10 dec_digit (sint a) in if length t < n then Some (prints t k) else None)"
  by (simp add: print_num_def itoa_text Let_def on_scr_def printk_text number_text_dec_nonzero prints_def)

lemma print_hex_eq:
  "print_hex n a k = (let t = number_text 16 hex_digit (sint a) in if length t < n then Some (prints t k) else None)"
  by (simp add: print_hex_def itoa_hex_text Let_def on_scr_def printk_text number_text_hex_nonzero prints_def)

lemma fits_in_8:
  "length (number_text 10 dec_digit a) < 8 \<longleftrightarrow> a < 10 ^ 7" "length (number_text 16 hex_digit a) < 8 \<longleftrightarrow> a < 16 ^ 7"
  by (auto simp: number_fits)

definition fault_report :: "DWord \<Rightarrow> DWord \<Rightarrow> DWord \<Rightarrow> Byte list" where
  "fault_report ip err fault_addr = cstring (CHR 0x0A # ''Process generates a '') @ cstring (fault_kind err) @ cstring ''('' @
     number_text 10 dec_digit (sint err) @ cstring '') '' @ cstring (''PAGE FAULT exception'' @ CHR 0x0A # ''EIP: 0x'') @
     number_text 16 hex_digit (sint ip) @ cstring ''   fault address: 0x'' @ number_text 16 hex_digit (sint fault_addr)"

lemma fault_kind_nonzero: "0 \<notin> set (cstring (fault_kind err))"
  by (simp add: fault_kind_def cstring_def)

lemma segmentation_fault_eq:
  "segmentation_fault_service ip err fault_addr k =
    (if sint err < 10 ^ 7 \<and> sint ip < 16 ^ 7 \<and> sint fault_addr < 16 ^ 7
     then Some (prints (fault_report ip err fault_addr) k) else None)"
proof -
  have t: "0 \<notin> set (cstring (CHR 0x0A # ''Process generates a ''))" "0 \<notin> set (cstring ''('')" "0 \<notin> set (cstring '') '')"
    "0 \<notin> set (cstring (''PAGE FAULT exception'' @ CHR 0x0A # ''EIP: 0x''))" "0 \<notin> set (cstring ''   fault address: 0x'')"
    by (simp_all add: cstring_def)
  show ?thesis
    unfolding segmentation_fault_service_def print_num_eq print_hex_eq Let_def fits_in_8 fault_report_def
    by (simp only: message_prints [OF t(1)] message_prints [OF t(2)] message_prints [OF t(3)] message_prints [OF t(4)]
        message_prints [OF t(5)] message_prints [OF fault_kind_nonzero] Option.bind.simps prints_prints append_assoc split: if_split)
      simp
qed

end
