(* ===== verification/Fork.thy ===== *)
theory Fork
  imports Refine
begin

text \<open>
  \<^verbatim>\<open>sys_fork\<close> implements the abstract fork and gives the child a copy of the
  caller's address space and a kernel context that starts in \<^verbatim>\<open>ret_from_fork\<close>.
\<close>

section \<open>The PID loop\<close>

lemma pick_pid_ok:
  "pick_pid pos k = (let p = (if last_pid k + 1 = of_nat pos then last_pid k + 2 else last_pid k + 1)
    in Some (p, k\<lparr>last_pid := p\<rparr>))"
proof (cases "last_pid k + 1 = of_nat pos")
  case False
  then show ?thesis by (simp add: pick_pid.simps [of pos k] new_pid_def Let_def)
next
  case True
  have ne: "last_pid k + 1 + 1 \<noteq> (of_nat pos :: cint)" using True by simp
  have "pick_pid pos k = pick_pid pos (k\<lparr>last_pid := last_pid k + 1\<rparr>)"
    using True by (subst pick_pid.simps) (simp add: new_pid_def Let_def)
  also have "\<dots> = Some (last_pid k + 1 + 1, k\<lparr>last_pid := last_pid k + 1 + 1\<rparr>)"
    using ne by (subst pick_pid.simps) (simp add: new_pid_def Let_def)
  also have "last_pid k + 1 + 1 = last_pid k + 2" by simp
  finally show ?thesis unfolding Let_def if_P [OF True] .
qed

section \<open>The queues\<close>

lemma fork_lists:
  assumes q: "queues h a" and p: "placed a" "kids_ok a" and f: "free a = n # f" and r: "running a \<noteq> 0"
  shows "\<exists>h1 h2 h3 h4. list_del (Anchor n) h = Some h1 \<and>
    INIT_LIST_HEAD (Childs n) (h1(Anchor n := h1 (Anchor (running a)),
      ChildAnchor n := h1 (ChildAnchor (running a)), Childs n := h1 (Childs (running a)))) = Some h2 \<and>
    list_add_tail (ChildAnchor n) (Childs (running a)) h2 = Some h3 \<and>
    list_add_tail (Anchor n) ReadyQ h3 = Some h4 \<and>
    queues h4 (s_fork a) \<and> h4 (Anchor (running a)) = h (Anchor (running a))"
proof -
  let ?r = "running a" and ?a = "a\<lparr>free := f\<rparr>"
  have n: "n \<notin> live a" "n \<noteq> 0" using fork_fresh [OF p(1) f] by auto
  have dis: "n \<notin> set (ready a @ waiting a @ f)" "?r \<noteq> n" "?r \<notin> set (ready a @ waiting a @ f)"
    using placed_facts(1) [OF p(1)] f by auto
  have par: "parents ?a = parents a" "?r \<in> parents a" by (simp_all add: parents_def live_def)
  have H: "heads ?a = heads a" by (simp add: heads_def par)
  have Q1: "(queue a)(FreeQ := map Anchor f) = queue ?a"
    by (intro ext; rename_tac p; case_tac p) auto
  obtain h1 where h1: "list_del (Anchor n) h = Some h1" "queues h1 ?a"
    "\<forall>p. p \<notin> nodes (heads a) (queue a) \<longrightarrow> h1 p = h p"
    using zq.family_del [OF q, of FreeQ "Anchor n"] f unfolding H by (auto simp: heads_def Q1)
  let ?h1 = "h1(Anchor n := h1 (Anchor ?r), ChildAnchor n := h1 (ChildAnchor ?r), Childs n := h1 (Childs ?r))"
  let ?N = "nodes (heads ?a) (queue ?a)"
  have out: "Anchor n \<notin> ?N" "ChildAnchor n \<notin> ?N" "Childs n \<notin> ?N" "Anchor ?r \<notin> ?N"
    using dis n kids_live [OF p(2)] par by (auto simp: parents_def)
  have "queues ?h1 ?a" by (rule zq.family_frame [OF h1(2)]) (use out in auto)
  then obtain h2 where h2: "INIT_LIST_HEAD (Childs n) ?h1 = Some h2"
    "family dll h2 (insert (Childs n) (heads ?a)) ((queue ?a)(Childs n := []))"
    "\<forall>p. p \<noteq> Childs n \<longrightarrow> h2 p = ?h1 p"
    using zq.family_init [of ?h1 "heads ?a" "queue ?a" "Childs n"] out(3) by auto
  let ?H = "insert (Childs n) (heads ?a)" and ?Q2 = "(queue ?a)(Childs n := [])"
  have N2: "nodes ?H ?Q2 \<subseteq> insert (Childs n) ?N" by (rule nodes_init)
  have cr: "Childs ?r \<in> ?H" "ReadyQ \<in> ?H" using par by (auto simp: heads_def)
  have c2: "ChildAnchor n \<notin> nodes ?H ?Q2" using N2 out(2) by auto
  obtain h3 where h3: "list_add_tail (ChildAnchor n) (Childs ?r) h2 = Some h3"
    "family dll h3 ?H (?Q2(Childs ?r := ?Q2 (Childs ?r) @ [ChildAnchor n]))"
    "\<forall>p. p \<notin> insert (ChildAnchor n) (nodes ?H ?Q2) \<longrightarrow> h3 p = h2 p"
    using zq.family_add_tail [OF h2(2) cr(1) lptr.distinct(9) [symmetric] c2] by blast
  let ?Q3 = "?Q2(Childs ?r := ?Q2 (Childs ?r) @ [ChildAnchor n])"
  have N3: "nodes ?H ?Q3 \<subseteq> insert (ChildAnchor n) (nodes ?H ?Q2)" by (rule nodes_snoc [OF cr(1)])
  have c3: "Anchor n \<notin> nodes ?H ?Q3" using N2 N3 out(1) by blast
  obtain h4 where h4: "list_add_tail (Anchor n) ReadyQ h3 = Some h4"
    "family dll h4 ?H (?Q3(ReadyQ := ?Q3 ReadyQ @ [Anchor n]))"
    "\<forall>p. p \<notin> insert (Anchor n) (nodes ?H ?Q3) \<longrightarrow> h4 p = h3 p"
    using zq.family_add_tail [OF h3(2) cr(2) lptr.distinct(7) [symmetric] c3] by blast
  have "heads (s_fork a) = ?H"
    using live_fork [OF p(1) f] par(1) by (auto simp: heads_def parents_def)
  moreover have "queue (s_fork a) = ?Q3(ReadyQ := ?Q3 ReadyQ @ [Anchor n])"
    using f dis(2) by (intro ext; rename_tac p; case_tac p) (auto simp: s_fork_def)
  ultimately have "queues h4 (s_fork a)" using h4(2) by simp
  moreover have "Anchor ?r \<notin> nodes ?H ?Q3" "Anchor ?r \<notin> nodes ?H ?Q2" using N2 N3 out(4) by blast+
  then have "h4 (Anchor ?r) = h (Anchor ?r)"
    using h4(3) h3(3) h2(3) h1(3) dis f by auto
  ultimately show ?thesis using h1(1) h2(1) h3(1) h4(1) by blast
qed

section \<open>The child's context\<close>

lemma fork_context_ok:
  assumes "ebp_fork k = stack_addr sy r j" and "0 < j" and "j < KERNEL_STACK_SIZE"
  shows "fork_context sy r n k = Some (upd_task n (\<lambda>ts. ts\<lparr>kernel_esp := stack_addr sy n (j - 1),
    stack := (stack ts)(j := a_ret_from_fork sy, j - 1 := 0)\<rparr>) k)"
proof -
  let ?K = KERNEL_STACK_SIZE
  have "stack_addr sy r (?K - 1) - (ebp_fork k - 4) = of_nat (4 * (?K - 1)) - of_nat (4 * j) + 4"
    by (simp add: assms(1) stack_addr_def algebra_simps)
  also have "\<dots> = of_nat (4 * (?K - j))"
    using assms(3) by (simp add: zeos_consts of_nat_diff algebra_simps)
  finally have d: "sint (stack_addr sy r (?K - 1) - (ebp_fork k - 4)) = int (4 * (?K - j))"
    using assms(2) by (simp add: zeos_consts del: of_nat_mult)
  have e: "sint (stack_addr sy r (?K - 1) - (ebp_fork k - 4)) div 4 = int (?K - j)" unfolding d by simp
  have i: "int ?K - int (?K - j) = int j" using assms(3) by simp
  have "stack_addr sy n (?K - 1) - of_int (4 * int (?K - j)) = stack_addr sy n (j - 1)"
    using assms(2,3) by (simp add: stack_addr_def zeos_consts of_nat_diff algebra_simps)
  moreover have "nat (int j) = j" "nat (int j - 1) = j - 1" by auto
  ultimately show ?thesis
    using assms(2,3) unfolding fork_context_def Let_def e i by (simp add: nat_diff_distrib)
qed

section \<open>The new process\<close>

text \<open>The child's data pages hold what the parent's held.\<close>

definition same_space :: "mm \<Rightarrow> nat \<Rightarrow> mm \<Rightarrow> nat \<Rightarrow> bool" where
  "same_space m r m' n \<longleftrightarrow>
     (\<forall>p<NUM_PAG_DATA. \<forall>i<4096. ram m' (data_frame m' n p) i = ram m (data_frame m r p) i)"

text \<open>The control block and stack of the child.\<close>

definition child_of :: "symbols \<Rightarrow> task_struct \<Rightarrow> nat \<Rightarrow> nat \<Rightarrow> cint \<Rightarrow> nat \<Rightarrow> task_struct" where
  "child_of sy ts r n pid j = ts\<lparr>dir_pages_baseAddr := dir_addr sy n, PID := pid,
     parent := Some r, kernel_esp := stack_addr sy n (j - 1),
     stack := (stack ts)(j := a_ret_from_fork sy, j - 1 := 0)\<rparr>"

lemma fork_kids:
  "placed a \<Longrightarrow> free a = n # f \<Longrightarrow> kids (s_fork a) p =
    (if p = n then [] else if p = running a then kids a p @ [n] else kids a p)"
  by (simp add: s_fork_def)

lemma fork_kin:
  assumes kin: "kin_ok T a" and p: "placed a" "kids_ok a" and f: "free a = n # f" and r: "running a \<noteq> 0"
    and T: "T' = T(n := ts)" "parent ts = Some (running a)"
  shows "kin_ok T' (s_fork a)"
proof -
  have n: "n \<notin> live a" "n \<noteq> 0" using fork_fresh [OF p(1) f] by auto
  have nk: "n \<notin> set (kids a q)" if "q \<in> parents a" for q using kids_live [OF p(2) that] n by blast
  have l: "live (s_fork a) = insert n (live a)" by (rule live_fork [OF p(1) f])
  have par: "parents (s_fork a) = insert n (parents a)" by (auto simp: parents_def l)
  have np: "n \<notin> parents a" using n by (simp add: parents_def)
  show ?thesis
    unfolding kin_ok_def l par
  proof (intro ballI allI)
    fix i q assume "i \<in> insert n (live a)"
    show "parent (T' i) = Some q \<longleftrightarrow> q \<in> insert n (parents a) \<and> i \<in> set (kids (s_fork a) q)"
    proof (cases "i = n")
      case True
      with np nk T show ?thesis by (auto simp: fork_kids [OF p(1) f])
    next
      case False
      then have "i \<in> live a" using \<open>i \<in> insert n (live a)\<close> by simp
      then have "parent (T i) = Some q \<longleftrightarrow> q \<in> parents a \<and> i \<in> set (kids a q)" using kin by (simp add: kin_ok_def)
      with False np T show ?thesis by (auto simp: fork_kids [OF p(1) f])
    qed
  qed
qed

lemma fork_tables:
  assumes ok: "kernel_ok sy k a" and f: "free a = n # f" and r: "running a \<noteq> 0"
    and pid: "sint (last_pid k) < sint pid"
    and T: "task k' = (task k)(n := child_of sy (task k (running a)) (running a) n pid j)"
    and k': "queues (lists k') (s_fork a)" "idle_task k' = idle_task k" "scr k' = scr k" "last_pid k' = pid"
  shows "tables_ok sy k' (s_fork a)"
proof -
  note D = kernel_okD [OF ok]
  have n: "n \<notin> live a" "n \<noteq> 0" using fork_fresh [OF D(1) f] by auto
  have par: "parents (s_fork a) = insert n (parents a)" "n \<notin> parents a"
    using live_fork [OF D(1) f] n by (auto simp: parents_def)
  have pcb: "pcb_ok sy k i" if "i \<in> parents a" for i using kernel_ok_pcb [OF ok that] .
  have old: "PID (task k i) \<noteq> pid" if "i \<in> parents a" for i
    using pcb [OF that] pid by (auto simp: pcb_ok_def)
  have "inj_on (\<lambda>i. PID (task k' i)) (parents a)"
    using D(7) par(2) T by (simp add: inj_on_def)
  then have "inj_on (\<lambda>i. PID (task k' i)) (insert n (parents a))"
    using par(2) T by (auto simp: child_of_def dest: old split: if_splits)
  moreover have "pcb_ok sy k' i" if "i \<in> insert n (parents a)" for i
    using that pcb [of i] pcb [OF running_parents] par(2) pid
    by (auto simp: pcb_ok_def T k' child_of_def)
  moreover have "kin_ok (task k') (s_fork a)"
    by (rule fork_kin [OF D(6,1,2) f r T]) (simp add: child_of_def)
  ultimately show ?thesis
    using kids_fork [OF D(1,2) f r] k' D(4,5) by (simp add: tables_ok_def par(1))
qed

text \<open>A free slot is all \<^verbatim>\<open>sys_fork\<close> needs: it never runs out of frames.\<close>

text \<open>The PID the child gets, and the memory it is given.\<close>

definition fresh_pid :: "nat \<Rightarrow> kernel \<Rightarrow> cint" where
  "fresh_pid n k = (if last_pid k + 1 = of_nat n then last_pid k + 2 else last_pid k + 1)"

lemma pick_fresh: "last_pid x = last_pid k \<Longrightarrow> pick_pid n x = Some (fresh_pid n k, x\<lparr>last_pid := fresh_pid n k\<rparr>)"
  by (simp add: pick_pid_ok fresh_pid_def Let_def)

lemma fresh_pid:
  assumes "0 \<le> sint (last_pid k)" and "sint (last_pid k) < 2 ^ 31 - 3"
  shows "sint (last_pid k) < sint (fresh_pid n k)" "sint (fresh_pid n k) \<le> sint (last_pid k) + 2" "fresh_pid n k \<noteq> of_nat n"
proof -
  show "sint (last_pid k) < sint (fresh_pid n k)" "sint (fresh_pid n k) \<le> sint (last_pid k) + 2"
    using sint_add_small [of "last_pid k" 1] sint_add_small [of "last_pid k" 2] assms by (auto simp: fresh_pid_def)
  have "last_pid k + 2 \<noteq> last_pid k + 1" by simp
  then show "fresh_pid n k \<noteq> of_nat n" unfolding fresh_pid_def by metis
qed

lemma fork_memory:
  assumes sy: "linked sy" and ok: "mem_ok sy m L r" and r: "r \<in> L" and n: "n \<notin> L" "n < NR_TASKS"
  shows "\<exists>m1 m2. share_pages sy (pt_addr sy n) (pt_addr sy r) (map (\<lambda>p. PAG_LOG_INIT_CODE + p) [0..<NUM_PAG_CODE]) m
      = Some m1 \<and>
    fork_data_pages sy (pt_addr sy n) (pt_addr sy r) (dir_addr sy r) [0..<NUM_PAG_DATA] m1 = Some (True, m2) \<and>
    mem_ok sy (set_cr3 (dir_addr sy r) m2) (insert n L) r \<and>
    same_space m r (set_cr3 (dir_addr sy r) m2) n \<and> undisturbed L m (set_cr3 (dir_addr sy r) m2)"
proof -
  obtain m1 m2 where m: "share_pages sy (pt_addr sy n) (pt_addr sy r)
      (map (\<lambda>p. PAG_LOG_INIT_CODE + p) [0..<NUM_PAG_CODE]) m = Some m1"
    "fork_data_pages sy (pt_addr sy n) (pt_addr sy r) (dir_addr sy r) [0..<NUM_PAG_DATA] m1 = Some (True, m2)"
    "mem_ok sy (set_cr3 (dir_addr sy r) m2) (insert n L) r"
    "\<forall>p<NUM_PAG_DATA. \<forall>i<4096. ram m2 (data_frame m2 n p) i = ram m (data_frame m r p) i"
    "\<forall>j page. j \<noteq> n \<longrightarrow> pagusr_table m2 j page = pagusr_table m j page"
    "\<forall>g. g \<notin> avail_frames (phys_mem m) \<longrightarrow> ram m2 g = ram m g"
    using fork_mem_ok [OF sy ok r n] by blast
  have "data_frame m i p \<notin> avail_frames (phys_mem m)" if "i \<in> L" "p < NUM_PAG_DATA" for i p
    using ok that by (auto simp: mem_ok_def frames_ok_def)
  moreover have "data_frame m2 i p = data_frame m i p" if "i \<in> L" for i p
    using m(5) n(1) that by (cases "i = n") (simp_all add: data_frame_def)
  ultimately have "undisturbed L m (set_cr3 (dir_addr sy r) m2)" using m(6) by (simp add: undisturbed_def data_frame_def)
  moreover have "same_space m r (set_cr3 (dir_addr sy r) m2) n"
    using m(4) by (simp add: same_space_def data_frame_def)
  ultimately show ?thesis using m(1-3) by blast
qed

lemma sys_fork_ok:
  assumes sy: "linked sy" and ok: "kernel_ok sy k a" and ent: "entered sy k (running a)"
    and r: "running a \<noteq> 0" and f: "free a = n # f" and last: "sint (last_pid k) < 2 ^ 31 - 3"
    and j: "ebp_fork k = stack_addr sy (running a) j" "0 < j" "j < KERNEL_STACK_SIZE"
  shows "\<exists>pid h m. sys_fork sy k = Some (pid, k\<lparr>mem := m, last_pid := pid,
      task := (task k)(n := child_of sy (task k (running a)) (running a) n pid j), lists := h\<rparr>) \<and>
    kernel_ok sy (k\<lparr>mem := m, last_pid := pid,
      task := (task k)(n := child_of sy (task k (running a)) (running a) n pid j), lists := h\<rparr>) (s_fork a) \<and>
    sint (last_pid k) < sint pid \<and> sint pid \<le> sint (last_pid k) + 2 \<and> pid \<noteq> of_nat n \<and>
    same_space (mem k) (running a) m n \<and> undisturbed (live a) (mem k) m"
proof -
  let ?r = "running a"
  note D = kernel_okD [OF ok]
  have n: "n \<notin> live a" "n \<noteq> 0" "n < NR_TASKS" using fork_fresh [OF D(1) f] by auto
  have nr: "n \<noteq> ?r" using n r by auto
  obtain h1 h2 h3 h4 where hs: "list_del (Anchor n) (lists k) = Some h1"
    "INIT_LIST_HEAD (Childs n) (h1(Anchor n := h1 (Anchor ?r), ChildAnchor n := h1 (ChildAnchor ?r),
       Childs n := h1 (Childs ?r))) = Some h2"
    "list_add_tail (ChildAnchor n) (Childs ?r) h2 = Some h3" "list_add_tail (Anchor n) ReadyQ h3 = Some h4"
    and q: "queues h4 (s_fork a)" "h4 (Anchor ?r) = lists k (Anchor ?r)"
    using fork_lists [OF D(3,1,2) f r] by blast
  obtain m1 m2 where m: "share_pages sy (pt_addr sy n) (pt_addr sy ?r)
      (map (\<lambda>p. PAG_LOG_INIT_CODE + p) [0..<NUM_PAG_CODE]) (mem k) = Some m1"
    "fork_data_pages sy (pt_addr sy n) (pt_addr sy ?r) (dir_addr sy ?r) [0..<NUM_PAG_DATA] m1 = Some (True, m2)"
    "mem_ok sy (set_cr3 (dir_addr sy ?r) m2) (insert n (live a)) ?r"
    "same_space (mem k) ?r (set_cr3 (dir_addr sy ?r) m2) n" "undisturbed (live a) (mem k) (set_cr3 (dir_addr sy ?r) m2)"
    using fork_memory [OF sy D(10) _ n(1,3)] r by auto
  define pid where "pid = fresh_pid n k"
  define m' where "m' = set_cr3 (dir_addr sy ?r) m2"
  define k' where "k' = k\<lparr>mem := m', last_pid := pid,
      task := (task k)(n := child_of sy (task k ?r) ?r n pid j), lists := h4\<rparr>"
  have dirs: "dirs_ok sy (mem k)" using D(10) by (simp add: mem_ok_def)
  have em: "list_empty FreeQ (lists k) = Some False" "list_first FreeQ (lists k) = Some (Anchor n)"
    using zq.empty_spec [OF queue_dll(2) [OF D(3)]] zq.first_spec queue_dll(2) [OF D(3)] f by simp_all
  have cur: "current_of_esp sy (esp k) = ?r" using current_entered [OF sy ent] by (simp add: current_def)
  have rdir: "dir_pages_baseAddr (task k ?r) = dir_addr sy ?r"
    using kernel_ok_pcb [OF ok running_parents] by (simp add: pcb_ok_def)
  have run: "sys_fork sy k = Some (pid, k')"
    using em cur rdir hs m n nr get_PT_addr [OF sy dirs n(3)] get_PT_addr [OF sy dirs D(9)] j
    by (simp add: sys_fork_def on_lists_def current_def copy_task_union_def allocate_DIR_def upd_task_def
        get_DIR_def layout_simps pick_fresh [of _ k] pid_def fork_context_ok k'_def m'_def child_of_def Let_def)
  have "0 \<le> sint (last_pid k)"
    using kernel_ok_pcb [OF ok running_parents] by (simp add: pcb_ok_def)
  note pid = fresh_pid [OF this last, of n, folded pid_def]
  have "tables_ok sy k' (s_fork a)"
    by (rule fork_tables [OF ok f r pid(1)]) (simp_all add: k'_def q)
  moreover have "saved sy (task k' i) i" if "i \<in> insert n (parents a) - {?r}" for i
  proof (cases "i = n")
    case True
    then show ?thesis using j by (auto simp: saved_def k'_def child_of_def intro!: exI [of _ "j - 1"])
  qed (use that ok in \<open>simp add: kernel_ok_def k'_def\<close>)
  ultimately have "kernel_ok sy k' (s_fork a)"
    using ok placed_fork [OF D(1)] live_fork [OF D(1) f] m(3) q(2) f r
    by (simp add: kernel_ok_def partition_ok_def parents_def k'_def m'_def s_fork_def insert_commute)
  then show ?thesis using run pid m(4,5) unfolding k'_def m'_def by blast
qed

lemma sys_fork_full:
  assumes "kernel_ok sy k a" and "free a = []"
  shows "sys_fork sy k = Some (-1, k)"
  using zq.empty_spec [OF queue_dll(2) [OF kernel_okD(3) [OF assms(1)]]] assms(2)
  by (simp add: sys_fork_def)

end
