(* ===== verification/Exit.thy ===== *)
theory Exit
  imports Refine
begin

text \<open>
  \<^verbatim>\<open>sys_exit\<close> implements the abstract exit: the traversal that hands the children to
  the idle task ends, the data frames return to the allocator and the slot to the free
  queue.
\<close>

section \<open>Handing over the children\<close>

lemma family_cong:
  "(\<And>p. p \<in> H \<Longrightarrow> Q' p = Q p) \<Longrightarrow> family rep h H Q' = family rep h H Q"
  by (simp add: family_def)

lemma nodes_cong: "(\<And>p. p \<in> H \<Longrightarrow> Q' p = Q p) \<Longrightarrow> nodes H Q' = nodes H Q"
  by (simp add: nodes_def)

lemma dll_second: "dll h a (x # xs) \<Longrightarrow> lnext (h x) = hd (xs @ [a])"
  by (cases xs) (simp_all add: dll_def)

definition orphans :: "nat list \<Rightarrow> (nat \<Rightarrow> task_struct) \<Rightarrow> nat \<Rightarrow> task_struct" where
  "orphans ys T i = (if i \<in> set ys then (T i)\<lparr>parent := Some 0\<rparr> else T i)"

lemma orphans_Cons: "orphans (y # ys) T = orphans ys (T(y := (T y)\<lparr>parent := Some 0\<rparr>))"
  by (auto simp: orphans_def fun_eq_iff)

lemma reparent_step:
  assumes fam: "family dll h H Q" and H: "Childs t \<in> H" "Childs 0 \<in> H" "t \<noteq> 0"
    and Q: "Q (Childs t) = map ChildAnchor (y # ys)"
  shows "\<exists>h1 h2. list_del (ChildAnchor y) h = Some h1 \<and> list_add_tail (ChildAnchor y) (Childs 0) h1 = Some h2 \<and>
    family dll h2 H (Q(Childs t := map ChildAnchor ys, Childs 0 := Q (Childs 0) @ [ChildAnchor y])) \<and>
    (\<forall>p. p \<notin> nodes H Q \<longrightarrow> h2 p = h p) \<and>
    nodes H (Q(Childs t := map ChildAnchor ys, Childs 0 := Q (Childs 0) @ [ChildAnchor y])) \<subseteq> nodes H Q"
proof -
  let ?Q = "Q(Childs t := map ChildAnchor ys)"
  have y: "ChildAnchor y \<in> nodes H Q" using H(1) Q by (auto simp: nodes_def intro!: bexI [of _ "Childs t"])
  obtain h1 where h1: "list_del (ChildAnchor y) h = Some h1" "family dll h1 H ?Q"
    "ChildAnchor y \<notin> nodes H ?Q" "\<forall>p. p \<notin> nodes H Q \<longrightarrow> h1 p = h p"
    using zq.family_del [OF fam H(1), of "ChildAnchor y"] Q by auto
  have sub: "nodes H ?Q \<subseteq> nodes H Q" using Q by (auto simp: nodes_def split: if_splits)
  obtain h2 where h2: "list_add_tail (ChildAnchor y) (Childs 0) h1 = Some h2"
    "family dll h2 H (?Q(Childs 0 := ?Q (Childs 0) @ [ChildAnchor y]))"
    "\<forall>p. p \<notin> insert (ChildAnchor y) (nodes H ?Q) \<longrightarrow> h2 p = h1 p"
    using zq.family_add_tail [OF h1(2) H(2) _ h1(3)] by blast
  have "nodes H (?Q(Childs 0 := ?Q (Childs 0) @ [ChildAnchor y])) \<subseteq> nodes H Q"
    using y sub nodes_snoc [OF H(2), of ?Q "ChildAnchor y"] by blast
  moreover have "h2 p = h p" if "p \<notin> nodes H Q" for p
    using that y sub h1(4) h2(3) by (metis insertE subsetD)
  ultimately show ?thesis using h1(1) h2(1,2) H(3) by auto
qed

lemma reparent_ok:
  assumes "family dll (lists k) H Q" and "Childs t \<in> H" "Childs 0 \<in> H" "t \<noteq> 0"
    and "Q (Childs t) = map ChildAnchor ys" and "\<forall>y\<in>set ys. y < NR_TASKS" and "idle_task k = Some 0"
    and "pos = hd (map ChildAnchor ys @ [Childs t])"
  shows "\<exists>h'. list_safe_from lists (reparent sy) (Childs t) pos (lnext (lists k pos)) k =
      Some (k\<lparr>task := orphans ys (task k), lists := h'\<rparr>) \<and>
    family dll h' H (Q(Childs t := [], Childs 0 := Q (Childs 0) @ map ChildAnchor ys)) \<and>
    (\<forall>p. p \<notin> nodes H Q \<longrightarrow> h' p = lists k p)"
  using assms
proof (induction ys arbitrary: k Q pos)
  case Nil
  then have eq: "Q(Childs t := [], Childs 0 := Q (Childs 0) @ map ChildAnchor []) = Q" by (auto simp: fun_eq_iff)
  have "orphans [] (task k) = task k" by (simp add: orphans_def fun_eq_iff)
  then show ?case
    unfolding eq using Nil by (intro exI [of _ "lists k"]) (simp add: list_safe_from.simps)
next
  case (Cons y ys)
  define Q2 where "Q2 = Q(Childs t := map ChildAnchor ys, Childs 0 := Q (Childs 0) @ [ChildAnchor y])"
  obtain h1 h2 where h: "list_del (ChildAnchor y) (lists k) = Some h1"
    "list_add_tail (ChildAnchor y) (Childs 0) h1 = Some h2" "family dll h2 H Q2"
    "\<forall>p. p \<notin> nodes H Q \<longrightarrow> h2 p = lists k p" "nodes H Q2 \<subseteq> nodes H Q"
    using reparent_step [OF Cons.prems(1-5)] unfolding Q2_def by blast
  let ?n = "hd (map ChildAnchor ys @ [Childs t])"
  define k2 where "k2 = k\<lparr>task := (task k)(y := (task k y)\<lparr>parent := Some 0\<rparr>), lists := h2\<rparr>"
  have "dll (lists k) (Childs t) (map ChildAnchor (y # ys))" using Cons.prems(1,2,5) by (auto simp: family_def)
  then have nxt: "lnext (lists k (ChildAnchor y)) = ?n" using dll_second by simp
  have n: "?n \<noteq> Null" by (cases ys) simp_all
  have pos: "pos = ChildAnchor y" using Cons.prems(8) by simp
  have e: "list_entry sy (ChildAnchor y) OFF_child_anchor = y" using Cons.prems(6) by (simp add: layout_simps)
  have "list_safe_from lists (reparent sy) (Childs t) pos (lnext (lists k pos)) k =
      list_safe_from lists (reparent sy) (Childs t) ?n (lnext (lists k2 ?n)) k2"
    unfolding pos nxt using h(1,2) e n Cons.prems(7)
    by (subst list_safe_from.simps) (simp add: reparent_def upd_task_def on_lists_def deref_def Let_def k2_def)
  moreover have "family dll (lists k2) H Q2" "Q2 (Childs t) = map ChildAnchor ys" "idle_task k2 = Some 0"
    "\<forall>y\<in>set ys. y < NR_TASKS"
    using h(3) Cons.prems(4,6,7) by (simp_all add: k2_def Q2_def)
  then obtain h' where h': "list_safe_from lists (reparent sy) (Childs t) ?n (lnext (lists k2 ?n)) k2 =
      Some (k2\<lparr>task := orphans ys (task k2), lists := h'\<rparr>)"
    "family dll h' H (Q2(Childs t := [], Childs 0 := Q2 (Childs 0) @ map ChildAnchor ys))"
    "\<forall>p. p \<notin> nodes H Q2 \<longrightarrow> h' p = lists k2 p"
    using Cons.IH [OF _ Cons.prems(2-4) _ _ _ refl, of k2 Q2] by blast
  moreover have "Q2(Childs t := [], Childs 0 := Q2 (Childs 0) @ map ChildAnchor ys) =
      Q(Childs t := [], Childs 0 := Q (Childs 0) @ map ChildAnchor (y # ys))"
    by (simp add: fun_eq_iff Q2_def)
  moreover have "k2\<lparr>task := orphans ys (task k2), lists := h'\<rparr> =
      k\<lparr>task := orphans (y # ys) (task k), lists := h'\<rparr>"
    by (simp add: k2_def orphans_Cons)
  moreover have "h' p = lists k p" if "p \<notin> nodes H Q" for p
    using that h(4,5) h'(3) by (auto simp: k2_def)
  ultimately show ?case by metis
qed

section \<open>Leaving the family\<close>

text \<open>The exiting process leaves its parent's list, if it has a parent.\<close>

lemma leave_parent:
  assumes ok: "kernel_ok sy k a" and r: "running a \<noteq> 0"
  shows "\<exists>h. (if parent (task k (running a)) \<noteq> None then on_lists (list_del (ChildAnchor (running a))) k else Some k)
      = Some (k\<lparr>lists := h\<rparr>) \<and>
    queues h (a\<lparr>kids := (\<lambda>p. remove1 (running a) (kids a p))\<rparr>)"
proof -
  let ?t = "running a" and ?a = "a\<lparr>kids := (\<lambda>p. remove1 (running a) (kids a p))\<rparr>"
  note D = kernel_okD [OF ok]
  have H: "heads ?a = heads a" by (rule heads_cong) (simp add: live_def)
  have kin: "parent (task k ?t) = Some p \<longleftrightarrow> p \<in> parents a \<and> ?t \<in> set (kids a p)" for p
    using D(6) r by (simp add: kin_ok_def)
  show ?thesis
  proof (cases "parent (task k ?t)")
    case None
    have "queue ?a q = queue a q" if "q \<in> heads a" for q
      using that kin None by (auto simp: heads_def remove1_idem)
    then have "queues (lists k) ?a" using D(3) family_cong [of "heads a" "queue ?a" "queue a" dll] H by simp
    with None show ?thesis by (intro exI [of _ "lists k"]) simp
  next
    case (Some p)
    then have p: "p \<in> parents a" "?t \<in> set (kids a p)" using kin by auto
    obtain h where h: "list_del (ChildAnchor ?t) (lists k) = Some h"
      "family dll h (heads a) ((queue a)(Childs p := map ChildAnchor (remove1 ?t (kids a p))))"
      using zq.family_del [OF D(3), of "Childs p" "ChildAnchor ?t"] p by (auto simp: heads_def map_remove1_inj)
    have fq: "queue ?a q = ((queue a)(Childs p := map ChildAnchor (remove1 ?t (kids a p)))) q" if "q \<in> heads a" for q
      using that kids_unique [OF D(2) p(1) _ p(2)] by (auto simp: heads_def) (metis remove1_idem)+
    have "queues h ?a" unfolding H by (rule iffD2 [OF family_cong h(2)]) (rule fq)
    with Some h(1) show ?thesis by (intro exI [of _ h]) (simp add: on_lists_def)
  qed
qed

text \<open>Up to here only list nodes and parent pointers have changed.\<close>

lemma exit_family:
  assumes ok: "kernel_ok sy k a" and r: "running a \<noteq> 0"
  shows "\<exists>h1 h2. (if parent (task k (running a)) \<noteq> None then on_lists (list_del (ChildAnchor (running a))) k
        else Some k) = Some (k\<lparr>lists := h1\<rparr>) \<and>
    list_for_each_safe lists (reparent sy) (Childs (running a)) (k\<lparr>lists := h1\<rparr>) =
      Some (k\<lparr>task := orphans (kids a (running a)) (task k), lists := h2\<rparr>) \<and>
    queues h2 (adopt a)"
proof -
  let ?t = "running a" and ?a = "a\<lparr>kids := (\<lambda>p. remove1 (running a) (kids a p))\<rparr>"
  note D = kernel_okD [OF ok]
  obtain h1 where h1: "(if parent (task k ?t) \<noteq> None then on_lists (list_del (ChildAnchor ?t)) k else Some k)
      = Some (k\<lparr>lists := h1\<rparr>)" "queues h1 ?a"
    using leave_parent [OF ok r] by blast
  have H: "heads ?a = heads a" "heads (adopt a) = heads a" by (rule heads_cong, simp add: live_def)+
  have t: "?t \<notin> set (kids a ?t)" using D(2) running_parents [of a] unfolding kids_ok_def by blast
  define pos where "pos = hd (map ChildAnchor (kids a ?t) @ [Childs ?t])"
  have par: "?t \<in> parents ?a" "0 \<in> parents ?a" by (auto simp: parents_def live_def)
  have q: "queue ?a (Childs ?t) = map ChildAnchor (kids a ?t)" using t by (simp add: remove1_idem)
  then have first: "lnext (h1 (Childs ?t)) = pos"
    using dll_next [OF queue_dll(4) [OF h1(2) par(1)]] t by (simp add: pos_def remove1_idem)
  have "pos \<noteq> Null" unfolding pos_def by (cases "kids a ?t") simp_all
  then have "list_for_each_safe lists (reparent sy) (Childs ?t) (k\<lparr>lists := h1\<rparr>) =
      list_safe_from lists (reparent sy) (Childs ?t) pos (lnext (h1 pos)) (k\<lparr>lists := h1\<rparr>)"
    by (simp add: list_for_each_safe_def deref_def first)
  moreover have "\<forall>y\<in>set (kids a ?t). y < NR_TASKS"
    using kids_live [OF D(2) running_parents] live_bound [OF D(1)] by blast
  then obtain h2 where "list_safe_from lists (reparent sy) (Childs ?t) pos (lnext (h1 pos)) (k\<lparr>lists := h1\<rparr>) =
      Some (k\<lparr>task := orphans (kids a ?t) (task k), lists := h2\<rparr>)"
    and h2: "family dll h2 (heads ?a) ((queue ?a)(Childs ?t := [],
      Childs 0 := queue ?a (Childs 0) @ map ChildAnchor (kids a ?t)))"
    using reparent_ok [of "k\<lparr>lists := h1\<rparr>" "heads ?a" "queue ?a" ?t "kids a ?t" pos sy] h1(2) par q r D(4) pos_def
    by (auto simp: heads_def)
  moreover have "(queue ?a)(Childs ?t := [], Childs 0 := queue ?a (Childs 0) @ map ChildAnchor (kids a ?t)) =
      queue (adopt a)"
    using r by (intro ext; rename_tac p; case_tac p) (auto simp: adopt_def Let_def)
  ultimately show ?thesis using h1(1) H by metis
qed

lemma exit_kin:
  assumes kin: "kin_ok T a" and p: "placed a" "kids_ok a" and r: "running a \<noteq> 0"
  shows "kin_ok (orphans (kids a (running a)) T) (to_free a)"
proof -
  let ?t = "running a"
  have un: "p = ?t" if "i \<in> set (kids a p)" "i \<in> set (kids a ?t)" "p \<in> parents a" for i p
    using kids_unique [OF p(2) that(3) running_parents that(1,2)] .
  have par: "parents (to_free a) = parents a - {?t}" using parents_to_free [OF p(1) r] .
  have mem: "i \<in> set (kids (to_free a) q) \<longleftrightarrow>
      i \<in> set (kids a q) \<or> q = 0 \<and> i \<in> set (kids a ?t)" if "q \<noteq> ?t" "i \<noteq> ?t" for i q
    using that r by (auto simp: kids_adopt in_set_remove1)
  show ?thesis
    unfolding kin_ok_def live_leave(3) [OF p(1) r] par
  proof (intro ballI allI)
    fix i q assume i: "i \<in> live a - {?t}"
    then have "parent (T i) = Some q \<longleftrightarrow> q \<in> parents a \<and> i \<in> set (kids a q)" using kin by (simp add: kin_ok_def)
    moreover have "0 \<in> parents a" "0 \<noteq> ?t" using r by (simp_all add: parents_def)
    ultimately show "parent (orphans (kids a ?t) T i) = Some q \<longleftrightarrow>
        q \<in> parents a - {?t} \<and> i \<in> set (kids (to_free a) q)"
      using i mem [of q i] un [of i q] un [of i 0] by (auto simp: orphans_def split: if_splits)
  qed
qed

section \<open>exit\<close>

text \<open>The saved context of the tasks in a set: their kernel stacks and saved stack pointers.\<close>

definition contexts_kept :: "nat set \<Rightarrow> kernel \<Rightarrow> kernel \<Rightarrow> bool" where
  "contexts_kept I k k' \<longleftrightarrow> (\<forall>i\<in>I. stack (task k' i) = stack (task k i) \<and> kernel_esp (task k' i) = kernel_esp (task k i))"

text \<open>What is left of the caller when \<^verbatim>\<open>sys_exit\<close> reaches the scheduler.\<close>

definition released :: "kernel \<Rightarrow> nat \<Rightarrow> kernel \<Rightarrow> bool" where
  "released k t k' \<longleftrightarrow> last_pid k' = last_pid k \<and> ram (mem k') = ram (mem k) \<and>
     avail_frames (phys_mem (mem k')) =
       avail_frames (phys_mem (mem k)) \<union> data_frame (mem k) t ` {..<NUM_PAG_DATA} \<and>
     (\<forall>i p. i \<noteq> t \<longrightarrow> data_frame (mem k') i p = data_frame (mem k) i p)"

lemma sys_exit_limbo:
  assumes sy: "linked sy" and ok: "kernel_ok sy k a" and ent: "entered sy k (running a)" and r: "running a \<noteq> 0"
  shows "\<exists>k3. sys_exit sy k = sched_next_rr sy k3 \<and> limbo sy k3 (to_free a) (running a) \<and>
    entered sy k3 (running a) \<and> released k (running a) k3 \<and> (\<forall>i. PID (task k3 i) = PID (task k i)) \<and> contexts_kept UNIV k k3"
proof -
  let ?t = "running a" and ?b = "to_free a"
  note D = kernel_okD [OF ok]
  obtain h1 h2 where ex: "(if parent (task k ?t) \<noteq> None then on_lists (list_del (ChildAnchor ?t)) k
        else Some k) = Some (k\<lparr>lists := h1\<rparr>)"
    "list_for_each_safe lists (reparent sy) (Childs ?t) (k\<lparr>lists := h1\<rparr>) =
      Some (k\<lparr>task := orphans (kids a ?t) (task k), lists := h2\<rparr>)"
    and q2: "queues h2 (adopt a)"
    using exit_family [OF ok r] by blast
  obtain m' where m': "free_user_pages sy (dir_addr sy ?t) (mem k) = Some m'" "ram m' = ram (mem k)"
    "avail_frames (phys_mem m') = avail_frames (phys_mem (mem k)) \<union> data_frame (mem k) ?t ` {..<NUM_PAG_DATA}"
    "\<forall>r'<NR_TASKS. mem_ok sy (set_cr3 (dir_addr sy r') m') (live a - {?t}) r'"
    "\<forall>i p. i \<noteq> ?t \<longrightarrow> data_frame m' i p = data_frame (mem k) i p"
    using free_user_pages_ok [OF sy D(10) _ D(9)] r by auto
  have Hb: "heads ?b \<subseteq> heads (adopt a)"
    using parents_to_free [OF D(1) r] by (auto simp: heads_def parents_def live_def)
  have fam: "family dll h2 (heads ?b) (queue (adopt a))" by (rule zq.family_mono [OF q2 Hb])
  have "Anchor ?t \<notin> nodes (heads (adopt a)) (queue (adopt a))" using placed_facts(1) [OF D(1)] by simp
  then have "Anchor ?t \<notin> nodes (heads ?b) (queue (adopt a))" using Hb by (auto simp: nodes_def)
  then obtain h3 where h3: "list_add_tail (Anchor ?t) FreeQ h2 = Some h3"
    "family dll h3 (heads ?b) ((queue (adopt a))(FreeQ := queue (adopt a) FreeQ @ [Anchor ?t]))"
    using zq.family_add_tail [OF fam, of FreeQ "Anchor ?t"] by (auto simp: heads_def)
  have "(queue (adopt a))(FreeQ := queue (adopt a) FreeQ @ [Anchor ?t]) = queue ?b"
    by (intro ext; rename_tac p; case_tac p) (auto simp: to_free_def)
  with h3(2) have q3: "queues h3 ?b" by simp
  define k3 where "k3 = k\<lparr>task := orphans (kids a ?t) (task k), mem := m', lists := h3\<rparr>"
  have or: "PID (orphans ys T i) = PID (T i)" "quantum (orphans ys T i) = quantum (T i)"
    "dir_pages_baseAddr (orphans ys T i) = dir_pages_baseAddr (T i)"
    "kernel_esp (orphans ys T i) = kernel_esp (T i)" "stack (orphans ys T i) = stack (T i)" for ys T i
    by (simp_all add: orphans_def)
  have run: "sys_exit sy k = sched_next_rr sy k3"
    using ex m'(1) h3(1) current_entered [OF sy ent] kernel_ok_pcb [OF ok running_parents]
    by (simp add: sys_exit_def Let_def deref_def get_DIR_def pcb_ok_def on_mem_def on_lists_def k3_def or)
  have sub: "parents ?b = parents a - {?t}" by (rule parents_to_free [OF D(1) r])
  have "tables_ok sy k3 ?b"
    using D(8) q3 kids_to_free [OF D(1,2) r] exit_kin [OF D(6,1,2) r] inj_on_subset [OF D(7), of "parents ?b"]
    by (simp add: tables_ok_def k3_def pcb_ok_def or sub)
  then have "limbo sy k3 ?b ?t"
    using ok r placed_leave(3) [OF D(1) r] live_leave(3) [OF D(1) r] m'(4)
    by (simp add: limbo_def sub kernel_ok_def saved_def k3_def or)
  moreover have "entered sy k3 ?t" using ent by (simp add: entered_def k3_def)
  ultimately show ?thesis
    using run m'(2,3,5) by (intro exI [of _ k3]) (simp add: released_def contexts_kept_def k3_def or)
qed

lemma sys_exit_ok:
  assumes sy: "linked sy" and ok: "kernel_ok sy k a" and ent: "entered sy k (running a)"
    and r: "running a \<noteq> 0" and pid: "sint (PID (task k (running (s_exit a)))) < 100"
  shows "\<exists>k'. sys_exit sy k = Some k' \<and> kernel_ok sy k' (s_exit a) \<and> released k (running a) k' \<and>
    (\<forall>i. PID (task k' i) = PID (task k i)) \<and> contexts_kept (- {running a}) k k'"
proof -
  obtain k3 where k3: "sys_exit sy k = sched_next_rr sy k3" "limbo sy k3 (to_free a) (running a)"
    "entered sy k3 (running a)" "released k (running a) k3" "\<forall>i. PID (task k3 i) = PID (task k i)"
    "contexts_kept UNIV k k3"
    using sys_exit_limbo [OF sy ok ent r] by blast
  have "sint (PID (task k3 (running (dispatch (to_free a))))) < 100" using pid k3(5) by (simp add: s_exit_def)
  then obtain k' where "sched_next_rr sy k3 = Some k'" "kernel_ok sy k' (dispatch (to_free a))"
    "switched sy k3 (running (dispatch (to_free a))) k'" "last_pid k' = last_pid k3"
    "task k' = (task k3)(running a := (task k3 (running a))\<lparr>kernel_esp := ebp_switch k3\<rparr>)"
    using sched_next_ok [OF sy k3(2,3)] by blast
  then show ?thesis using k3(1,4-6)
    by (intro exI [of _ k']) (auto simp: s_exit_def switched_def released_def data_frame_def contexts_kept_def)
qed

lemma sys_exit_overrun:
  assumes "linked sy" and "kernel_ok sy k a" and "entered sy k (running a)" and "running a \<noteq> 0"
    and "100 \<le> sint (PID (task k (running (s_exit a))))"
  shows "sys_exit sy k = None"
  using sys_exit_limbo [OF assms(1-4)] sched_next_overrun assms(5) by (fastforce simp: s_exit_def)

end
