(* ===== verification/User.thy ===== *)
theory User
  imports Refine Write Interrupt
begin

text \<open>
  The user side: the system-call wrappers of \<^verbatim>\<open>wrappers.S\<close>, which load the registers,
  trap and translate a negative result into \<^verbatim>\<open>errno\<close>, and the program
  \<^verbatim>\<open>user.c\<close>.
\<close>

section \<open>wrappers.S\<close>

text \<open>The common end of the wrappers: the returned value, and the new \<^verbatim>\<open>errno\<close> if it is
  written.\<close>

definition wrapper_end :: "cint \<Rightarrow> cint \<times> cint option" where
  "wrapper_end v = (if 0 \<le> sint v then (v, None) else (-1, Some (- v)))"

definition trap :: "symbols \<Rightarrow> regs \<Rightarrow> kernel \<Rightarrow> ((cint \<times> cint option) \<times> kernel) option" where
  "trap sy r k = do {
     out \<leftarrow> system_call_handler sy r k;
     case out of Returned v k \<Rightarrow> Some (wrapper_end v, k) | NoValue k \<Rightarrow> None }"

definition write_call :: "symbols \<Rightarrow> cint \<Rightarrow> DWord \<Rightarrow> cint \<Rightarrow> regs \<Rightarrow> kernel \<Rightarrow> ((cint \<times> cint option) \<times> kernel) option" where
  "write_call sy fd buffer sz r k = trap sy (r\<lparr>r_edx := fd, r_ecx := buffer, r_ebx := sz, r_eax := 4\<rparr>) k"

text \<open>\<^verbatim>\<open>gettime\<close> does not look at the sign of its result.\<close>

definition gettime_call :: "symbols \<Rightarrow> regs \<Rightarrow> kernel \<Rightarrow> (cint \<times> kernel) option" where
  "gettime_call sy r k = do {
     out \<leftarrow> system_call_handler sy (r\<lparr>r_eax := 10\<rparr>) k;
     case out of Returned v k \<Rightarrow> Some (v, k) | NoValue k \<Rightarrow> None }"

definition getpid_call :: "symbols \<Rightarrow> regs \<Rightarrow> kernel \<Rightarrow> ((cint \<times> cint option) \<times> kernel) option" where
  "getpid_call sy r k = trap sy (r\<lparr>r_eax := 20\<rparr>) k"

definition fork_call :: "symbols \<Rightarrow> regs \<Rightarrow> kernel \<Rightarrow> ((cint \<times> cint option) \<times> kernel) option" where
  "fork_call sy r k = trap sy (r\<lparr>r_eax := 2\<rparr>) k"

definition unblock_call :: "symbols \<Rightarrow> cint \<Rightarrow> regs \<Rightarrow> kernel \<Rightarrow> ((cint \<times> cint option) \<times> kernel) option" where
  "unblock_call sy pid r k = trap sy (r\<lparr>r_ebx := pid, r_eax := 6\<rparr>) k"

text \<open>\<^verbatim>\<open>exit\<close> and \<^verbatim>\<open>block\<close> trap into routines without a result.\<close>

definition exit_call :: "symbols \<Rightarrow> regs \<Rightarrow> kernel \<Rightarrow> outcome option" where
  "exit_call sy r k = system_call_handler sy (r\<lparr>r_eax := 1\<rparr>) k"

definition block_call :: "symbols \<Rightarrow> regs \<Rightarrow> kernel \<Rightarrow> outcome option" where
  "block_call sy r k = system_call_handler sy (r\<lparr>r_eax := 5\<rparr>) k"

section \<open>user.c\<close>

text \<open>
  \<^verbatim>\<open>main\<close> up to its endless loop, for a process that is not preempted on the way: \<open>ent\<close> is the
  entry code of a trap, \<open>r\<close> the registers the wrappers do not load, \<open>msg1\<close> and \<open>msg2\<close> are the
  addresses of the two texts and \<open>buff\<close> is the global array. The part after the fork runs in the
  parent and in the child.
\<close>

definition user_after_fork ::
  "symbols \<Rightarrow> (kernel \<Rightarrow> kernel) \<Rightarrow> DWord \<Rightarrow> regs \<Rightarrow> Byte list \<Rightarrow> cint \<Rightarrow> kernel \<Rightarrow> (cint \<times> Byte list \<times> kernel) option" where
  "user_after_fork sy ent msg2 r buff pid k = do {
     ((curr_pid, _), k) \<leftarrow> getpid_call sy r (ent k);
     buff \<leftarrow> itoa curr_pid buff;
     k \<leftarrow> if pid = -1 then do { (_, k) \<leftarrow> write_call sy 1 msg2 12 r (ent k); Some k } else Some k;
     Some (curr_pid, buff, k) }"

definition user_main ::
  "symbols \<Rightarrow> (kernel \<Rightarrow> kernel) \<Rightarrow> DWord \<Rightarrow> DWord \<Rightarrow> regs \<Rightarrow> Byte list \<Rightarrow> kernel \<Rightarrow> (cint \<times> cint \<times> Byte list \<times> kernel) option" where
  "user_main sy ent msg1 msg2 r buff k = do {
     (_, k) \<leftarrow> write_call sy 1 msg1 11 r (ent k);
     ((pid, _), k) \<leftarrow> fork_call sy r (ent k);
     (curr_pid, buff, k) \<leftarrow> user_after_fork sy ent msg2 r buff pid k;
     Some (pid, curr_pid, buff, k) }"

section \<open>What the wrappers do\<close>

text \<open>The number the processor compares with \<^verbatim>\<open>MAX_SYSCALL\<close>, and the table entry.\<close>

lemma dispatch_entry:
  assumes "r_eax r = of_nat n" and "n < 21"
  shows "system_call_handler sy r k = (sys_call_table sy r ! n) k"
proof -
  have "sint (of_nat n :: DWord) = int n" "unat (of_nat n :: DWord) = n" using assms(2) by simp_all
  then show ?thesis using assms by (simp add: system_call_handler_def length_sys_call_table MAX_SYSCALL_def)
qed

lemma call_entries:
  "system_call_handler sy (r\<lparr>r_eax := 1\<rparr>) k = noval (sys_exit sy k)"
  "system_call_handler sy (r\<lparr>r_eax := 2\<rparr>) k = ret (sys_fork sy k)"
  "system_call_handler sy (r\<lparr>r_eax := 4\<rparr>) k = ret (sys_write sy (r_edx r) (r_ecx r) (r_ebx r) k)"
  "system_call_handler sy (r\<lparr>r_eax := 5\<rparr>) k = noval (sys_block sy k)"
  "system_call_handler sy (r\<lparr>r_eax := 6\<rparr>) k = ret (sys_unblock sy (r_edx r) k)"
  "system_call_handler sy (r\<lparr>r_eax := 10\<rparr>) k = ret (sys_gettime k)"
  "system_call_handler sy (r\<lparr>r_eax := 20\<rparr>) k = ret (sys_getpid sy k)"
  using dispatch_entry [of "r\<lparr>r_eax := 1\<rparr>" 1 sy k] dispatch_entry [of "r\<lparr>r_eax := 2\<rparr>" 2 sy k]
    dispatch_entry [of "r\<lparr>r_eax := 4\<rparr>" 4 sy k] dispatch_entry [of "r\<lparr>r_eax := 5\<rparr>" 5 sy k]
    dispatch_entry [of "r\<lparr>r_eax := 6\<rparr>" 6 sy k] dispatch_entry [of "r\<lparr>r_eax := 10\<rparr>" 10 sy k]
    dispatch_entry [of "r\<lparr>r_eax := 20\<rparr>" 20 sy k]
  by (simp_all add: sys_call_table_def Let_def)

text \<open>Every other number of the table, and every number beyond it but one, is refused.\<close>

lemma unused_entries:
  "n < 21 \<Longrightarrow> n \<notin> {1, 2, 4, 5, 6, 10, 20} \<Longrightarrow> r_eax r = of_nat n \<Longrightarrow> system_call_handler sy r k = Some (Returned (-38) k)"
proof -
  assume n: "n < 21" "n \<notin> {1, 2, 4, 5, 6, 10, 20}" "r_eax r = of_nat n"
  have "\<forall>n\<in>set [0..<21]. n \<in> {1, 2, 4, 5, 6, 10, 20} \<union> {0, 3, 7, 8, 9, 11, 12, 13, 14, 15, 16, 17, 18, 19 :: nat}"
    by code_simp
  then have "n \<in> {1, 2, 4, 5, 6, 10, 20} \<union> {0, 3, 7, 8, 9, 11, 12, 13, 14, 15, 16, 17, 18, 19 :: nat}"
    by (rule bspec) (use n(1) in simp)
  then have "n \<in> {0, 3, 7, 8, 9, 11, 12, 13, 14, 15, 16, 17, 18, 19}" using n(2) by blast
  then have "sys_call_table sy r ! n = (\<lambda>k. ret (sys_ni_syscall k))" by (auto simp: sys_call_table_def Let_def)
  then show ?thesis using dispatch_entry [OF n(3,1)] by (simp add: ret_def sys_ni_syscall_def)
qed

lemma out_of_range:
  "sint (r_eax r) < 0 \<or> 21 < sint (r_eax r) \<Longrightarrow> system_call_handler sy r k = Some (Returned (-38) k)"
  by (auto simp: system_call_handler_def MAX_SYSCALL_def)

text \<open>The bound is one too large: the number 21 calls through the word behind the table.\<close>

lemma call_21: "system_call_handler sy (r\<lparr>r_eax := 21\<rparr>) k = None"
  by (simp add: system_call_handler_def length_sys_call_table MAX_SYSCALL_def)

lemma wrapper_end_negative: "- (2 ^ 31) < sint v \<Longrightarrow> sint v < 0 \<Longrightarrow> wrapper_end v = (-1, Some (- v)) \<and> 0 < sint (- v)"
  by (simp add: wrapper_end_def sint_word_ariths signed_take_bit_int_eq_self)

lemma write_call_spec:
  "write_call sy fd buf sz r k = do { (v, k) \<leftarrow> sys_write sy fd buf sz k; Some (wrapper_end v, k) }"
  unfolding write_call_def trap_def call_entries by (cases "sys_write sy fd buf sz k") (auto simp: ret_def)

text \<open>\<^verbatim>\<open>unblock\<close> leaves its argument in \<^verbatim>\<open>ebx\<close>, where the kernel looks for a
  third argument: which child is unblocked depends on what \<^verbatim>\<open>edx\<close> happened to hold.\<close>

lemma unblock_call_spec:
  "unblock_call sy pid r k = do { (v, k) \<leftarrow> sys_unblock sy (r_edx r) k; Some (wrapper_end v, k) }"
proof -
  have "system_call_handler sy (r\<lparr>r_ebx := pid, r_eax := 6\<rparr>) k = ret (sys_unblock sy (r_edx r) k)"
    using call_entries(5) [of sy "r\<lparr>r_ebx := pid\<rparr>" k] by simp
  then show ?thesis unfolding unblock_call_def trap_def by (cases "sys_unblock sy (r_edx r) k") (auto simp: ret_def)
qed

lemma fork_call_spec: "fork_call sy r k = do { (v, k) \<leftarrow> sys_fork sy k; Some (wrapper_end v, k) }"
  unfolding fork_call_def trap_def call_entries by (cases "sys_fork sy k") (auto simp: ret_def)

lemma getpid_call_spec: "getpid_call sy r k = Some (wrapper_end (PID (task k (current sy k))), k)"
  unfolding getpid_call_def trap_def call_entries by (simp add: sys_getpid_def ret_def)

text \<open>The dispatch of a trap, for every value of \<^verbatim>\<open>eax\<close>.\<close>

lemma handler_cases:
  "system_call_handler sy r k =
    (if sint (r_eax r) < 0 \<or> 21 < sint (r_eax r) then Some (Returned (-38) k)
     else if r_eax r = 1 then noval (sys_exit sy k)
     else if r_eax r = 2 then ret (sys_fork sy k)
     else if r_eax r = 4 then ret (sys_write sy (r_edx r) (r_ecx r) (r_ebx r) k)
     else if r_eax r = 5 then noval (sys_block sy k)
     else if r_eax r = 6 then ret (sys_unblock sy (r_edx r) k)
     else if r_eax r = 10 then ret (sys_gettime k)
     else if r_eax r = 20 then ret (sys_getpid sy k)
     else if r_eax r = 21 then None
     else Some (Returned (-38) k))"
proof (cases "sint (r_eax r) < 0 \<or> 21 < sint (r_eax r)")
  case False
  define n where "n = nat (sint (r_eax r))"
  have n: "sint (r_eax r) = int n" "n \<le> 21" using False by (auto simp: n_def)
  have eax: "r_eax r = of_nat n" using arg_cong [OF n(1), of "of_int :: int \<Rightarrow> DWord"] by simp
  have r: "system_call_handler sy r k = (if n = 21 then None else (sys_call_table sy r ! n) k)"
  proof (cases "n = 21")
    case True
    then have "r = r\<lparr>r_eax := 21\<rparr>" using eax by simp
    then show ?thesis using True call_21 [of sy r k] by simp
  next
    case False
    then show ?thesis using dispatch_entry [OF eax, of sy k] n(2) by simp
  qed
  show ?thesis
  proof (cases "n \<in> {1, 2, 4, 5, 6, 10, 20, 21}")
    case True
    then show ?thesis using False unfolding r eax by (auto simp: sys_call_table_def Let_def)
  next
    case ne: False
    then have "system_call_handler sy r k = Some (Returned (-38) k)"
      using unused_entries [OF _ _ eax, of sy k] n(2) by force
    moreover have "of_nat n = (of_nat v :: DWord) \<longleftrightarrow> n = v" if "v \<le> 21" for v
    proof
      assume "of_nat n = (of_nat v :: DWord)"
      then have "unat (of_nat n :: DWord) = unat (of_nat v :: DWord)" by simp
      then show "n = v" using n(2) that by simp
    qed simp
    from this [of 1] this [of 2] this [of 4] this [of 5] this [of 6] this [of 10] this [of 20] this [of 21]
    have "of_nat n \<notin> {1, 2, 4, 5, 6, 10, 20, 21 :: DWord}" using ne by simp
    ultimately show ?thesis using False by (simp add: eax)
  qed
qed (simp add: out_of_range)

end
