(* ===== verification/Traces.thy ===== *)
theory Traces
  imports Main
begin

text \<open>
  Labelled transition systems and simulation between them: paths with the events along them,
  and the contract under which every path of the program is a path of its specification with
  the same events.
\<close>

inductive path :: "('s \<Rightarrow> 'e \<Rightarrow> 's \<Rightarrow> bool) \<Rightarrow> 's \<Rightarrow> 'e list \<Rightarrow> 's \<Rightarrow> bool" for R where
  path_nil: "path R s [] s"
| path_snoc: "path R s es t \<Longrightarrow> R t e u \<Longrightarrow> path R s (es @ [e]) u"

inductive_simps path_nil_iff [simp]: "path R s [] t"

lemma path_one: "R s e t \<Longrightarrow> path R s [e] t"
  using path_snoc [OF path_nil, of R s e t] by simp

lemma path_restrict: "path R s es t \<Longrightarrow> list_all P es \<Longrightarrow> path (\<lambda>s e t. P e \<and> R s e t) s es t"
  by (induction rule: path.induct) (auto intro: path.intros)

locale simulation =
  fixes cstep :: "'c \<Rightarrow> 'e \<Rightarrow> 'c \<Rightarrow> bool" and astep :: "'a \<Rightarrow> 'e \<Rightarrow> 'a \<Rightarrow> bool"
    and rel :: "'c \<Rightarrow> 'a \<Rightarrow> bool"
  assumes sim: "rel c a \<Longrightarrow> cstep c e c' \<Longrightarrow> \<exists>a'. astep a e a' \<and> rel c' a'"
begin

text \<open>Trace inclusion.\<close>

lemma traces:
  assumes "path cstep c es c'" and "rel c a"
  shows "\<exists>a'. path astep a es a' \<and> rel c' a'"
  using assms
proof (induction rule: path.induct)
  case (path_nil c)
  then show ?case by auto
next
  case (path_snoc c es d e u)
  then obtain b where b: "path astep a es b" "rel d b" by auto
  obtain b' where b': "astep b e b'" "rel u b'" using sim [OF b(2) path_snoc.hyps(2)] by auto
  show ?case using path.path_snoc [OF b(1) b'(1)] b'(2) by auto
qed

text \<open>From an abstract state that no event changes, the program never leaves what it represents.\<close>

lemma stable:
  assumes "path cstep c es c'" and "rel c a" and "\<And>e b. astep a e b \<Longrightarrow> b = a"
  shows "rel c' a"
  using assms
proof (induction rule: path.induct)
  case (path_snoc c es d e u)
  then have d: "rel d a" by simp
  obtain b where b: "astep a e b" "rel u b" using sim [OF d path_snoc.hyps(2)] by auto
  show ?case using path_snoc.prems(2) [OF b(1)] b(2) by simp
qed simp

end

end
