(* ===== verification/Machine.thy ===== *)
theory Machine
  imports Boot Fork Exit User Traces
begin

text \<open>
  The kernel in operation. Between two entries into the kernel the processor runs the
  current process in user mode, which can load and store through its page table; an entry is
  an interrupt or a system call and runs one service routine to its end. The theory defines
  the steps of this machine and the moves of the process manager, both labelled with events,
  and shows that every service routine keeps the invariant and makes a move its event allows.
\<close>

section \<open>Entering the kernel\<close>

text \<open>The processor switches to the stack in \<^verbatim>\<open>tss.esp0\<close>, so the task that owns that
  stack is the one that enters; the depth and the contents of the frames it pushes there are up to
  the compiler. \<open>Entry\<close> has the frames of the entry code word by word.\<close>

definition on_cpu :: "symbols \<Rightarrow> kernel \<Rightarrow> nat" where
  "on_cpu sy k = task_pos sy (esp0 (tss k) - 4)"

definition enter :: "symbols \<Rightarrow> kernel \<Rightarrow> kernel \<Rightarrow> bool" where
  "enter sy k k1 \<longleftrightarrow> entered sy k1 (on_cpu sy k) \<and>
     (\<exists>st. k1 = k\<lparr>task := (task k)(on_cpu sy k := (task k (on_cpu sy k))\<lparr>stack := st\<rparr>),
        esp := esp k1, ebp_fork := ebp_fork k1, ebp_switch := ebp_switch k1\<rparr>)"

text \<open>The accesses of user code: the page must be present and marked for the user, and
  writable for a store.\<close>

definition user_load :: "symbols \<Rightarrow> DWord \<Rightarrow> kernel \<Rightarrow> (Byte \<times> kernel) option" where
  "user_load sy x k = do {
     (e, m) \<leftarrow> translate sy (mem k) (page_of x);
     if user e = 1 then do { (b, m) \<leftarrow> load8 sy m x; Some (b, k\<lparr>mem := m\<rparr>) } else None }"

definition user_store :: "symbols \<Rightarrow> DWord \<Rightarrow> Byte \<Rightarrow> kernel \<Rightarrow> kernel option" where
  "user_store sy x b k = do {
     (e, m) \<leftarrow> translate sy (mem k) (page_of x);
     if user e = 1 \<and> rw e = 1 then do { m \<leftarrow> store8 sy m x b; Some (k\<lparr>mem := m\<rparr>) } else None }"

section \<open>Steps\<close>

datatype event = Tick | Key Byte | Syscall regs | Load DWord | Store DWord Byte

text \<open>The keys whose service switches context without the scheduler, and the events without them.\<close>

definition test_key :: "Byte \<Rightarrow> bool" where
  "test_key c \<longleftrightarrow> c AND 0x80 \<noteq> 0 \<and> unat (c AND 0x7F) < length char_map \<and>
     test_target (char_map ! unat (c AND 0x7F)) \<noteq> None"

fun ordinary :: "event \<Rightarrow> bool" where
  "ordinary (Key c) \<longleftrightarrow> \<not> test_key c"
| "ordinary _ \<longleftrightarrow> True"

fun is_fork :: "event \<Rightarrow> bool" where
  "is_fork (Syscall r) \<longleftrightarrow> r_eax r = 2"
| "is_fork _ \<longleftrightarrow> False"

primrec state_after :: "outcome \<Rightarrow> kernel" where
  "state_after (Returned v k) = k"
| "state_after (NoValue k) = k"

inductive step :: "(screen \<Rightarrow> screen) \<Rightarrow> symbols \<Rightarrow> kernel \<Rightarrow> event \<Rightarrow> kernel \<Rightarrow> bool"
  for show_clock :: "screen \<Rightarrow> screen" and sy :: symbols where
  tick: "enter sy k k1 \<Longrightarrow> clock_service show_clock sy k1 = Some k' \<Longrightarrow> step show_clock sy k Tick k'"
| key: "enter sy k k1 \<Longrightarrow> inb ports 0x60 = c \<Longrightarrow> keyboard_service sy ports k1 = Some k' \<Longrightarrow>
    step show_clock sy k (Key c) k'"
| syscall: "on_cpu sy k \<noteq> 0 \<Longrightarrow> enter sy k k1 \<Longrightarrow> system_call_handler sy r k1 = Some out \<Longrightarrow>
    step show_clock sy k (Syscall r) (state_after out)"
| load: "on_cpu sy k \<noteq> 0 \<Longrightarrow> user_load sy x k = Some (b, k') \<Longrightarrow> step show_clock sy k (Load x) k'"
| store: "on_cpu sy k \<noteq> 0 \<Longrightarrow> user_store sy x b k = Some k' \<Longrightarrow> step show_clock sy k (Store x b) k'"

inductive_cases tickE: "step show_clock sy k Tick k'"
inductive_cases stepE: "step show_clock sy k e k'"

text \<open>The moves of the abstract process manager, with the event that can cause each.\<close>

inductive move :: "procs \<Rightarrow> event \<Rightarrow> procs \<Rightarrow> bool" where
  stay: "move a e a"
| preempt: "ready a \<noteq> [] \<Longrightarrow> move a Tick (s_preempt a)"
| exit: "running a \<noteq> 0 \<Longrightarrow> r_eax r = 1 \<Longrightarrow> move a (Syscall r) (s_exit a)"
| fork: "running a \<noteq> 0 \<Longrightarrow> r_eax r = 2 \<Longrightarrow> free a \<noteq> [] \<Longrightarrow> move a (Syscall r) (s_fork a)"
| block: "running a \<noteq> 0 \<Longrightarrow> r_eax r = 5 \<Longrightarrow> move a (Syscall r) (s_block a)"
| unblock: "running a \<noteq> 0 \<Longrightarrow> r_eax r = 6 \<Longrightarrow> c \<in> set (kids a (running a)) \<Longrightarrow> c \<in> set (waiting a) \<Longrightarrow>
    move a (Syscall r) (s_unblock c a)"

section \<open>The system invariant\<close>

text \<open>
  A step that dispatches a process whose PID has three digits has no defined result (see
  \<open>print_num\<close>). In the runs considered here such a process is therefore created but not dispatched,
  and never gives its slot back, which bounds the PID counter and excludes its overflow. The bound
  is a fact of these runs, not of the compiled program, which may go on after the overrun.
\<close>

definition stuck :: "kernel \<Rightarrow> procs \<Rightarrow> nat set" where
  "stuck k a = {i \<in> live a. 100 \<le> sint (PID (task k i))}"

definition pids_ok :: "kernel \<Rightarrow> procs \<Rightarrow> bool" where
  "pids_ok k a \<longleftrightarrow> sint (PID (task k (running a))) < 100 \<and>
     sint (last_pid k) \<le> 99 + 2 * int (card (stuck k a))"

definition system_ok :: "symbols \<Rightarrow> kernel \<Rightarrow> procs \<Rightarrow> bool" where
  "system_ok sy k a \<longleftrightarrow> kernel_ok sy k a \<and> pids_ok k a"

lemma system_okD:
  assumes "system_ok sy k a"
  shows "kernel_ok sy k a" "pids_ok k a" "cursor_ok (scr k)"
  using assms kernel_okD(5) [of sy k a] by (simp_all add: system_ok_def)

lemma live_subset: "placed a \<Longrightarrow> live a \<subseteq> {1..<NR_TASKS}"
  using live_bound by fastforce

lemma stuck_bound: "placed a \<Longrightarrow> card (stuck k a) \<le> 9"
proof -
  assume p: "placed a"
  have "card (stuck k a) \<le> card {1..<NR_TASKS}"
    using live_subset [OF p] by (intro card_mono) (auto simp: stuck_def)
  then show ?thesis by (simp add: zeos_consts)
qed

lemma last_pid_bound: "system_ok sy k a \<Longrightarrow> sint (last_pid k) < 118"
  using stuck_bound [of a k] kernel_okD(1) by (fastforce simp: system_ok_def pids_ok_def)

lemma on_cpu_running:
  assumes sy: "linked sy" and ok: "kernel_ok sy k a"
  shows "on_cpu sy k = running a"
proof -
  have r: "running a < NR_TASKS" by (rule kernel_okD(9) [OF ok])
  have pos: "task_pos sy (stack_addr sy (running a) j) = running a" if "j < KERNEL_STACK_SIZE" for j
    unfolding stack_addr_def by (rule task_pos_off [OF r]) (use that in \<open>simp add: zeos_consts del: of_nat_mult\<close>)
  have "stack_addr sy (running a) (Suc j) - 4 = stack_addr sy (running a) j" for j
    by (simp add: stack_addr_def algebra_simps)
  then have "esp0 (tss k) - 4 \<in> stack_addr sy (running a) ` {..<KERNEL_STACK_SIZE}"
    using ok unfolding kernel_ok_def zeos_consts by (auto simp: numeral_eq_Suc)
  then show ?thesis using pos by (auto simp: on_cpu_def)
qed

lemma enter_ok:
  assumes sy: "linked sy" and ok: "system_ok sy k a" and en: "enter sy k k1"
  shows "system_ok sy k1 a" "entered sy k1 (running a)" "mem k1 = mem k" "contexts_kept (- {running a}) k k1"
    "\<forall>i. PID (task k1 i) = PID (task k i)" "quantum_ticks k1 = quantum_ticks k" "last_pid k1 = last_pid k"
proof -
  have k: "kernel_ok sy k a" using ok by (simp add: system_ok_def)
  have r: "on_cpu sy k = running a" by (rule on_cpu_running [OF sy k])
  obtain st where eq: "k1 = k\<lparr>task := (task k)(running a := (task k (running a))\<lparr>stack := st\<rparr>),
      esp := esp k1, ebp_fork := ebp_fork k1, ebp_switch := ebp_switch k1\<rparr>"
    using en unfolding enter_def r by blast
  have f: "lists k1 = lists k" "task k1 = (task k)(running a := (task k (running a))\<lparr>stack := st\<rparr>)" "idle_task k1 = idle_task k" "scr k1 = scr k"
    "last_pid k1 = last_pid k" "tss k1 = tss k" "mem k1 = mem k" "quantum_ticks k1 = quantum_ticks k"
    by (subst eq, simp)+
  then have "kernel_ok sy k1 a" by (intro kernel_ok_cong [OF k]) (simp_all add: kernel_okD(5) [OF k])
  moreover show pids: "\<forall>i. PID (task k1 i) = PID (task k i)" by (simp add: f(2))
  ultimately show "system_ok sy k1 a" using ok f(5) by (simp add: system_ok_def pids_ok_def stuck_def)
  show "mem k1 = mem k" "quantum_ticks k1 = quantum_ticks k" "last_pid k1 = last_pid k" by (fact f)+
  show "contexts_kept (- {running a}) k k1" by (simp add: f(2) contexts_kept_def)
  show "entered sy k1 (running a)" using en r by (simp add: enter_def)
qed

text \<open>The PID counter never falls, and only a fork raises it, by at most two.\<close>

definition counts :: "event \<Rightarrow> kernel \<Rightarrow> kernel \<Rightarrow> bool" where
  "counts e k k' \<longleftrightarrow> sint (last_pid k) \<le> sint (last_pid k') \<and>
     sint (last_pid k') \<le> sint (last_pid k) + (if is_fork e then 2 else 0)"

lemma counts_same [simp]: "last_pid k' = last_pid k \<Longrightarrow> counts e k k'"
  by (simp add: counts_def)

text \<open>A step follows the specification when it is one of its moves, keeps the invariant, counts
  PIDs, and leaves the memory and the saved contexts of the processes that are not running alone.\<close>

definition follows :: "symbols \<Rightarrow> event \<Rightarrow> kernel \<Rightarrow> procs \<Rightarrow> kernel \<Rightarrow> bool" where
  "follows sy e k a k' \<longleftrightarrow> (\<exists>a'. move a e a' \<and> system_ok sy k' a' \<and>
     undisturbed (live a - {running a}) (mem k) (mem k') \<and> contexts_kept (parents a - {running a}) k k' \<and> counts e k k')"

lemma contexts_kept_task [simp]: "task k' = task k \<Longrightarrow> contexts_kept I k k'"
  by (simp add: contexts_kept_def)

lemma contexts_kept_upd: "task k' = (task k)(i := ts) \<Longrightarrow> contexts_kept (I - {i}) k k'"
  by (simp add: contexts_kept_def)

lemma undisturbed_refl [simp]: "undisturbed I m m"
  by (simp add: undisturbed_def)

lemma undisturbed_set_cr3 [simp]: "undisturbed I m (set_cr3 d m)"
  by (simp add: undisturbed_def data_frame_def set_cr3_def)

lemma pids_cong:
  "pids_ok k a \<Longrightarrow> \<forall>i. PID (task k' i) = PID (task k i) \<Longrightarrow> last_pid k' = last_pid k \<Longrightarrow>
    live a' = live a \<Longrightarrow> sint (PID (task k (running a'))) < 100 \<Longrightarrow> pids_ok k' a'"
  by (simp add: pids_ok_def stuck_def)

lemma system_same:
  assumes "system_ok sy k a" and "kernel_ok sy k' a" and "\<forall>i. PID (task k' i) = PID (task k i)"
    and "last_pid k' = last_pid k"
  shows "system_ok sy k' a"
  using assms by (simp add: system_ok_def pids_ok_def stuck_def)

lemma follows_stay:
  "system_ok sy k' a \<Longrightarrow> undisturbed (live a - {running a}) (mem k) (mem k') \<Longrightarrow>
    contexts_kept (parents a - {running a}) k k' \<Longrightarrow> last_pid k' = last_pid k \<Longrightarrow> follows sy e k a k'"
  by (auto simp: follows_def intro: stay)

lemma follows_refl: "system_ok sy k a \<Longrightarrow> follows sy e k a k"
  by (rule follows_stay) simp_all

lemma followsI:
  "move a e a' \<Longrightarrow> kernel_ok sy k' a' \<Longrightarrow> pids_ok k' a' \<Longrightarrow>
    undisturbed (live a - {running a}) (mem k) (mem k') \<Longrightarrow> contexts_kept (parents a - {running a}) k k' \<Longrightarrow> counts e k k' \<Longrightarrow>
    follows sy e k a k'"
  by (auto simp: follows_def system_ok_def)

lemma switched_undisturbed: "switched sy k n k' \<Longrightarrow> undisturbed I (mem k) (mem k')"
  by (auto simp: switched_def)

text \<open>What the kernel relies on in \<^verbatim>\<open>zeos_show_clock\<close> of \<^verbatim>\<open>libzeos.a\<close>: it leaves the
  cursor on the screen.\<close>

definition keeps_cursor :: "(screen \<Rightarrow> screen) \<Rightarrow> bool" where
  "keeps_cursor f \<longleftrightarrow> (\<forall>s. cursor_ok s \<longrightarrow> cursor_ok (f s))"

section \<open>Every service routine follows the specification\<close>

lemma leave_live: "placed a \<Longrightarrow> running a \<noteq> 0 \<Longrightarrow> live (s_preempt a) = live a"
  "placed a \<Longrightarrow> running a \<noteq> 0 \<Longrightarrow> live (s_block a) = live a"
  "placed a \<Longrightarrow> running a \<noteq> 0 \<Longrightarrow> live (s_exit a) = live a - {running a}"
  using partition_dispatch(2) placed_leave live_leave
  by (simp_all add: s_preempt_def s_block_def s_exit_def to_ready_def to_waiting_def to_free_def)

lemma scheduler_follows:
  assumes sy: "linked sy" and ok: "system_ok sy k a" and ent: "entered sy k (running a)"
    and run: "scheduler sy k = Some k'"
  shows "follows sy Tick k a k'"
proof (cases "ready a = [] \<or> 0 \<le> sint (quantum_ticks k - 1)")
  case True
  have k: "kernel_ok sy k a" using ok by (simp add: system_ok_def)
  have k': "k' = k\<lparr>quantum_ticks := (if ready a = [] then quantum (task k (running a)) else quantum_ticks k - 1)\<rparr>"
    using run scheduler_keeps [OF sy k ent True] by simp
  have "kernel_ok sy k' a" unfolding k' by (rule kernel_ok_cong [OF k]) (simp_all add: kernel_okD(5) [OF k])
  then show ?thesis by (intro follows_stay system_same [OF ok]) (simp_all add: k')
next
  case False
  have k: "kernel_ok sy k a" using ok by (simp add: system_ok_def)
  have exp: "ready a \<noteq> []" "sint (quantum_ticks k - 1) < 0" using False by auto
  have r: "running a \<noteq> 0" using k exp(1) by (auto simp: kernel_ok_def partition_ok_def)
  have pid: "sint (PID (task k (hd (ready a)))) < 100"
    using scheduler_overrun [OF sy k ent exp] run by fastforce
  then have "kernel_ok sy k' (s_preempt a)" "switched sy k (hd (ready a)) k'"
    "task k' = (task k)(running a := (task k (running a))\<lparr>kernel_esp := ebp_switch k\<rparr>)" "last_pid k' = last_pid k"
    using scheduler_switches [OF sy k ent pid exp] run by auto
  moreover have "pids_ok k' (s_preempt a)"
    by (rule pids_cong [of k a]) (use ok calculation leave_live(1) [OF kernel_okD(1) [OF k] r] pid
      hd_ready_dispatch [OF exp(1)] in \<open>simp_all add: system_ok_def s_preempt_def\<close>)
  ultimately show ?thesis
    using followsI [OF preempt [OF exp(1)]] switched_undisturbed contexts_kept_upd counts_same by blast
qed

lemma block_follows:
  assumes sy: "linked sy" and ok: "system_ok sy k a" and ent: "entered sy k (running a)" and r: "running a \<noteq> 0" and eax: "r_eax rs = 5"
    and run: "sys_block sy k = Some k'"
  shows "follows sy (Syscall rs) k a k'"
proof (cases "pending_unblocks (task k (running a)) = 0")
  case False
  have k: "kernel_ok sy k a" using ok by (simp add: system_ok_def)
  then have "kernel_ok sy k' a" and k': "k' = k\<lparr>task := (task k)(running a := (task k (running a))
      \<lparr>pending_unblocks := pending_unblocks (task k (running a)) - 1\<rparr>)\<rparr>"
    using sys_block_pending [OF sy k ent False] run by auto
  then show ?thesis by (intro follows_stay system_same [OF ok]) (simp_all add: contexts_kept_def)
next
  case True
  have k: "kernel_ok sy k a" using ok by (simp add: system_ok_def)
  have pid: "sint (PID (task k (running (s_block a)))) < 100"
    using sys_block_overrun [OF sy k ent r True] run by fastforce
  then have "kernel_ok sy k' (s_block a)" "switched sy k (running (s_block a)) k'"
    "task k' = (task k)(running a := (task k (running a))\<lparr>kernel_esp := ebp_switch k\<rparr>)" "last_pid k' = last_pid k"
    using sys_block_switches [OF sy k ent r True pid] run by auto
  moreover have "pids_ok k' (s_block a)"
    by (rule pids_cong [of k a]) (use ok calculation leave_live(2) [OF kernel_okD(1) [OF k] r] pid
      in \<open>simp_all add: system_ok_def\<close>)
  ultimately show ?thesis
    using followsI [OF block [OF r eax]] switched_undisturbed contexts_kept_upd counts_same by blast
qed

lemma exit_follows:
  assumes sy: "linked sy" and ok: "system_ok sy k a" and ent: "entered sy k (running a)" and r: "running a \<noteq> 0" and eax: "r_eax rs = 1"
    and run: "sys_exit sy k = Some k'"
  shows "follows sy (Syscall rs) k a k'"
proof -
  have k: "kernel_ok sy k a" using ok by (simp add: system_ok_def)
  have pid: "sint (PID (task k (running (s_exit a)))) < 100"
    using sys_exit_overrun [OF sy k ent r] run by fastforce
  then have k': "kernel_ok sy k' (s_exit a)" "released k (running a) k'" "\<forall>i. PID (task k' i) = PID (task k i)"
    "contexts_kept (- {running a}) k k'"
    using sys_exit_ok [OF sy k ent r pid] run by auto
  have "stuck k' (s_exit a) = stuck k a"
    using ok k'(3) leave_live(3) [OF kernel_okD(1) [OF k] r] by (auto simp: stuck_def system_ok_def pids_ok_def)
  then have "pids_ok k' (s_exit a)" using ok k' pid by (simp add: pids_ok_def system_ok_def released_def)
  moreover have "undisturbed (live a - {running a}) (mem k) (mem k')"
    using k'(2) by (simp add: undisturbed_def released_def)
  moreover have "contexts_kept (parents a - {running a}) k k'" using k'(4) by (simp add: contexts_kept_def)
  moreover have "counts (Syscall rs) k k'" using k'(2) by (simp add: released_def)
  ultimately show ?thesis
    using followsI [OF exit [OF r eax] k'(1)] by blast
qed

lemma unblock_follows:
  assumes sy: "linked sy" and ok: "system_ok sy k a" and ent: "entered sy k (running a)" and r: "running a \<noteq> 0" and eax: "r_eax rs = 6"
    and run: "sys_unblock sy pid k = Some (v, k')"
  shows "follows sy (Syscall rs) k a k'"
proof -
  have k: "kernel_ok sy k a" using ok by (simp add: system_ok_def)
  show ?thesis
  proof (cases "\<exists>c\<in>set (kids a (running a)). PID (task k c) = pid")
    case False
    then have "k' = k" using run sys_unblock_no_child [OF sy k ent] by auto
    then show ?thesis using follows_refl [OF ok] by simp
  next
    case True
    then obtain c where c: "c \<in> set (kids a (running a))" "PID (task k c) = pid" by blast
    show ?thesis
    proof (cases "c \<in> set (waiting a)")
      case False
      obtain k2 where k2: "sys_unblock sy pid k = Some (0, k2)" "kernel_ok sy k2 a"
        "k2 = k\<lparr>task := (task k)(c := (task k c)\<lparr>pending_unblocks := pending_unblocks (task k c) + 1\<rparr>)\<rparr>"
        using sys_unblock_not_blocked [OF sy k ent c False] by blast
      have "k' = k2" using run k2(1) by simp
      then show ?thesis using k2(2) by (intro follows_stay system_same [OF ok]) (simp_all add: k2(3) contexts_kept_def)
    next
      case True
      obtain h where h: "sys_unblock sy pid k = Some (0, k\<lparr>lists := h\<rparr>)" "kernel_ok sy (k\<lparr>lists := h\<rparr>) (s_unblock c a)"
        using sys_unblock_blocked [OF sy k ent r c True] by blast
      have k': "k' = k\<lparr>lists := h\<rparr>" using run h(1) by simp
      have "live (s_unblock c a) = live a" by (rule placed_unblock(2) [OF kernel_okD(1) [OF k] True])
      moreover have "running (s_unblock c a) = running a" by (simp add: s_unblock_def)
      ultimately have "pids_ok k' (s_unblock c a)"
        using system_okD(2) [OF ok] unfolding k' by (simp add: pids_ok_def stuck_def)
      moreover have "undisturbed (live a - {running a}) (mem k) (mem k')" by (simp add: k')
      moreover have "kernel_ok sy k' (s_unblock c a)" unfolding k' by (rule h(2))
      moreover have "contexts_kept (parents a - {running a}) k k'" "counts (Syscall rs) k k'" by (simp_all add: k')
      ultimately show ?thesis by (intro followsI [OF unblock [OF r eax c(1) True]])
    qed
  qed
qed

lemma fork_result:
  assumes sy: "linked sy" and ok: "system_ok sy k a" and ent: "entered sy k (running a)" and r: "running a \<noteq> 0"
    and f: "free a = n # f" and run: "sys_fork sy k = Some (v, k')"
  shows "system_ok sy k' (s_fork a)" "undisturbed (live a) (mem k) (mem k')" "contexts_kept (- {n}) k k'" "n \<notin> parents a"
    "sint (last_pid k) < sint (last_pid k')" "sint (last_pid k') \<le> sint (last_pid k) + 2"
proof -
  have k: "kernel_ok sy k a" using ok by (simp add: system_ok_def)
  have last: "sint (last_pid k) < 2 ^ 31 - 3" using last_pid_bound [OF ok] by simp
  obtain j where j: "ebp_fork k = stack_addr sy (running a) j" "0 < j" "j < KERNEL_STACK_SIZE"
    using ent by (auto simp: entered_def)
  define T where "T pid = (task k)(n := child_of sy (task k (running a)) (running a) n pid j)" for pid
  obtain pid h m where k': "k' = k\<lparr>mem := m, last_pid := pid, task := T pid, lists := h\<rparr>"
    "kernel_ok sy k' (s_fork a)" "sint (last_pid k) < sint pid" "sint pid \<le> sint (last_pid k) + 2"
    "undisturbed (live a) (mem k) m"
    using sys_fork_ok [OF sy k ent r f last j] run unfolding T_def by auto
  have n: "n \<notin> live a" "n \<noteq> 0" using fork_fresh [OF kernel_okD(1) [OF k] f] by auto
  then show "n \<notin> parents a" by (simp add: parents_def)
  show "undisturbed (live a) (mem k) (mem k')" using k'(5) by (simp add: k'(1))
  show "contexts_kept (- {n}) k k'" by (simp add: contexts_kept_def k'(1) T_def)
  show "sint (last_pid k) < sint (last_pid k')" "sint (last_pid k') \<le> sint (last_pid k) + 2" using k'(3,4) by (simp_all add: k'(1))
  have lv: "live (s_fork a) = insert n (live a)" by (rule live_fork [OF kernel_okD(1) [OF k] f])
  have st: "stuck k' (s_fork a) = (if 100 \<le> sint pid then insert n (stuck k a) else stuck k a)"
    using n by (auto simp: stuck_def lv k'(1) T_def child_of_def)
  have fin: "finite (stuck k a)" "n \<notin> stuck k a"
    using n finite_subset [OF live_subset [OF kernel_okD(1) [OF k]]] by (auto simp: stuck_def)
  have "running (s_fork a) = running a" using f by (simp add: s_fork_def)
  moreover have "running a \<noteq> n" using n r by auto
  ultimately have "pids_ok k' (s_fork a)"
    using ok k'(3,4) fin by (auto simp: pids_ok_def system_ok_def st) (simp_all add: k'(1) T_def)
  then show "system_ok sy k' (s_fork a)" using k'(2) by (simp add: system_ok_def)
qed

lemma fork_follows:
  assumes sy: "linked sy" and ok: "system_ok sy k a" and ent: "entered sy k (running a)" and r: "running a \<noteq> 0" and eax: "r_eax rs = 2"
    and run: "sys_fork sy k = Some (v, k')"
  shows "follows sy (Syscall rs) k a k'"
proof (cases "free a")
  case Nil
  then show ?thesis using run sys_fork_full [of sy k a] follows_refl [OF ok] ok by (simp add: system_ok_def)
next
  case (Cons n f)
  note F = fork_result [OF sy ok ent r Cons run]
  have "undisturbed (live a - {running a}) (mem k) (mem k')" using F(2) by (simp add: undisturbed_def)
  moreover have "contexts_kept (parents a - {running a}) k k'" using F(3,4) by (auto simp: contexts_kept_def)
  moreover have "counts (Syscall rs) k k'" using F(5,6) eax by (simp add: counts_def)
  ultimately show ?thesis
    using followsI [OF fork [OF r eax]] system_okD(1,2) [OF F(1)] Cons by simp
qed

lemma getters_follow:
  "system_ok sy k a \<Longrightarrow> sys_ni_syscall k = Some (v, k') \<Longrightarrow> follows sy e k a k'"
  "system_ok sy k a \<Longrightarrow> sys_gettime k = Some (v, k') \<Longrightarrow> follows sy e k a k'"
  "system_ok sy k a \<Longrightarrow> sys_getpid sy k = Some (v, k') \<Longrightarrow> follows sy e k a k'"
  by (auto simp: sys_ni_syscall_def sys_gettime_def sys_getpid_def intro: follows_refl)

text \<open>Whatever the arguments, \<^verbatim>\<open>sys_write\<close> changes the TLB and the screen only.\<close>

lemma same_but_undisturbed:
  assumes "same_but sy F m m'" and "\<And>i p. i \<in> I \<Longrightarrow> p < NUM_PAG_DATA \<Longrightarrow> data_frame m i p \<notin> F"
  shows "undisturbed I m m'"
proof -
  have eq: "m' = m\<lparr>ram := ram m', tlb := tlb m'\<rparr>" using assms(1) by (simp add: same_but_def)
  have "pagusr_table m' = pagusr_table m" by (subst eq, simp)
  then show ?thesis using assms by (simp add: undisturbed_def data_frame_def same_but_def)
qed

lemma system_mem_scr:
  assumes "system_ok sy k a" and "mem_ok sy m (live a) (running a)" and "cursor_ok s"
  shows "system_ok sy (k\<lparr>scr := s, mem := m\<rparr>) a"
proof (rule system_same [OF assms(1)])
  show "kernel_ok sy (k\<lparr>scr := s, mem := m\<rparr>) a"
    using assms by (intro kernel_ok_mem_scr) (simp_all add: system_ok_def)
qed simp_all

lemma system_mem:
  assumes "system_ok sy k a" and "mem_ok sy m (live a) (running a)"
  shows "system_ok sy (k\<lparr>mem := m\<rparr>) a"
proof (rule system_same [OF assms(1)])
  show "kernel_ok sy (k\<lparr>mem := m\<rparr>) a"
    using assms by (simp add: system_ok_def kernel_ok_def tables_ok_def pcb_ok_def)
qed simp_all

text \<open>A change of memory that keeps the page tables and spares the other processes.\<close>

lemma follows_same_but:
  assumes ok: "system_ok sy k a" and sb: "same_but sy F (mem k) m" and s: "cursor_ok s"
    and F: "\<And>i p. i \<in> live a - {running a} \<Longrightarrow> p < NUM_PAG_DATA \<Longrightarrow> data_frame (mem k) i p \<notin> F"
  shows "follows sy e k a (k\<lparr>mem := m\<rparr>)" "follows sy e k a (k\<lparr>scr := s, mem := m\<rparr>)"
proof -
  have M: "mem_ok sy m (live a) (running a)"
    by (rule mem_ok_same_but [OF kernel_okD(10) sb]) (use ok in \<open>simp add: system_ok_def\<close>)
  have u: "undisturbed (live a - {running a}) (mem k) m" by (rule same_but_undisturbed [OF sb F])
  show "follows sy e k a (k\<lparr>mem := m\<rparr>)" by (rule follows_stay [OF system_mem [OF ok M]]) (simp_all add: u)
  show "follows sy e k a (k\<lparr>scr := s, mem := m\<rparr>)" by (rule follows_stay [OF system_mem_scr [OF ok M s]]) (simp_all add: u)
qed

lemma sys_write_cases:
  assumes "sys_write sy fd buf sz k = Some (v, k')" and "k' \<noteq> k"
  shows "\<exists>u m b s. copy_from_user (ld_user sy) st_local buf 0 (sint sz) (mem k, replicate (nat (sint sz)) 0) = Some (u, m, b) \<and>
    sys_write_console b sz (scr k) = Some (v, s) \<and> k' = k\<lparr>mem := m, scr := s\<rparr>"
proof -
  have "do {
      (_, m, buff) \<leftarrow> copy_from_user (ld_user sy) st_local buf 0 (sint sz) (mem k, replicate (nat (sint sz)) 0);
      (valor, s) \<leftarrow> sys_write_console buff sz (scr k);
      Some (valor, k\<lparr>mem := m, scr := s\<rparr>) } = Some (v, k')"
    using assms unfolding sys_write_def Let_def by (metis (no_types, lifting) option.distinct(1) option.inject prod.inject)
  then show ?thesis unfolding bind_Some_iff by (force split: prod.splits simp: bind_Some_iff)
qed

lemma write_follows:
  assumes ok: "system_ok sy k a" and run: "sys_write sy fd buf sz k = Some (v, k')"
  shows "follows sy e k a k'"
proof -
  have D: "kernel_ok sy k a" using ok by (simp add: system_ok_def)
  show ?thesis
  proof (cases "k' = k")
    case True
    then show ?thesis using follows_refl [OF ok] by simp
  next
    case False
    obtain u m b s where 2: "copy_from_user (ld_user sy) st_local buf 0 (sint sz) (mem k, replicate (nat (sint sz)) 0) = Some (u, m, b)"
      "sys_write_console b sz (scr k) = Some (v, s)" "k' = k\<lparr>mem := m, scr := s\<rparr>"
      using sys_write_cases [OF run False] by blast
    have sb: "same_but sy {} (mem k) m" using user_reads.copy_from_user_keeps [OF 2(1)] by simp
    have "cursor_ok s" by (rule sys_write_console_cursor [OF 2(2) system_okD(3) [OF ok]])
    moreover have "k' = k\<lparr>scr := s, mem := m\<rparr>" using 2(3) by simp
    ultimately show ?thesis using follows_same_but(2) [OF ok sb] by simp
  qed
qed

section \<open>User accesses\<close>

lemma user_load_follows:
  assumes ok: "system_ok sy k a" and run: "user_load sy x k = Some (b, k')"
  shows "follows sy e k a k'"
proof -
  obtain e m m' where m: "translate sy (mem k) (page_of x) = Some (e, m)" "load8 sy m x = Some (b, m')" "k' = k\<lparr>mem := m'\<rparr>"
    using run by (auto simp: user_load_def bind_Some_iff split: if_splits prod.splits)
  have sb: "same_but sy {} (mem k) m'"
    by (rule same_but_trans [OF translate_same [OF m(1)] load8_same [OF m(2)]])
  show ?thesis unfolding m(3) using follows_same_but(1) [OF ok sb system_okD(3) [OF ok]] by simp
qed

lemma user_store_follows:
  assumes sy: "linked sy" and ok: "system_ok sy k a" and r: "running a \<noteq> 0" and run: "user_store sy x b k = Some k'"
  shows "follows sy e k a k'"
proof -
  have D: "kernel_ok sy k a" using ok by (simp add: system_ok_def)
  note M = kernel_okD(10) [OF D]
  obtain e m m' where m: "translate sy (mem k) (page_of x) = Some (e, m)" "user e = 1" "rw e = 1"
    "store8 sy m x b = Some m'" "k' = k\<lparr>mem := m'\<rparr>"
    using run by (auto simp: user_store_def bind_Some_iff split: if_splits prod.splits)
  have e: "effective sy (mem k) (page_of x) = Some e" by (rule translate_some [OF m(1)])
  have sb0: "same_but sy {} (mem k) m" by (rule translate_same [OF m(1)])
  obtain p where p: "p < NUM_PAG_DATA" "e = user_rw_entry (of_nat (data_frame (mem k) (running a) p))"
    using user_access [OF sy M _ e m(2)] r m(3) by auto
  define f where "f = data_frame (mem k) (running a) p"
  have fr: "frames_ok (mem k) (live a \<times> {..<NUM_PAG_DATA})" using M by (simp add: mem_ok_def)
  have in_r: "(running a, p) \<in> live a \<times> {..<NUM_PAG_DATA}" using r p(1) by simp
  have "f < 1024" using frames_ok_user [OF fr in_r] user_frames_bound by (simp add: f_def)
  then have "maps sy m (page_of x) f"
    using sb0 e p(2) by (simp add: maps_def same_but_def f_def [symmetric] entry_frame)
  then have sb1: "same_but sy {f} m m'" using store8_maps [of sy m x f b] m(4) by auto
  have sb: "same_but sy {f} (mem k) m'" by (rule same_but_trans [OF same_but_mono [OF sb0] sb1]) simp
  have other: "data_frame (mem k) i q \<noteq> f" if "i \<in> live a - {running a}" "q < NUM_PAG_DATA" for i q
    using inj_onD [OF frames_ok_inj [OF fr], of "(i, q)" "(running a, p)"] in_r that by (auto simp: f_def)
  show ?thesis unfolding m(5) by (rule follows_same_but(1) [OF ok sb kernel_okD(5) [OF D]]) (use other in simp)
qed

section \<open>Interrupts\<close>

lemma printc_xy_cursor: "cursor_ok s \<Longrightarrow> cursor_ok (printc_xy mx my c s)"
  by (simp add: cursor_ok_def printc_xy_def Let_def)

lemma system_scr:
  assumes "system_ok sy k a" and "cursor_ok s"
  shows "system_ok sy (k\<lparr>scr := s\<rparr>) a"
proof (rule system_same [OF assms(1)])
  show "kernel_ok sy (k\<lparr>scr := s\<rparr>) a"
    by (rule kernel_ok_cong [OF system_okD(1) [OF assms(1)]]) (simp_all add: assms(2))
qed simp_all

lemma keyboard_follows:
  assumes ok: "system_ok sy k a" and c: "\<not> test_key (inb ports 0x60)" and run: "keyboard_service sy ports k = Some k'"
  shows "follows sy e k a k'"
proof -
  have "k' = k \<or> (\<exists>b. k' = k\<lparr>scr := printc_xy 0 0 b (scr k)\<rparr>)"
    using run c by (auto simp: keyboard_service_def test_key_def Let_def bind_Some_iff buf_load_def on_scr_def split: if_splits)
  moreover have "system_ok sy (k\<lparr>scr := printc_xy 0 0 b (scr k)\<rparr>) a" for b
    by (rule system_scr [OF ok printc_xy_cursor [OF system_okD(3) [OF ok]]])
  then have "follows sy e k a (k\<lparr>scr := printc_xy 0 0 b (scr k)\<rparr>)" for b by (rule follows_stay) simp_all
  ultimately show ?thesis using follows_refl [OF ok] by auto
qed

lemma clock_follows:
  assumes sy: "linked sy" and show_clock: "keeps_cursor show_clock" and ok: "system_ok sy k a"
    and ent: "entered sy k (running a)" and run: "clock_service show_clock sy k = Some k'"
  shows "follows sy Tick k a k'"
proof -
  let ?k = "k\<lparr>zeos_ticks := zeos_ticks k + 1, scr := show_clock (scr k)\<rparr>"
  have D: "kernel_ok sy k a" using ok by (simp add: system_ok_def)
  have "kernel_ok sy ?k a"
    using show_clock kernel_okD(5) [OF D] by (intro kernel_ok_cong [OF D]) (simp_all add: keeps_cursor_def)
  then have "system_ok sy ?k a" by (intro system_same [OF ok]) simp_all
  moreover have "entered sy ?k (running a)" using ent by (simp add: entered_def)
  ultimately have "follows sy Tick ?k a k'"
    using scheduler_follows [OF sy] run by (simp add: clock_service_def)
  then show ?thesis by (simp add: follows_def contexts_kept_def counts_def)
qed

lemma call_follows:
  assumes sy: "linked sy" and ok: "system_ok sy k a" and ent: "entered sy k (running a)" and r: "running a \<noteq> 0"
    and run: "system_call_handler sy rs k = Some out"
  shows "follows sy (Syscall rs) k a (state_after out)"
  using run exit_follows [OF sy ok ent r] fork_follows [OF sy ok ent r] write_follows [OF ok] block_follows [OF sy ok ent r]
    unblock_follows [OF sy ok ent r] getters_follow [OF ok] follows_refl [OF ok]
  unfolding handler_cases by (auto simp: ret_def noval_def bind_Some_iff split: prod.splits if_splits)

end
