(* ===== verification/Runs.thy ===== *)
theory Runs
  imports Machine
begin

text \<open>
  Runs of the machine: the process manager simulates it, event by event, clock ticks
  always succeed while the PIDs have two digits and serve the ready processes in turn, the
  idle task is never left again, and the test keys break the invariant.
\<close>

section \<open>Reachable states\<close>

lemma kept_after:
  "contexts_kept (- {r}) k k1 \<Longrightarrow> contexts_kept (I - {r}) k1 k' \<Longrightarrow> contexts_kept (I - {r}) k k'"
  by (auto simp: contexts_kept_def)

lemma step_follows:
  assumes sy: "linked sy" and show_clock: "keeps_cursor show_clock"
    and ok: "system_ok sy k a" and step: "step show_clock sy k e k'" and ord: "ordinary e"
  shows "follows sy e k a k'"
  using step
proof cases
  case (tick k1)
  note en = enter_ok [OF sy ok tick(2)]
  show ?thesis using clock_follows [OF sy show_clock en(1,2) tick(3)] en(3,7) kept_after [OF en(4)] tick(1) by (auto simp: follows_def counts_def)
next
  case (key k1 ports c)
  note en = enter_ok [OF sy ok key(2)]
  have "\<not> test_key (inb ports 0x60)" using ord key(1,3) by simp
  then show ?thesis using keyboard_follows [OF en(1) _ key(4), of e] en(3,7) kept_after [OF en(4)] by (auto simp: follows_def counts_def)
next
  case (syscall k1 r out)
  note en = enter_ok [OF sy ok syscall(4)]
  have "running a \<noteq> 0" using syscall(3) on_cpu_running [OF sy system_okD(1) [OF ok]] by simp
  then show ?thesis using call_follows [OF sy en(1,2) _ syscall(5)] en(3,7) kept_after [OF en(4)] syscall(1,2)
    by (auto simp: follows_def counts_def)
next
  case (load x b)
  then show ?thesis using user_load_follows [OF ok] by simp
next
  case (store x b)
  have "running a \<noteq> 0" using store(2) on_cpu_running [OF sy system_okD(1) [OF ok]] by simp
  then show ?thesis using user_store_follows [OF sy ok _ store(3)] by simp
qed

text \<open>The kernel is simulated by the process manager, as long as no test key is released.\<close>

definition quiet_step :: "(screen \<Rightarrow> screen) \<Rightarrow> symbols \<Rightarrow> kernel \<Rightarrow> event \<Rightarrow> kernel \<Rightarrow> bool" where
  "quiet_step show_clock sy k e k' \<longleftrightarrow> ordinary e \<and> step show_clock sy k e k'"

lemma quiet_path: "path (step show_clock sy) k es k' \<Longrightarrow> list_all ordinary es \<Longrightarrow> path (quiet_step show_clock sy) k es k'"
  unfolding quiet_step_def by (rule path_restrict)

definition represents :: "(screen \<Rightarrow> screen) \<Rightarrow> symbols \<Rightarrow> kernel \<Rightarrow> procs \<Rightarrow> bool" where
  "represents show_clock sy k a \<longleftrightarrow> linked sy \<and> keeps_cursor show_clock \<and> system_ok sy k a"

interpretation zeos: simulation "quiet_step show_clock sy" move "represents show_clock sy"
proof
  fix k a e k'
  assume "represents show_clock sy k a" and "quiet_step show_clock sy k e k'"
  then show "\<exists>a'. move a e a' \<and> represents show_clock sy k' a'"
    using step_follows [of sy show_clock k a e k'] by (auto simp: represents_def follows_def quiet_step_def)
qed

lemma path_ok:
  assumes "path (step show_clock sy) k0 es k" and "list_all ordinary es" and "linked sy" and "keeps_cursor show_clock"
    and "system_ok sy k0 a0"
  shows "\<exists>a. path move a0 es a \<and> system_ok sy k a"
  using zeos.traces [OF quiet_path [OF assms(1,2)]] assms(3-5) by (auto simp: represents_def)

lemma path_counts:
  assumes "path (step show_clock sy) k0 es k" and "list_all ordinary es" and sy: "linked sy" and show_clock: "keeps_cursor show_clock"
    and ok: "system_ok sy k0 a0"
  shows "sint (last_pid k) \<le> sint (last_pid k0) + 2 * int (length (filter is_fork es))"
  using assms(1,2,5)
proof (induction rule: path.induct)
  case (path_snoc k0 es k1 e k2)
  have o: "list_all ordinary es" "ordinary e" using path_snoc.prems(1) by simp_all
  obtain a1 where "system_ok sy k1 a1" using path_ok [OF path_snoc.hyps(1) o(1) sy show_clock path_snoc.prems(2)] by blast
  then have "follows sy e k1 a1 k2" by (rule step_follows [OF sy show_clock _ path_snoc.hyps(2) o(2)])
  then have "counts e k1 k2" by (auto simp: follows_def)
  then show ?case using path_snoc.IH [OF o(1) path_snoc.prems(2)] by (simp add: counts_def split: if_splits)
qed simp

text \<open>From power-on.\<close>

lemma boot_system_ok:
  "kernel_ok sy k boot_procs \<Longrightarrow> PID (task k 1) = 1 \<Longrightarrow> last_pid k = 1 \<Longrightarrow> system_ok sy k boot_procs"
  by (simp add: system_ok_def pids_ok_def) (simp add: boot_procs_def)

lemma booted:
  assumes "linked sy" and "powered_on (ker M)" and "image_ok (mem (ker M))" and "main sh sy ep M = Some M'"
  shows "system_ok sy (ker M') boot_procs" "last_pid (ker M') = 1"
  using main_ok [OF assms(1-3), of sh ep] assms(4) boot_system_ok by auto

lemma boot_path_ok:
  assumes "linked sy" and "powered_on (ker M)" and "image_ok (mem (ker M))" and "keeps_cursor show_clock"
    and "main sh sy ep M = Some M'" and "path (step show_clock sy) (ker M') es k" and "list_all ordinary es"
  shows "\<exists>a. path move boot_procs es a \<and> system_ok sy k a \<and> running a = on_cpu sy k"
  using path_ok [OF assms(6,7,1,4) booted(1) [OF assms(1-3,5)]] on_cpu_running [OF assms(1)] system_okD(1) by metis

text \<open>A process that is not on the processor stays in the table, and its saved context is kept until
  it is dispatched.\<close>

lemma move_parents:
  assumes "move a e a'" and "partition_ok a" and t: "t \<in> parents a" "t \<noteq> running a"
  shows "t \<in> parents a'"
proof -
  have p: "placed a" "running a = 0 \<Longrightarrow> ready a = []" using assms(2) by (auto simp: partition_ok_def)
  from assms(1) show ?thesis
  proof cases
    case (fork r)
    then obtain n f where "free a = n # f" by (cases "free a") auto
    then show ?thesis using fork(2) live_fork [OF p(1)] t by (auto simp: parents_def)
  next
    case (unblock r c)
    then show ?thesis using placed_unblock(2) [OF p(1)] t by (simp add: parents_def)
  qed (use t p leave_live [OF p(1)] in \<open>auto simp: parents_def\<close>)
qed

definition step_without :: "nat \<Rightarrow> (screen \<Rightarrow> screen) \<Rightarrow> symbols \<Rightarrow> kernel \<Rightarrow> event \<Rightarrow> kernel \<Rightarrow> bool" where
  "step_without t show_clock sy k e k' \<longleftrightarrow> on_cpu sy k \<noteq> t \<and> quiet_step show_clock sy k e k'"

lemma context_survives:
  assumes "path (step_without t show_clock sy) k es k'" and sy: "linked sy" and show_clock: "keeps_cursor show_clock"
    and "system_ok sy k a" and "t \<in> parents a"
  shows "\<exists>a'. system_ok sy k' a' \<and> t \<in> parents a' \<and> contexts_kept {t} k k'"
  using assms(1,4,5)
proof (induction rule: path.induct)
  case (path_nil k)
  then show ?case by auto
next
  case (path_snoc k es k1 e k2)
  then obtain a1 where a1: "system_ok sy k1 a1" "t \<in> parents a1" "contexts_kept {t} k k1" by blast
  have st: "step show_clock sy k1 e k2" "t \<noteq> running a1" "ordinary e"
    using path_snoc.hyps(2) on_cpu_running [OF sy system_okD(1) [OF a1(1)]] by (auto simp: step_without_def quiet_step_def)
  then obtain a2 where a2: "move a1 e a2" "system_ok sy k2 a2" "contexts_kept (parents a1 - {running a1}) k1 k2"
    using step_follows [OF sy show_clock a1(1) st(1,3)] by (auto simp: follows_def)
  have "t \<in> parents a2" using move_parents [OF a2(1) _ a1(2) st(2)] system_okD(1) [OF a1(1)] by (simp add: kernel_ok_def)
  moreover have "contexts_kept {t} k k2" using a1(2,3) a2(3) st(2) by (simp add: contexts_kept_def)
  ultimately show ?case using a2(2) by blast
qed

lemma preempted_resumes:
  assumes sy: "linked sy" and show_clock: "keeps_cursor show_clock" and ok: "system_ok sy k a" and ent: "entered sy k (running a)"
    and exp: "ready a \<noteq> []" "sint (quantum_ticks k - 1) < 0" and run: "scheduler sy k = Some k1"
    and j: "ebp_switch k = stack_addr sy (running a) j" "Suc j < KERNEL_STACK_SIZE"
    and path: "path (step_without (running a) show_clock sy) k1 es k2"
  shows "resume sy (running a) k2 = Some (k2\<lparr>esp := stack_addr sy (running a) (Suc (Suc j)),
    ebp := stack (task k (running a)) j, eip := stack (task k (running a)) (Suc j)\<rparr>)"
    and "stack (task k2 (running a)) = stack (task k (running a))"
proof -
  note K = system_okD(1) [OF ok]
  have "sint (PID (task k (hd (ready a)))) < 100" using scheduler_overrun [OF sy K ent exp] run by fastforce
  then have t1: "task k1 = (task k)(running a := (task k (running a))\<lparr>kernel_esp := ebp_switch k\<rparr>)"
    using scheduler_switches [OF sy K ent _ exp] run by auto
  obtain a1 where a1: "move a Tick a1" "system_ok sy k1 a1"
    using scheduler_follows [OF sy ok ent run] by (auto simp: follows_def)
  have r: "running a \<noteq> 0" using K exp(1) by (auto simp: kernel_ok_def partition_ok_def)
  from a1(1) have "running a \<in> parents a1"
    using leave_live(1) [OF kernel_okD(1) [OF K] r] running_parents [of a] by cases (auto simp: parents_def)
  then have "contexts_kept {running a} k1 k2" using context_survives [OF path sy show_clock a1(2)] by blast
  then have ks: "kernel_esp (task k2 (running a)) = stack_addr sy (running a) j" "stack (task k2 (running a)) = stack (task k (running a))"
    using t1 j(1) by (simp_all add: contexts_kept_def)
  then show "resume sy (running a) k2 = Some (k2\<lparr>esp := stack_addr sy (running a) (Suc (Suc j)),
    ebp := stack (task k (running a)) j, eip := stack (task k (running a)) (Suc j)\<rparr>)"
    using resume_saved [of "running a" j k2 sy] kernel_okD(9) [OF K] j(2) by simp
  show "stack (task k2 (running a)) = stack (task k (running a))" by (fact ks(2))
qed

section \<open>Clock ticks\<close>

definition small_pids :: "kernel \<Rightarrow> procs \<Rightarrow> bool" where
  "small_pids k a \<longleftrightarrow> (\<forall>i\<in>parents a. sint (PID (task k i)) < 100)"

lemma can_enter:
  assumes "linked sy" and "kernel_ok sy k a"
  shows "\<exists>k1. enter sy k k1"
proof -
  let ?r = "running a"
  let ?k1 = "k\<lparr>esp := stack_addr sy ?r 1, ebp_fork := stack_addr sy ?r 1, ebp_switch := stack_addr sy ?r 1\<rparr>"
  have "enter sy k ?k1"
    using kernel_okD(9) [OF assms(2)] on_cpu_running [OF assms]
    by (auto simp: enter_def entered_def zeos_consts intro!: exI [of _ 1] exI [of _ "stack (task k ?r)"])
  then show ?thesis ..
qed

text \<open>One tick: the quantum counts down, and once it is spent each tick preempts.\<close>

definition after_tick :: "kernel \<Rightarrow> procs \<Rightarrow> procs" where
  "after_tick k a = (if ready a = [] \<or> 0 \<le> sint (quantum_ticks k - 1) then a else s_preempt a)"

definition same_pids :: "kernel \<Rightarrow> kernel \<Rightarrow> bool" where
  "same_pids k k' \<longleftrightarrow> (\<forall>i. PID (task k' i) = PID (task k i))"

lemma clock_tick:
  assumes sy: "linked sy" and show_clock: "keeps_cursor show_clock" and ok: "system_ok sy k a"
    and ent: "entered sy k (running a)" and small: "small_pids k a"
  shows "\<exists>k'. clock_service show_clock sy k = Some k' \<and> system_ok sy k' (after_tick k a) \<and> same_pids k k' \<and>
    (ready a \<noteq> [] \<longrightarrow> quantum_ticks k' = quantum_ticks k - 1)"
proof -
  define k1 where "k1 = k\<lparr>zeos_ticks := zeos_ticks k + 1, scr := show_clock (scr k)\<rparr>"
  note D = system_okD [OF ok]
  have k1: "kernel_ok sy k1 a" "entered sy k1 (running a)" "same_pids k k1" "quantum_ticks k1 = quantum_ticks k"
    using show_clock D(3) ent
    by (auto simp: k1_def keeps_cursor_def entered_def same_pids_def intro!: kernel_ok_cong [OF D(1)])
  have run: "clock_service show_clock sy k = scheduler sy k1" by (simp add: clock_service_def k1_def)
  have s1: "system_ok sy k1 a" by (rule system_same [OF ok k1(1)]) (simp_all add: k1_def)
  show ?thesis
  proof (cases "ready a = [] \<or> 0 \<le> sint (quantum_ticks k - 1)")
    case True
    let ?k' = "k1\<lparr>quantum_ticks := (if ready a = [] then quantum (task k1 (running a)) else quantum_ticks k1 - 1)\<rparr>"
    have sch: "scheduler sy k1 = Some ?k'" using scheduler_keeps [OF sy k1(1,2)] True k1(4) by simp
    have "kernel_ok sy ?k' a" by (rule kernel_ok_cong [OF k1(1)]) (use system_okD(3) [OF s1] in simp_all)
    then have "system_ok sy ?k' a" by (rule system_same [OF s1]) simp_all
    then show ?thesis using True k1(3,4) by (simp add: run sch after_tick_def same_pids_def)
  next
    case False
    then have exp: "ready a \<noteq> []" "sint (quantum_ticks k1 - 1) < 0" using k1(4) by auto
    have "hd (ready a) \<in> parents a"
      using exp(1) placed_facts(2) [OF kernel_okD(1) [OF k1(1)]] hd_in_set [OF exp(1)] by (auto simp: parents_def live_def)
    then have "sint (PID (task k1 (hd (ready a)))) < 100" using small by (simp add: small_pids_def k1_def)
    from scheduler_switches [OF sy k1(1,2) this exp]
    obtain k' where k': "scheduler sy k1 = Some k'" "kernel_ok sy k' (s_preempt a)"
      "task k' = (task k1)(running a := (task k1 (running a))\<lparr>kernel_esp := ebp_switch k1\<rparr>)"
      "quantum_ticks k' = quantum_ticks k1 - 1" "last_pid k' = last_pid k1"
      by blast
    have r: "running a \<noteq> 0" using k1(1) exp(1) by (auto simp: kernel_ok_def partition_ok_def)
    have "pids_ok k' (s_preempt a)"
      by (rule pids_cong [of k1 a]) (use s1 k'(3,5) leave_live(1) [OF kernel_okD(1) [OF k1(1)] r]
        \<open>sint (PID (task k1 (hd (ready a)))) < 100\<close> hd_ready_dispatch [OF exp(1)]
        in \<open>simp_all add: system_ok_def s_preempt_def\<close>)
    with k'(2) have "system_ok sy k' (s_preempt a)" by (simp add: system_ok_def)
    moreover have "same_pids k k'" using k1(3) k'(3) by (simp add: same_pids_def)
    ultimately show ?thesis using False k' k1(4) by (simp add: run after_tick_def)
  qed
qed

lemma tick_step:
  assumes sy: "linked sy" and show_clock: "keeps_cursor show_clock" and ok: "system_ok sy k a"
    and small: "small_pids k a"
  shows "\<exists>k'. step show_clock sy k Tick k'"
    and "step show_clock sy k Tick k' \<Longrightarrow> system_ok sy k' (after_tick k a) \<and> same_pids k k' \<and>
      (ready a \<noteq> [] \<longrightarrow> quantum_ticks k' = quantum_ticks k - 1)"
proof -
  have entered: "system_ok sy k1 a \<and> entered sy k1 (running a) \<and> small_pids k1 a \<and> quantum_ticks k1 = quantum_ticks k \<and>
      same_pids k k1" if "enter sy k k1" for k1
    using enter_ok [OF sy ok that] small by (simp add: small_pids_def same_pids_def)
  obtain k1 where k1: "enter sy k k1" using can_enter [OF sy system_okD(1) [OF ok]] by blast
  then show "\<exists>k'. step show_clock sy k Tick k'"
    using clock_tick [OF sy show_clock, of k1 a] entered [OF k1] step.tick [OF k1] by blast
  assume "step show_clock sy k Tick k'"
  then obtain k1 where "enter sy k k1" "clock_service show_clock sy k1 = Some k'" by (rule tickE)
  then show "system_ok sy k' (after_tick k a) \<and> same_pids k k' \<and> (ready a \<noteq> [] \<longrightarrow> quantum_ticks k' = quantum_ticks k - 1)"
    using clock_tick [OF sy show_clock, of k1 a] entered [of k1] by (auto simp: same_pids_def after_tick_def)
qed

text \<open>The first process of the line is on the processor; a preempting tick rotates the line.\<close>

abbreviation ticks :: "(screen \<Rightarrow> screen) \<Rightarrow> symbols \<Rightarrow> nat \<Rightarrow> kernel \<Rightarrow> kernel \<Rightarrow> bool" where
  "ticks show_clock sy n \<equiv> (\<lambda>k k'. step show_clock sy k Tick k') ^^ n"

lemma live_line: "live a = set (line a) \<union> set (waiting a) - {0}"
  by (auto simp: live_def line_def)

lemma waiting_preempt: "waiting (s_preempt a) = waiting a"
  by (simp add: s_preempt_def dispatch_def to_ready_def split: list.split)

lemma preempts_fields:
  "waiting ((s_preempt ^^ m) a) = waiting a" "length (ready ((s_preempt ^^ m) a)) = length (ready a)"
  "parents ((s_preempt ^^ m) a) = parents a"
proof -
  show w: "waiting ((s_preempt ^^ m) a) = waiting a" by (induction m) (simp_all add: waiting_preempt)
  have "length (line ((s_preempt ^^ m) a)) = length (line a)" by (simp add: line_preempts)
  then show "length (ready ((s_preempt ^^ m) a)) = length (ready a)" by (simp add: line_def)
  show "parents ((s_preempt ^^ m) a) = parents a" unfolding parents_def live_line w line_preempts by simp
qed

text \<open>What the tick after \<open>n\<close> ticks does: with \<open>q\<close> ticks left at the start, the ones after the
  first \<open>q\<close> preempt.\<close>

lemma after_ticks:
  assumes q: "0 \<le> q" and rd: "ready ((s_preempt ^^ (n - nat q)) a) \<noteq> []" and k: "sint (quantum_ticks k - 1) = q - int (Suc n)"
  shows "after_tick k ((s_preempt ^^ (n - nat q)) a) = (s_preempt ^^ (Suc n - nat q)) a"
proof (cases "0 \<le> q - int (Suc n)")
  case True
  then have "n - nat q = 0" "Suc n - nat q = 0" by simp_all
  then show ?thesis using True k rd by (simp add: after_tick_def)
next
  case False
  then have "Suc n - nat q = Suc (n - nat q)" using q by linarith
  then show ?thesis using False k rd by (simp add: after_tick_def)
qed

lemma ticks_ok:
  assumes sy: "linked sy" and show_clock: "keeps_cursor show_clock" and ok: "system_ok sy k a"
    and small: "small_pids k a" and q: "0 \<le> sint (quantum_ticks k)" and rd: "ready a \<noteq> []" and n: "n < 2 ^ 31"
  shows "(\<exists>k'. ticks show_clock sy n k k') \<and> (\<forall>k'. ticks show_clock sy n k k' \<longrightarrow>
    system_ok sy k' ((s_preempt ^^ (n - nat (sint (quantum_ticks k)))) a) \<and> same_pids k k' \<and>
    sint (quantum_ticks k') = sint (quantum_ticks k) - int n)"
  using n
proof (induction n)
  case 0
  then show ?case using ok by (simp add: same_pids_def)
next
  case (Suc n)
  let ?q = "sint (quantum_ticks k)" and ?a = "(s_preempt ^^ (n - nat (sint (quantum_ticks k)))) a"
  have IH: "\<exists>k'. ticks show_clock sy n k k'" "\<And>k'. ticks show_clock sy n k k' \<Longrightarrow>
      system_ok sy k' ?a \<and> same_pids k k' \<and> sint (quantum_ticks k') = ?q - int n"
    using Suc by auto
  have rd': "ready ?a \<noteq> []" using preempts_fields(2) [of "n - nat ?q" a] rd by (metis length_0_conv)
  have mid: "small_pids k' ?a" "sint (quantum_ticks k' - 1) = ?q - int (Suc n)" "after_tick k' ?a = (s_preempt ^^ (Suc n - nat ?q)) a"
    if k': "ticks show_clock sy n k k'" for k'
  proof -
    note I = IH(2) [OF k']
    show "small_pids k' ?a" using I small by (simp add: small_pids_def same_pids_def preempts_fields(3))
    have "sint (quantum_ticks k' - 1) = sint (quantum_ticks k') - 1"
      using I q Suc.prems sint_lt [of "quantum_ticks k"]
      by (simp add: sint_word_ariths signed_take_bit_int_eq_self)
    then show sq: "sint (quantum_ticks k' - 1) = ?q - int (Suc n)" using I by simp
    show "after_tick k' ?a = (s_preempt ^^ (Suc n - nat ?q)) a" by (rule after_ticks [OF q rd' sq])
  qed
  show ?case
  proof (intro conjI allI impI)
    obtain k1 where k1: "ticks show_clock sy n k k1" using IH(1) by blast
    then obtain k2 where "step show_clock sy k1 Tick k2"
      using tick_step(1) [OF sy show_clock, of k1 ?a] IH(2) mid(1) by blast
    with k1 show "\<exists>k'. ticks show_clock sy (Suc n) k k'" by (auto intro!: exI [of _ k2])
  next
    fix k' assume "ticks show_clock sy (Suc n) k k'"
    then obtain k1 where k1: "ticks show_clock sy n k k1" "step show_clock sy k1 Tick k'" by auto
    note I = IH(2) [OF k1(1)] and M = mid [OF k1(1)]
    have T: "system_ok sy k' (after_tick k1 ?a) \<and> same_pids k1 k' \<and> (ready ?a \<noteq> [] \<longrightarrow> quantum_ticks k' = quantum_ticks k1 - 1)"
      using tick_step(2) [OF sy show_clock _ M(1) k1(2)] I by blast
    show "system_ok sy k' ((s_preempt ^^ (Suc n - nat ?q)) a)" using T M(3) by simp
    show "same_pids k k'" using T I by (simp add: same_pids_def)
    show "sint (quantum_ticks k') = ?q - int (Suc n)" using T rd' M(2) by simp
  qed
qed

text \<open>Round robin: the process at position \<open>i\<close> of the ready queue is on the processor after
  the rest of the quantum and \<open>i + 1\<close> further ticks.\<close>

lemma round_robin:
  assumes sy: "linked sy" and show_clock: "keeps_cursor show_clock" and ok: "system_ok sy k a"
    and small: "small_pids k a" and q: "0 \<le> sint (quantum_ticks k)" "sint (quantum_ticks k) < 2 ^ 30" and i: "i < length (ready a)"
  shows "\<exists>k'. ticks show_clock sy (nat (sint (quantum_ticks k)) + i + 1) k k'"
    and "ticks show_clock sy (nat (sint (quantum_ticks k)) + i + 1) k k' \<Longrightarrow> on_cpu sy k' = ready a ! i"
proof -
  let ?n = "nat (sint (quantum_ticks k)) + i + 1"
  have placed: "mset (slots_of a) = mset [1..<NR_TASKS]"
    using kernel_okD(1) [OF system_okD(1) [OF ok]] by (simp add: placed_def)
  have "length (ready a) \<le> length (slots_of a)" by (simp add: slots_of_def)
  also have "\<dots> = 9" unfolding mset_eq_length [OF placed] by (simp add: zeos_consts)
  finally have n: "?n < 2 ^ 31" using q i by simp
  have rd: "ready a \<noteq> []" using i by auto
  note T = ticks_ok [OF sy show_clock ok small q(1) rd n]
  then show "\<exists>k'. ticks show_clock sy ?n k k'" by blast
  assume "ticks show_clock sy ?n k k'"
  moreover have "?n - nat (sint (quantum_ticks k)) = i + 1" by simp
  ultimately have "kernel_ok sy k' ((s_preempt ^^ (i + 1)) a)" using T system_okD(1) by metis
  then have "on_cpu sy k' = running ((s_preempt ^^ (i + 1)) a)" by (rule on_cpu_running [OF sy])
  also have "\<dots> = hd (line ((s_preempt ^^ (i + 1)) a))" by (simp only: line_def list.sel)
  also have "\<dots> = hd (rotate (i + 1) (line a))" by (simp only: line_preempts)
  also have "\<dots> = ready a ! i" using i by (simp add: hd_rotate_conv_nth line_def del: rotate_Suc)
  finally show "on_cpu sy k' = ready a ! i" .
qed

section \<open>The idle task\<close>

lemma idle_move: "running a = 0 \<Longrightarrow> ready a = [] \<Longrightarrow> move a e a' \<Longrightarrow> a' = a"
  by (erule move.cases) auto

lemma idle_for_ever:
  assumes run: "path (step show_clock sy) k es k'" and ord: "list_all ordinary es" and sy: "linked sy" and show_clock: "keeps_cursor show_clock"
    and ok: "system_ok sy k a" and idle: "on_cpu sy k = 0"
  shows "system_ok sy k' a \<and> on_cpu sy k' = 0"
proof -
  have r: "running a = 0" "ready a = []"
    using idle on_cpu_running [OF sy system_okD(1) [OF ok]] system_okD(1) [OF ok] by (auto simp: kernel_ok_def partition_ok_def)
  have "represents show_clock sy k' a"
    by (rule zeos.stable [OF quiet_path [OF run ord] _ idle_move]) (simp_all add: represents_def sy show_clock ok r)
  then have "system_ok sy k' a" by (simp add: represents_def)
  then show ?thesis using on_cpu_running [OF sy system_okD(1)] r(1) by auto
qed

section \<open>The test keys\<close>

text \<open>\<^verbatim>\<open>task_switch\<close> from the keyboard service leaves the interrupted process in no queue.\<close>

lemma key_d_switches:
  assumes sy: "linked sy" and ok: "kernel_ok sy k a" and ent: "entered sy k (running a)" and r: "running a \<noteq> 0"
    and c: "inb ports 0x60 = 0xA0"
  shows "\<exists>k'. keyboard_service sy ports k = Some k' \<and> on_cpu sy k' = 0 \<and> lists k' = lists k \<and> (\<nexists>b. kernel_ok sy k' b)"
proof -
  have "current sy k \<noteq> 0" using current_entered [OF sy ent] r by simp
  then have key: "keyboard_service sy ports k = task_switch sy 0 k"
    by (simp add: keyboard_service_def test_target_def c char_map_def cstring_def buf_load_def)
  have nr: "0 < NR_TASKS" by (simp add: zeos_consts)
  have "pcb_ok sy k 0" "saved sy (task k 0) 0" using ok kernel_ok_pcb [OF ok] r by (auto simp: kernel_ok_def parents_def)
  from task_switch_ok [OF sy ent nr this]
  obtain k' where k': "task_switch sy 0 k = Some k'" "lists k' = lists k"
    "esp0 (tss k') = stack_addr sy 0 (KERNEL_STACK_SIZE - 1)"
    by auto
  have cpu: "on_cpu sy k' = 0"
  proof -
    have "stack_addr sy 0 (KERNEL_STACK_SIZE - 1) - 4 = task_addr sy 0 + 4088" by (simp add: stack_addr_def zeos_consts)
    then show ?thesis unfolding on_cpu_def k'(3) by (simp only: task_pos_off [OF nr]) (simp add: task_pos_off [OF nr])
  qed
  have "False" if b: "kernel_ok sy k' b" for b
  proof -
    have rb: "running b = 0" "ready b = []"
      using on_cpu_running [OF sy b] cpu b by (auto simp: kernel_ok_def partition_ok_def)
    have "running a \<in> set (slots_of b)"
      using placed_facts(3) [OF kernel_okD(1) [OF b]] kernel_okD(9) [OF ok] r by simp
    then have w: "running a \<in> set (waiting b) \<or> running a \<in> set (free b)" using rb by (simp add: slots_of_def)
    note q = queue_dll [OF kernel_okD(3) [OF b], unfolded k'(2)]
    have "\<not> detached (lists k (Anchor (running a)))" using w dll_attached [OF q(2)] dll_attached [OF q(3)] by auto
    then show False using ok r by (simp add: kernel_ok_def)
  qed
  then show ?thesis using key k'(1,2) cpu by auto
qed

end
