(* ===== verification/Entry.thy ===== *)
theory Entry
  imports Runs
begin

text \<open>
  The entry and exit code of \<^verbatim>\<open>entry.S\<close> on the kernel stack: what the processor and
  \<^verbatim>\<open>SAVE_ALL\<close> push, what \<^verbatim>\<open>RESTORE_ALL\<close> and \<^verbatim>\<open>iret\<close> pop, and
  \<^verbatim>\<open>ret_from_fork\<close>, where a new process starts. The theory shows that a system call
  gives the caller its registers back with the result in \<^verbatim>\<open>eax\<close>, and that a fork returns
  twice: with the PID in the parent and with 0 in the child.
\<close>

section \<open>Registers and the stack\<close>

record cpu =
  c_edx :: DWord
  c_ecx :: DWord
  c_ebx :: DWord
  c_esi :: DWord
  c_edi :: DWord
  c_ebp :: DWord
  c_eax :: DWord
  c_ds :: DWord
  c_es :: DWord
  c_fs :: DWord
  c_gs :: DWord
  c_eip :: DWord
  c_cs :: DWord
  c_eflags :: DWord
  c_esp :: DWord
  c_ss :: DWord

text \<open>A kernel stack is the array of words with the index of its top.\<close>

type_synonym kstack = "(nat \<Rightarrow> DWord) \<times> nat"

definition push :: "DWord \<Rightarrow> kstack \<Rightarrow> kstack option" where
  "push w s = (if 0 < snd s then Some ((fst s)(snd s - 1 := w), snd s - 1) else None)"

definition pop :: "kstack \<Rightarrow> (DWord \<times> kstack) option" where
  "pop s = (if snd s < KERNEL_STACK_SIZE then Some (fst s (snd s), fst s, snd s + 1) else None)"

fun pushes :: "DWord list \<Rightarrow> kstack \<Rightarrow> kstack option" where
  "pushes [] s = Some s"
| "pushes (w # ws) s = do { s \<leftarrow> push w s; pushes ws s }"

section \<open>entry.S\<close>

text \<open>What the processor pushes on a change of privilege, and \<^verbatim>\<open>SAVE_ALL\<close>.\<close>

definition trap_frame :: "cpu \<Rightarrow> kstack \<Rightarrow> kstack option" where
  "trap_frame c s = pushes [c_ss c, c_esp c, c_eflags c, c_cs c, c_eip c] s"

definition SAVE_ALL :: "cpu \<Rightarrow> kstack \<Rightarrow> (cpu \<times> kstack) option" where
  "SAVE_ALL c s = do {
     s \<leftarrow> pushes [c_gs c, c_fs c, c_es c, c_ds c, c_eax c, c_ebp c, c_edi c, c_esi c, c_ebx c, c_ecx c, c_edx c] s;
     Some (c\<lparr>c_edx := ucast KERNEL_DS, c_ds := ucast KERNEL_DS, c_es := ucast KERNEL_DS\<rparr>, s) }"

definition RESTORE_ALL :: "cpu \<Rightarrow> kstack \<Rightarrow> (cpu \<times> kstack) option" where
  "RESTORE_ALL c s = do {
     (dx, s) \<leftarrow> pop s; (cx, s) \<leftarrow> pop s; (bx, s) \<leftarrow> pop s; (si, s) \<leftarrow> pop s; (di, s) \<leftarrow> pop s;
     (bp, s) \<leftarrow> pop s; (ax, s) \<leftarrow> pop s; (ds, s) \<leftarrow> pop s; (es, s) \<leftarrow> pop s; (fs, s) \<leftarrow> pop s; (gs, s) \<leftarrow> pop s;
     Some (c\<lparr>c_edx := dx, c_ecx := cx, c_ebx := bx, c_esi := si, c_edi := di, c_ebp := bp, c_eax := ax,
             c_ds := ds, c_es := es, c_fs := fs, c_gs := gs\<rparr>, s) }"

definition iret :: "cpu \<Rightarrow> kstack \<Rightarrow> (cpu \<times> kstack) option" where
  "iret c s = do {
     (ip, s) \<leftarrow> pop s; (cs, s) \<leftarrow> pop s; (fl, s) \<leftarrow> pop s; (sp, s) \<leftarrow> pop s; (ss, s) \<leftarrow> pop s;
     Some (c\<lparr>c_eip := ip, c_cs := cs, c_eflags := fl, c_esp := sp, c_ss := ss\<rparr>, s) }"

text \<open>The end of \<^verbatim>\<open>system_call_handler\<close>, with the result of the routine in
  \<^verbatim>\<open>eax\<close>: \<^verbatim>\<open>movl %EAX, 0x18(%esp)\<close>, then the return, which the interrupt handlers
  have as well.\<close>

definition interrupt_exit :: "cpu \<Rightarrow> kstack \<Rightarrow> (cpu \<times> kstack) option" where
  "interrupt_exit c s = do {
     (c, s) \<leftarrow> RESTORE_ALL c s;
     iret c s }"

definition handler_end :: "cpu \<Rightarrow> kstack \<Rightarrow> (cpu \<times> kstack) option" where
  "handler_end c s = (let s = ((fst s)(snd s + 6 := c_eax c), snd s) in interrupt_exit c s)"

text \<open>\<^verbatim>\<open>keyboard_handler\<close> and \<^verbatim>\<open>clock_handler\<close> up to the call of their service;
  \<^verbatim>\<open>EOI\<close> loads \<^verbatim>\<open>al\<close> and acknowledges the interrupt with a write to the port of the
  first interrupt controller; the list holds the writes.\<close>

definition EOI :: "cpu \<Rightarrow> cpu \<times> (Word16 \<times> Byte) list" where
  "EOI c = (let c = c\<lparr>c_eax := (c_eax c AND 0xffffff00) OR 0x20\<rparr> in (c, [(0x20, ucast (c_eax c))]))"

definition interrupt_entry :: "cpu \<Rightarrow> kstack \<Rightarrow> (cpu \<times> kstack \<times> (Word16 \<times> Byte) list) option" where
  "interrupt_entry c s = do {
     s \<leftarrow> trap_frame c s;
     (c, s) \<leftarrow> SAVE_ALL c s;
     let (c, out) = EOI c;
     Some (c, s, out) }"

text \<open>\<^verbatim>\<open>system_call_handler\<close> with a number out of range: nothing is called.\<close>

definition refused_call :: "cpu \<Rightarrow> kstack \<Rightarrow> (cpu \<times> kstack) option" where
  "refused_call c s = do {
     s \<leftarrow> trap_frame c s;
     (c, s) \<leftarrow> SAVE_ALL c s;
     handler_end (c\<lparr>c_eax := -38\<rparr>) s }"

text \<open>\<^verbatim>\<open>segmentation_fault_handler\<close>: the processor pushes the stack of the interrupted code only
  when that was user code, and an error code as well; the service gets copies of the two words
  above the saved \<^verbatim>\<open>ebp\<close>. \<open>base\<close> is the address of the stack. The service does not return, so
  neither does the handler.\<close>

definition fault_entry :: "bool \<Rightarrow> DWord \<Rightarrow> cpu \<Rightarrow> DWord \<Rightarrow> DWord \<Rightarrow> kstack \<Rightarrow> kernel \<Rightarrow> kernel option" where
  "fault_entry user_code base c err cr2 s k = do {
     s \<leftarrow> (if user_code then trap_frame c s else pushes [c_eflags c, c_cs c, c_eip c] s);
     s \<leftarrow> push err s;
     s \<leftarrow> push (c_ebp c) s;
     let bp = snd s;
     let c = c\<lparr>c_ebp := base + 4 * of_nat bp\<rparr>;
     (c, s) \<leftarrow> SAVE_ALL c s;
     s \<leftarrow> push (fst s (bp + 1)) s;
     s \<leftarrow> push (fst s (bp + 2)) s;
     segmentation_fault_service (fst s (snd s)) (fst s (snd s + 1)) cr2 k }"

text \<open>
  \<^verbatim>\<open>task_switch\<close> around \<^verbatim>\<open>inner_task_switch\<close>: from the push of its argument by the caller
  to the frame pointer \<^verbatim>\<open>inner_task_switch\<close> saves, where the saved stack pointer points, and from
  the return of \<^verbatim>\<open>inner_task_switch\<close>, in whichever task, back to the caller. \<open>ra\<close> and \<open>ra'\<close> are
  the return addresses of the two calls.
\<close>

definition switch_entry :: "DWord \<Rightarrow> cpu \<Rightarrow> DWord \<Rightarrow> DWord \<Rightarrow> DWord \<Rightarrow> kstack \<Rightarrow> kstack option" where
  "switch_entry base c t ra ra' s = do {
     s \<leftarrow> pushes [t, ra] s;
     s \<leftarrow> push (c_ebp c) s;
     let bp = snd s;
     s \<leftarrow> pushes [c_edi c, c_esi c, c_ebx c] s;
     s \<leftarrow> push (fst s (bp + 2)) s;
     s \<leftarrow> push ra' s;
     push (base + 4 * of_nat bp) s }"

definition switch_exit :: "cpu \<Rightarrow> kstack \<Rightarrow> (cpu \<times> kstack) option" where
  "switch_exit c s = do {
     (bx, s) \<leftarrow> pop s;
     (bx, s) \<leftarrow> pop s; (si, s) \<leftarrow> pop s; (di, s) \<leftarrow> pop s; (bp, s) \<leftarrow> pop s; (ip, s) \<leftarrow> pop s;
     Some (c\<lparr>c_ebx := bx, c_esi := si, c_edi := di, c_ebp := bp, c_eip := ip\<rparr>, s) }"

text \<open>\<^verbatim>\<open>ret_from_fork\<close> of \<^verbatim>\<open>sched.c\<close>, with the prologue and epilogue of a function;
  its last instruction returns to the word on the stack.\<close>

definition ret_from_fork :: "cpu \<Rightarrow> kstack \<Rightarrow> (cpu \<times> kstack) option" where
  "ret_from_fork c s = do {
     s \<leftarrow> push (c_ebp c) s;
     let c = c\<lparr>c_eax := 0\<rparr>;
     (bp, s) \<leftarrow> pop s;
     (ip, s) \<leftarrow> pop s;
     Some (c\<lparr>c_ebp := bp, c_eip := ip\<rparr>, s) }"

section \<open>Entry into a service routine\<close>

text \<open>The index of an address in the stack of a task.\<close>

definition stack_index :: "symbols \<Rightarrow> nat \<Rightarrow> DWord \<Rightarrow> nat" where
  "stack_index sy t x = unat (x - stack_addr sy t 0) div 4"

text \<open>
  From the trap to the body of a routine that is called through the table: the frames of the
  processor and of \<^verbatim>\<open>SAVE_ALL\<close>, the return address of the call, and the frame pointer
  the routine saves, to which its own frame pointer, the value of \<^verbatim>\<open>ebp_value()\<close>, then
  points. How deep the frame of a later \<^verbatim>\<open>inner_task_switch\<close> is, is the compiler's choice.
\<close>

definition call_entry :: "symbols \<Rightarrow> cpu \<Rightarrow> DWord \<Rightarrow> nat \<Rightarrow> kernel \<Rightarrow> kernel option" where
  "call_entry sy c ra d k = do {
     let t = on_cpu sy k;
     s \<leftarrow> trap_frame c (stack (task k t), stack_index sy t (esp0 (tss k)));
     (c, s) \<leftarrow> SAVE_ALL c s;
     s \<leftarrow> push ra s;
     (st, i) \<leftarrow> push (c_ebp c) s;
     Some (k\<lparr>task := (task k)(t := (task k t)\<lparr>stack := st\<rparr>), esp := stack_addr sy t i, ebp_fork := stack_addr sy t i,
             ebp_switch := stack_addr sy t d\<rparr>) }"

text \<open>The routine's epilogue and return, and the end of the handler: the return address and
  the registers of the user context.\<close>

definition call_exit :: "symbols \<Rightarrow> nat \<Rightarrow> DWord \<Rightarrow> cint \<Rightarrow> cpu \<Rightarrow> kernel \<Rightarrow> (DWord \<times> cpu) option" where
  "call_exit sy t frame v c k = do {
     (bp, s) \<leftarrow> pop (stack (task k t), stack_index sy t frame);
     (ip, s) \<leftarrow> pop s;
     (c, s) \<leftarrow> handler_end (c\<lparr>c_eax := v, c_ebp := bp, c_eip := ip\<rparr>) s;
     Some (ip, c) }"

text \<open>A task that was resumed by a context switch (\<open>resume\<close>) and continues in
  \<^verbatim>\<open>ret_from_fork\<close>.\<close>

definition fork_exit :: "symbols \<Rightarrow> nat \<Rightarrow> cpu \<Rightarrow> kernel \<Rightarrow> (DWord \<times> cpu) option" where
  "fork_exit sy t c k = do {
     (c, s) \<leftarrow> ret_from_fork (c\<lparr>c_ebp := ebp k\<rparr>) (stack (task k t), stack_index sy t (esp k));
     let ip = c_eip c;
     (c, s) \<leftarrow> handler_end c s;
     Some (ip, c) }"

section \<open>The frame\<close>

definition frame_at_index :: "(nat \<Rightarrow> DWord) \<Rightarrow> nat \<Rightarrow> cpu \<Rightarrow> bool" where
  "frame_at_index st i c \<longleftrightarrow> map (\<lambda>x. st (i + x)) [0..<16] =
     [c_edx c, c_ecx c, c_ebx c, c_esi c, c_edi c, c_ebp c, c_eax c, c_ds c, c_es c, c_fs c, c_gs c,
      c_eip c, c_cs c, c_eflags c, c_esp c, c_ss c]"

lemma frame_at_index_cong: "(\<And>j. i \<le> j \<Longrightarrow> st j = st' j) \<Longrightarrow> frame_at_index st i c = frame_at_index st' i c"
  by (simp add: frame_at_index_def)

lemma upt_16: "[0..<16] = [0, 1, 2, 3, 4, 5, 6, 7, 8, 9, 10, 11, 12, 13, 14, 15 :: nat]"
  by (simp add: upt_rec)

lemma entry_pushes:
  "\<exists>st'. do { s \<leftarrow> trap_frame c (st, i + 18); (c', s) \<leftarrow> SAVE_ALL c s; s \<leftarrow> push ra s; push (c_ebp c') s } = Some (st', i) \<and>
    st' (i + 1) = ra \<and> frame_at_index st' (i + 2) c"
  unfolding trap_frame_def SAVE_ALL_def frame_at_index_def upt_16 by (simp add: push_def)

lemma frame_restored:
  assumes f: "frame_at_index st i c" and i: "i + 16 \<le> KERNEL_STACK_SIZE"
  shows "interrupt_exit c' (st, i) = Some (c, st, i + 16)"
proof -
  have w: "st i = c_edx c" "st (i + 1) = c_ecx c" "st (i + 2) = c_ebx c" "st (i + 3) = c_esi c" "st (i + 4) = c_edi c"
    "st (i + 5) = c_ebp c" "st (i + 6) = c_eax c" "st (i + 7) = c_ds c" "st (i + 8) = c_es c" "st (i + 9) = c_fs c" "st (i + 10) = c_gs c"
    "st (i + 11) = c_eip c" "st (i + 12) = c_cs c" "st (i + 13) = c_eflags c" "st (i + 14) = c_esp c" "st (i + 15) = c_ss c"
    using f unfolding frame_at_index_def upt_16 by simp_all
  have b: "i + x < KERNEL_STACK_SIZE" if "x < 16" for x using i that by simp
  show ?thesis
    using w b [of 0] b [of 1] b [of 2] b [of 3] b [of 4] b [of 5] b [of 6] b [of 7] b [of 8] b [of 9] b [of 10]
      b [of 11] b [of 12] b [of 13] b [of 14] b [of 15]
    by (simp add: interrupt_exit_def RESTORE_ALL_def iret_def pop_def Let_def add.assoc numeral_eq_Suc)
qed

lemma frame_result: "frame_at_index st i c \<Longrightarrow> frame_at_index (st(i + 6 := v)) i (c\<lparr>c_eax := v\<rparr>)"
  unfolding frame_at_index_def upt_16 by simp

lemma handler_pops:
  assumes f: "frame_at_index st i c" and i: "i + 16 \<le> KERNEL_STACK_SIZE"
  shows "\<exists>s'. handler_end c' (st, i) = Some (c\<lparr>c_eax := c_eax c'\<rparr>, s')"
  using frame_restored [OF frame_result [OF f, of "c_eax c'"] i, of c'] by (simp add: handler_end_def)

lemma frame_saved:
  "\<exists>c1 st'. do { s \<leftarrow> trap_frame c (st, i + 16); SAVE_ALL c s } = Some (c1, st', i) \<and> frame_at_index st' i c \<and>
    c_ds c1 = ucast KERNEL_DS \<and> c_es c1 = ucast KERNEL_DS"
  unfolding trap_frame_def SAVE_ALL_def frame_at_index_def upt_16 by (simp add: push_def)

text \<open>An interrupt gives every register back, whatever its service leaves in them; a refused
  system call gives them back with the error in \<^verbatim>\<open>eax\<close>.\<close>

lemma interrupt_returns:
  assumes "16 \<le> i" "i \<le> KERNEL_STACK_SIZE"
  shows "\<exists>c1 s1. interrupt_entry c (st, i) = Some (c1, s1, [(0x20, 0x20)]) \<and> c_ds c1 = ucast KERNEL_DS \<and> c_es c1 = ucast KERNEL_DS \<and>
    (\<forall>c2. interrupt_exit c2 s1 = Some (c, fst s1, i))"
proof -
  have i: "i - 16 + 16 = i" using assms(1) by simp
  obtain c1 st' where s: "do { s \<leftarrow> trap_frame c (st, i); SAVE_ALL c s } = Some (c1, st', i - 16)" "frame_at_index st' (i - 16) c"
    "c_ds c1 = ucast KERNEL_DS" "c_es c1 = ucast KERNEL_DS"
    using frame_saved [of c st "i - 16"] unfolding i by blast
  have z: "(0xffffff00 :: Byte) = 0" by simp
  have "ucast ((c_eax c1 AND 0xffffff00) OR 0x20) = (0x20 :: Byte)"
    by (simp add: unsigned_or_eq unsigned_and_eq z)
  then have "interrupt_entry c (st, i) = Some (fst (EOI c1), (st', i - 16), [(0x20, 0x20)])"
    using s(1) by (auto simp: interrupt_entry_def bind_Some_iff EOI_def Let_def)
  moreover have "interrupt_exit c2 (st', i - 16) = Some (c, st', i)" for c2
    using frame_restored [OF s(2), of c2] assms i by simp
  ultimately show ?thesis using s(3,4) by (simp add: EOI_def Let_def)
qed

lemma refused_returns:
  assumes "16 \<le> i" "i \<le> KERNEL_STACK_SIZE"
  shows "\<exists>s'. refused_call c (st, i) = Some (c\<lparr>c_eax := -38\<rparr>, s')"
proof -
  have i: "i - 16 + 16 = i" using assms(1) by simp
  obtain c1 st' where s: "do { s \<leftarrow> trap_frame c (st, i); SAVE_ALL c s } = Some (c1, st', i - 16)" "frame_at_index st' (i - 16) c"
    using frame_saved [of c st "i - 16"] unfolding i by blast
  obtain s' where "handler_end (c1\<lparr>c_eax := -38\<rparr>) (st', i - 16) = Some (c\<lparr>c_eax := -38\<rparr>, s')"
    using handler_pops [OF s(2), of "c1\<lparr>c_eax := -38\<rparr>"] assms i by auto
  then show ?thesis using s(1) by (auto simp: refused_call_def bind_Some_iff)
qed

lemma fault_entry_ok:
  "20 \<le> i \<Longrightarrow> fault_entry u base c err cr2 (st, i) k = segmentation_fault_service (c_eip c) err cr2 k"
proof -
  assume "20 \<le> i"
  then obtain j where "i = j + 20" using le_Suc_ex [of 20 i] by (metis add.commute)
  then show ?thesis by (cases u) (simp_all add: fault_entry_def trap_frame_def SAVE_ALL_def push_def Let_def)
qed

text \<open>The registers \<^verbatim>\<open>task_switch\<close> saves come back from the stack it left.\<close>

lemma switch_restores:
  assumes "switch_entry base c t ra ra' (st, i) = Some (st', j)" and "i \<le> KERNEL_STACK_SIZE"
  shows "switch_exit c' (st', j + 2) =
    Some (c'\<lparr>c_ebx := c_ebx c, c_esi := c_esi c, c_edi := c_edi c, c_ebp := c_ebp c, c_eip := ra\<rparr>, st', i - 1)"
proof -
  have "9 \<le> i" using assms(1) by (auto simp: switch_entry_def push_def Let_def bind_Some_iff split: if_splits)
  then obtain n where n: "i = n + 9" using le_Suc_ex [of 9 i] by (metis add.commute)
  then show ?thesis using assms by (auto simp: switch_entry_def switch_exit_def push_def pop_def Let_def)
qed

section \<open>System calls\<close>

text \<open>What the handler and the routine read: the number, which \<^verbatim>\<open>SAVE_ALL\<close> leaves in
  \<^verbatim>\<open>eax\<close>, and the arguments, the words above the return address.\<close>

definition call_regs :: "symbols \<Rightarrow> cpu \<Rightarrow> nat \<Rightarrow> kernel \<Rightarrow> regs" where
  "call_regs sy c t k = (let st = stack (task k t); i = stack_index sy t (ebp_fork k) in
     \<lparr>r_eax = c_eax c, r_ebx = st (i + 4), r_ecx = st (i + 3), r_edx = st (i + 2)\<rparr>)"

lemma stack_index_addr: "j \<le> KERNEL_STACK_SIZE \<Longrightarrow> stack_index sy t (stack_addr sy t j) = j"
proof -
  assume j: "j \<le> KERNEL_STACK_SIZE"
  then have "unat (of_nat (4 * j) :: DWord) = 4 * j" by (intro unat_of_nat32) (simp add: zeos_consts)
  then show ?thesis by (simp add: stack_index_def stack_addr_def del: of_nat_mult)
qed

text \<open>The state in which the service routine starts.\<close>

definition called :: "symbols \<Rightarrow> cpu \<Rightarrow> DWord \<Rightarrow> kernel \<Rightarrow> nat \<Rightarrow> nat \<Rightarrow> bool" where
  "called sy c ra k t i \<longleftrightarrow> entered sy k t \<and> ebp_fork k = stack_addr sy t i \<and> 0 < i \<and> i + 18 \<le> KERNEL_STACK_SIZE \<and>
     stack (task k t) (i + 1) = ra \<and> frame_at_index (stack (task k t)) (i + 2) c"

lemma call_regs_called:
  assumes "called sy c ra k t i"
  shows "call_regs sy c t k = \<lparr>r_eax = c_eax c, r_ebx = c_ebx c, r_ecx = c_ecx c, r_edx = c_edx c\<rparr>"
proof -
  have "stack_index sy t (ebp_fork k) = i" using assms by (simp add: called_def stack_index_addr)
  moreover have "stack (task k t) (i + 2) = c_edx c" "stack (task k t) (i + 3) = c_ecx c" "stack (task k t) (i + 4) = c_ebx c"
    using assms unfolding called_def frame_at_index_def upt_16 by (simp_all add: add.assoc numeral_eq_Suc)
  ultimately show ?thesis by (simp add: call_regs_def)
qed

lemma call_entry_ok:
  assumes sy: "linked sy" and ok: "system_ok sy k a" and d: "Suc d < KERNEL_STACK_SIZE"
  shows "\<exists>k1 i. call_entry sy c ra d k = Some k1 \<and> called sy c ra k1 (running a) i \<and> system_ok sy k1 a \<and>
    last_pid k1 = last_pid k \<and> enter sy k k1"
proof -
  let ?t = "running a"
  have K: "kernel_ok sy k a" by (rule system_okD(1) [OF ok])
  have cpu: "on_cpu sy k = ?t" by (rule on_cpu_running [OF sy K])
  obtain n where n: "esp0 (tss k) = stack_addr sy ?t n" "n = KERNEL_STACK_SIZE - 1 \<or> n = KERNEL_STACK_SIZE"
    using K by (auto simp: kernel_ok_def)
  define i where "i = n - 18"
  have i: "n = i + 18" "0 < i" "i + 18 \<le> KERNEL_STACK_SIZE" using n(2) by (auto simp: i_def zeos_consts)
  have top: "stack_index sy ?t (esp0 (tss k)) = i + 18" using n(1) i by (simp add: stack_index_addr)
  obtain st where st: "do { s \<leftarrow> trap_frame c (stack (task k ?t), i + 18); (c', s) \<leftarrow> SAVE_ALL c s; s \<leftarrow> push ra s; push (c_ebp c') s }
      = Some (st, i)" "st (i + 1) = ra" "frame_at_index st (i + 2) c"
    using entry_pushes [of c "stack (task k ?t)" i ra] by blast
  define k1 where "k1 = k\<lparr>task := (task k)(?t := (task k ?t)\<lparr>stack := st\<rparr>), esp := stack_addr sy ?t i,
    ebp_fork := stack_addr sy ?t i, ebp_switch := stack_addr sy ?t d\<rparr>"
  have "call_entry sy c ra d k = Some k1"
    using st(1) unfolding call_entry_def cpu Let_def top by (auto simp: bind_Some_iff k1_def)
  moreover have en: "entered sy k1 ?t"
  proof -
    have "i < KERNEL_STACK_SIZE" using i by simp
    then have "\<exists>j<KERNEL_STACK_SIZE. 0 < j \<and> stack_addr sy ?t i = stack_addr sy ?t j" using i by blast
    moreover have "\<exists>j. Suc j < KERNEL_STACK_SIZE \<and> stack_addr sy ?t d = stack_addr sy ?t j" using d by blast
    ultimately show ?thesis using i d kernel_okD(9) [OF K] by (auto simp: entered_def k1_def)
  qed
  then have "called sy c ra k1 ?t i" using st(2,3) i by (simp add: called_def k1_def)
  moreover have "\<exists>st. k1 = k\<lparr>task := (task k)(?t := (task k ?t)\<lparr>stack := st\<rparr>), esp := esp k1, ebp_fork := ebp_fork k1,
      ebp_switch := ebp_switch k1\<rparr>"
    by (auto simp: k1_def)
  then have "enter sy k k1" using en unfolding enter_def cpu by blast
  moreover have "kernel_ok sy k1 a"
    by (rule kernel_ok_cong [OF K]) (simp_all add: k1_def kernel_okD(5) [OF K])
  then have "system_ok sy k1 a" by (rule system_same [OF ok]) (simp_all add: k1_def)
  ultimately show ?thesis by (auto simp: k1_def)
qed

lemma call_exit_ok:
  assumes "frame_at_index (stack (task k t)) (i + 2) c" and "i + 18 \<le> KERNEL_STACK_SIZE" and "stack (task k t) (i + 1) = ra"
  shows "call_exit sy t (stack_addr sy t i) v c' k = Some (ra, c\<lparr>c_eax := v\<rparr>)"
proof -
  obtain s' where "handler_end (c'\<lparr>c_eax := v, c_ebp := stack (task k t) i, c_eip := ra\<rparr>) (stack (task k t), i + 2) =
      Some (c\<lparr>c_eax := v\<rparr>, s')"
    using handler_pops [OF assms(1), of "c'\<lparr>c_eax := v, c_ebp := stack (task k t) i, c_eip := ra\<rparr>"] assms(2) by auto
  then show ?thesis
    using assms(2,3) by (simp add: call_exit_def stack_index_addr pop_def)
qed

text \<open>The routines that return leave the frames of their caller alone.\<close>

lemma unblock_stack:
  assumes sy: "linked sy" and ok: "kernel_ok sy k a" and ent: "entered sy k (running a)" and r: "running a \<noteq> 0"
    and run: "sys_unblock sy pid k = Some (v, k')"
  shows "stack (task k' t) = stack (task k t)"
proof (cases "\<exists>c\<in>set (kids a (running a)). PID (task k c) = pid")
  case False
  then show ?thesis using run sys_unblock_no_child [OF sy ok ent] by auto
next
  case True
  then obtain c where c: "c \<in> set (kids a (running a))" "PID (task k c) = pid" by blast
  show ?thesis
  proof (cases "c \<in> set (waiting a)")
    case True
    then show ?thesis using sys_unblock_blocked [OF sy ok ent r c] run by auto
  next
    case False
    then show ?thesis using sys_unblock_not_blocked [OF sy ok ent c] run by auto
  qed
qed

lemma fork_stack:
  assumes sy: "linked sy" and ok: "system_ok sy k a" and ent: "entered sy k (running a)" and r: "running a \<noteq> 0"
    and run: "sys_fork sy k = Some (v, k')"
  shows "stack (task k' (running a)) = stack (task k (running a))"
proof (cases "free a")
  case Nil
  then show ?thesis using run sys_fork_full [of sy k a] ok by (simp add: system_ok_def)
next
  case (Cons n f)
  have k: "kernel_ok sy k a" by (rule system_okD(1) [OF ok])
  have last: "sint (last_pid k) < 2 ^ 31 - 3" using last_pid_bound [OF ok] by simp
  obtain j where j: "ebp_fork k = stack_addr sy (running a) j" "0 < j" "j < KERNEL_STACK_SIZE"
    using ent by (auto simp: entered_def)
  have "n \<noteq> running a" using fork_fresh [OF kernel_okD(1) [OF k] Cons] r by auto
  then show ?thesis using sys_fork_ok [OF sy k ent r Cons last j] run by auto
qed

lemma write_stack: "sys_write sy fd buf sz k = Some (v, k') \<Longrightarrow> task k' = task k"
  using sys_write_cases [of sy fd buf sz k v k'] by (cases "k' = k") auto

lemma returned_stack:
  assumes "linked sy" and "system_ok sy k a" and "entered sy k (running a)" and "running a \<noteq> 0"
    and "system_call_handler sy r k = Some (Returned v k')"
  shows "stack (task k' (running a)) = stack (task k (running a))"
  using assms(5) fork_stack [OF assms(1-4)] unblock_stack [OF assms(1) system_okD(1) [OF assms(2)] assms(3,4)] write_stack
  unfolding handler_cases
  by (auto simp: ret_def noval_def bind_Some_iff sys_gettime_def sys_getpid_def split: prod.splits if_splits)

lemma call_returns:
  assumes sy: "linked sy" and ok: "system_ok sy k a" and r: "running a \<noteq> 0" and c: "called sy c ra k (running a) i"
    and run: "system_call_handler sy rs k = Some (Returned v k')"
  shows "call_exit sy (running a) (ebp_fork k) v c' k' = Some (ra, c\<lparr>c_eax := v\<rparr>)"
proof -
  have c: "entered sy k (running a)" "ebp_fork k = stack_addr sy (running a) i" "i + 18 \<le> KERNEL_STACK_SIZE"
    "stack (task k (running a)) (i + 1) = ra" "frame_at_index (stack (task k (running a))) (i + 2) c"
    using c by (simp_all add: called_def)
  have "stack (task k' (running a)) = stack (task k (running a))" by (rule returned_stack [OF sy ok c(1) r run])
  then show ?thesis unfolding c(2) using c(3-5) by (intro call_exit_ok) simp_all
qed

section \<open>Fork returns twice\<close>

lemma child_resumes:
  assumes n: "n < NR_TASKS" and i: "0 < i" "i + 18 \<le> KERNEL_STACK_SIZE" and f: "frame_at_index st (i + 2) c" "st (i + 1) = ra"
    and k: "stack (task k n) = stack (child_of sy ts r n pid i)" "kernel_esp (task k n) = kernel_esp (child_of sy ts r n pid i)"
      "stack ts = st"
  shows "\<exists>k'. resume sy n k = Some k' \<and> eip k' = a_ret_from_fork sy \<and> fork_exit sy n c' k' = Some (ra, c\<lparr>c_eax := 0\<rparr>)"
proof -
  let ?st = "st(i := a_ret_from_fork sy, i - 1 := 0)"
  have b: "i < KERNEL_STACK_SIZE" "i - 1 < KERNEL_STACK_SIZE" "i \<noteq> i - 1" "Suc i \<noteq> i - 1" using i by auto
  have sk: "stack (task k n) = ?st" "kernel_esp (task k n) = stack_addr sy n (i - 1)" using k by (simp_all add: child_of_def)
  have plus: "stack_addr sy n (i - 1) + 4 = stack_addr sy n i" "stack_addr sy n (i - 1) + 8 = stack_addr sy n (i + 1)"
  proof -
    show p: "stack_addr sy n (i - 1) + 4 = stack_addr sy n i" using i(1) stack_addr_Suc [of sy n "i - 1"] by simp
    have "stack_addr sy n (i - 1) + 8 = (stack_addr sy n (i - 1) + 4) + 4" by simp
    also have "\<dots> = stack_addr sy n (i + 1)" unfolding p using stack_addr_Suc [of sy n i] by simp
    finally show "stack_addr sy n (i - 1) + 8 = stack_addr sy n (i + 1)" .
  qed
  have w: "stack_word sy k (stack_addr sy n (i - 1)) = Some 0" "stack_word sy k (stack_addr sy n i) = Some (a_ret_from_fork sy)"
    using stack_addr_word [of n "i - 1" sy k] stack_addr_word [of n i sy k] n b unfolding sk(1) by auto
  define k' where "k' = k\<lparr>esp := stack_addr sy n (i + 1), ebp := 0, eip := a_ret_from_fork sy\<rparr>"
  have "resume sy n k = Some k'" using w plus by (simp add: resume_def sk(2) k'_def)
  moreover have "frame_at_index (?st(i := 0)) (i + 2) c"
    by (rule frame_at_index_cong [THEN iffD2, OF _ f(1)]) (use i in auto)
  then obtain s' where "handler_end (c'\<lparr>c_eax := 0, c_ebp := 0, c_eip := ra\<rparr>) (?st(i := 0), i + 2) = Some (c\<lparr>c_eax := 0\<rparr>, s')"
    using handler_pops [of "?st(i := 0)" "i + 2" c "c'\<lparr>c_eax := 0, c_ebp := 0, c_eip := ra\<rparr>"] i(2) by auto
  then have "fork_exit sy n c' k' = Some (ra, c\<lparr>c_eax := 0\<rparr>)"
    using i b f(2) sk(1) by (simp add: fork_exit_def ret_from_fork_def k'_def stack_index_addr push_def pop_def Let_def)
  ultimately show ?thesis by (simp add: k'_def)
qed

lemma fork_returns:
  assumes sy: "linked sy" and ok: "system_ok sy k a" and r: "running a \<noteq> 0" and c: "called sy c ra k (running a) i"
    and f: "free a = n # f" and run: "sys_fork sy k = Some (pid, k')"
  shows "call_exit sy (running a) (ebp_fork k) pid c' k' = Some (ra, c\<lparr>c_eax := pid\<rparr>)"
    and "contexts_kept {n} k' k2 \<Longrightarrow> \<exists>k3. resume sy n k2 = Some k3 \<and> eip k3 = a_ret_from_fork sy \<and>
      fork_exit sy n c' k3 = Some (ra, c\<lparr>c_eax := 0\<rparr>)"
proof -
  have d: "entered sy k (running a)" "ebp_fork k = stack_addr sy (running a) i" "0 < i" "i < KERNEL_STACK_SIZE"
    "i + 18 \<le> KERNEL_STACK_SIZE" "stack (task k (running a)) (i + 1) = ra" "frame_at_index (stack (task k (running a))) (i + 2) c"
    using c by (simp_all add: called_def)
  have k: "kernel_ok sy k a" by (rule system_okD(1) [OF ok])
  have "system_call_handler sy \<lparr>r_eax = 2, r_ebx = 0, r_ecx = 0, r_edx = 0\<rparr> k = Some (Returned pid k')"
    using run by (simp add: handler_cases ret_def)
  then show "call_exit sy (running a) (ebp_fork k) pid c' k' = Some (ra, c\<lparr>c_eax := pid\<rparr>)"
    by (rule call_returns [OF sy ok r c])
  have last: "sint (last_pid k) < 2 ^ 31 - 3" using last_pid_bound [OF ok] by simp
  have t: "task k' n = child_of sy (task k (running a)) (running a) n pid i"
    using sys_fork_ok [OF sy k d(1) r f last d(2-4)] run by auto
  have "n < NR_TASKS" using fork_fresh [OF kernel_okD(1) [OF k] f] by simp
  then show "\<exists>k3. resume sy n k2 = Some k3 \<and> eip k3 = a_ret_from_fork sy \<and> fork_exit sy n c' k3 = Some (ra, c\<lparr>c_eax := 0\<rparr>)"
    if "contexts_kept {n} k' k2"
    by (rule child_resumes [OF _ d(3,5,7,6)]) (use that t in \<open>simp_all add: contexts_kept_def\<close>)
qed

text \<open>From the trap of the parent to both returns.\<close>

lemma fork_twice:
  assumes sy: "linked sy" and show_clock: "keeps_cursor show_clock" and ok: "system_ok sy k a" and r: "running a \<noteq> 0"
    and d: "Suc d < KERNEL_STACK_SIZE" and f: "free a = n # f"
  shows "\<exists>k1 pid k'. call_entry sy c ra d k = Some k1 \<and> sys_fork sy k1 = Some (pid, k') \<and> sint (last_pid k) < sint pid \<and>
    call_exit sy (running a) (ebp_fork k1) pid c' k' = Some (ra, c\<lparr>c_eax := pid\<rparr>) \<and>
    (\<forall>es k2. path (step_without n show_clock sy) k' es k2 \<longrightarrow> (\<exists>k3. resume sy n k2 = Some k3 \<and>
      eip k3 = a_ret_from_fork sy \<and> fork_exit sy n c' k3 = Some (ra, c\<lparr>c_eax := 0\<rparr>)))"
proof -
  obtain k1 i where k1: "call_entry sy c ra d k = Some k1" "called sy c ra k1 (running a) i" "system_ok sy k1 a" "last_pid k1 = last_pid k"
    using call_entry_ok [OF sy ok d, of c ra] by blast
  have e: "entered sy k1 (running a)" "ebp_fork k1 = stack_addr sy (running a) i" "0 < i" "i < KERNEL_STACK_SIZE"
    using k1(2) by (simp_all add: called_def)
  have last: "sint (last_pid k1) < 2 ^ 31 - 3" using last_pid_bound [OF k1(3)] by simp
  obtain pid k' where fk: "sys_fork sy k1 = Some (pid, k')" "sint (last_pid k) < sint pid"
    using sys_fork_ok [OF sy system_okD(1) [OF k1(3)] e(1) r f last e(2-4)] k1(4) by auto
  note both = fork_returns [OF sy k1(3) r k1(2) f fk(1)]
  have s: "system_ok sy k' (s_fork a)" by (rule fork_result(1) [OF sy k1(3) e(1) r f fk(1)])
  have n: "n \<in> parents (s_fork a)"
    using live_fork [OF kernel_okD(1) [OF system_okD(1) [OF ok]] f] by (simp add: parents_def)
  have "contexts_kept {n} k' k2" if "path (step_without n show_clock sy) k' es k2" for es k2
    using context_survives [OF that sy show_clock s n] by blast
  then show ?thesis using k1(1) fk both by blast
qed

lemma entry_room:
  assumes "kernel_ok sy k a"
  shows "16 \<le> stack_index sy (running a) (esp0 (tss k))" "stack_index sy (running a) (esp0 (tss k)) \<le> KERNEL_STACK_SIZE"
  using assms unfolding kernel_ok_def by (auto simp: stack_index_addr) (simp_all add: zeos_consts)

text \<open>The three ways through the entry code.\<close>

lemma entries_return:
  assumes sy: "linked sy" and ok: "system_ok sy k a" and r: "running a \<noteq> 0" and d: "Suc d < KERNEL_STACK_SIZE"
  shows "\<exists>c1 s1. interrupt_entry c (stack (task k (running a)), stack_index sy (running a) (esp0 (tss k))) = Some (c1, s1, [(0x20, 0x20)]) \<and>
      (\<forall>c2. interrupt_exit c2 s1 = Some (c, fst s1, stack_index sy (running a) (esp0 (tss k))))"
    and "\<exists>s'. refused_call c (stack (task k (running a)), stack_index sy (running a) (esp0 (tss k))) = Some (c\<lparr>c_eax := -38\<rparr>, s')"
    and "\<exists>k1. call_entry sy c ra d k = Some k1 \<and> enter sy k k1 \<and> system_ok sy k1 a \<and>
      call_regs sy c (running a) k1 = \<lparr>r_eax = c_eax c, r_ebx = c_ebx c, r_ecx = c_ecx c, r_edx = c_edx c\<rparr> \<and>
      (\<forall>v k'. system_call_handler sy (call_regs sy c (running a) k1) k1 = Some (Returned v k') \<longrightarrow>
        call_exit sy (running a) (ebp_fork k1) v c' k' = Some (ra, c\<lparr>c_eax := v\<rparr>))"
proof -
  note room = entry_room [OF system_okD(1) [OF ok]]
  show "\<exists>c1 s1. interrupt_entry c (stack (task k (running a)), stack_index sy (running a) (esp0 (tss k))) = Some (c1, s1, [(0x20, 0x20)]) \<and>
      (\<forall>c2. interrupt_exit c2 s1 = Some (c, fst s1, stack_index sy (running a) (esp0 (tss k))))"
    using interrupt_returns [OF room] by blast
  show "\<exists>s'. refused_call c (stack (task k (running a)), stack_index sy (running a) (esp0 (tss k))) = Some (c\<lparr>c_eax := -38\<rparr>, s')"
    by (rule refused_returns [OF room])
  obtain k1 i where k1: "call_entry sy c ra d k = Some k1" "called sy c ra k1 (running a) i" "system_ok sy k1 a"
    "enter sy k k1"
    using call_entry_ok [OF sy ok d, of c ra] by blast
  show "\<exists>k1. call_entry sy c ra d k = Some k1 \<and> enter sy k k1 \<and> system_ok sy k1 a \<and>
      call_regs sy c (running a) k1 = \<lparr>r_eax = c_eax c, r_ebx = c_ebx c, r_ecx = c_ecx c, r_edx = c_edx c\<rparr> \<and>
      (\<forall>v k'. system_call_handler sy (call_regs sy c (running a) k1) k1 = Some (Returned v k') \<longrightarrow>
        call_exit sy (running a) (ebp_fork k1) v c' k' = Some (ra, c\<lparr>c_eax := v\<rparr>))"
    using k1 call_regs_called [OF k1(2)] call_returns [OF sy k1(3) r k1(2)] by blast
qed

end
