(* ===== verification/Program.thy ===== *)
theory Program
  imports Runs
begin

text \<open>
  The program of \<^verbatim>\<open>user.c\<close> on the kernel: the texts it prints, the child it creates, and the
  PID it formats, in the parent and in the child, with and without a free slot.
\<close>

text \<open>The entry code of a trap by task \<open>t\<close>, with room for the local array of \<^verbatim>\<open>sys_write\<close>.\<close>

definition traps_in :: "symbols \<Rightarrow> nat \<Rightarrow> (kernel \<Rightarrow> kernel) \<Rightarrow> bool" where
  "traps_in sy t ent \<longleftrightarrow> (\<forall>k. on_cpu sy k = t \<longrightarrow> enter sy k (ent k) \<and> vla_fits sy (ent k) 12)"

definition in_user_area :: "DWord \<Rightarrow> cint \<Rightarrow> bool" where
  "in_user_area buf sz \<longleftrightarrow> access_ok VERIFY_READ buf sz \<and> unat buf + nat (sint sz) \<le> 4096 * (PAG_LOG_INIT_CODE + NUM_PAG_CODE)"

definition user_text :: "symbols \<Rightarrow> mm \<Rightarrow> DWord \<Rightarrow> nat \<Rightarrow> Byte list" where
  "user_text sy m buf n = map (\<lambda>i. user_byte sy m (buf + of_nat i)) [0..<n]"

text \<open>The array holds the decimal numeral of a number.\<close>

definition shows_number :: "cint \<Rightarrow> Byte list \<Rightarrow> bool" where
  "shows_number v b \<longleftrightarrow> (\<exists>t r. b = t @ 0 # r \<and> strlen b = Some (length t) \<and> digits_value 10 (map (\<lambda>c. uint c - 48) t) = sint v)"

lemma itoa_shows:
  assumes "0 \<le> sint v" and "11 \<le> length b"
  shows "\<exists>b'. itoa v b = Some b' \<and> shows_number v b' \<and> length b' = length b"
proof -
  let ?t = "number_text 10 dec_digit (sint v)"
  have "length ?t \<le> 10" using sint_lt [of v] by (intro length_number_text_le) simp_all
  then have t: "length ?t < length b" using assms(2) by simp
  then have "itoa v b = Some (?t @ 0 # drop (Suc (length ?t)) b)" by (simp add: itoa_text Let_def)
  moreover have "shows_number v (?t @ 0 # drop (Suc (length ?t)) b)"
    unfolding shows_number_def using number_text_dec_value [OF assms(1)] strlen_spec [OF number_text_dec_nonzero] by blast
  ultimately show ?thesis using t by simp
qed

lemma wrapper_end_pid: "0 \<le> sint v \<Longrightarrow> wrapper_end v = (v, None)"
  by (simp add: wrapper_end_def)

lemma enter_scr: "enter sy k k1 \<Longrightarrow> scr k1 = scr k \<and> last_pid k1 = last_pid k"
proof -
  assume "enter sy k k1"
  then obtain st where eq: "k1 = k\<lparr>task := (task k)(on_cpu sy k := (task k (on_cpu sy k))\<lparr>stack := st\<rparr>),
      esp := esp k1, ebp_fork := ebp_fork k1, ebp_switch := ebp_switch k1\<rparr>" unfolding enter_def by blast
  show ?thesis by (subst (1 2) eq) simp
qed

lemma trap_enters:
  assumes "linked sy" and "system_ok sy k a" and "traps_in sy (running a) ent"
  shows "system_ok sy (ent k) a" "entered sy (ent k) (running a)" "mem (ent k) = mem k" "\<forall>i. PID (task (ent k) i) = PID (task k i)"
    "scr (ent k) = scr k" "last_pid (ent k) = last_pid k" "current sy (ent k) = running a" "vla_fits sy (ent k) 12"
    "vla_fits sy (ent k) 11"
proof -
  have en: "enter sy k (ent k)" and v: "vla_fits sy (ent k) 12"
    using assms(3) on_cpu_running [OF assms(1) system_okD(1) [OF assms(2)]] by (simp_all add: traps_in_def)
  from enter_ok [OF assms(1,2) en] show "system_ok sy (ent k) a" "entered sy (ent k) (running a)" "mem (ent k) = mem k"
    "\<forall>i. PID (task (ent k) i) = PID (task k i)" by simp_all
  then show "current sy (ent k) = running a" using current_entered [OF assms(1)] by simp
  show "scr (ent k) = scr k" "last_pid (ent k) = last_pid k" using enter_scr [OF en] by simp_all
  show "vla_fits sy (ent k) 12" by (fact v)
  then show "vla_fits sy (ent k) 11" by (simp add: vla_fits_def)
qed

text \<open>A write of a text in the user area, from the trap to the result.\<close>

lemma write_text:
  assumes sy: "linked sy" and ok: "system_ok sy k a" and r: "running a \<noteq> 0" and ent: "traps_in sy (running a) ent"
    and buf: "in_user_area buf sz" and sz: "sz = 11 \<or> sz = 12"
  shows "\<exists>k'. write_call sy 1 buf sz rs (ent k) = Some ((sz, None), k') \<and> system_ok sy k' a \<and> last_pid k' = last_pid k \<and>
    (\<forall>i. PID (task k' i) = PID (task k i)) \<and> user_byte sy (mem k') = user_byte sy (mem k) \<and>
    port_e9 (scr k') = port_e9 (scr k) @ user_text sy (mem k) buf (nat (sint sz))"
proof -
  note T = trap_enters [OF sy ok ent]
  have s: "0 < sint sz" "vla_fits sy (ent k) sz" using sz T(8,9) by auto
  obtain m where m: "same_but sy {} (mem k) m" "let k' = (ent k)\<lparr>mem := m, scr := fold printc (user_text sy (mem k) buf (nat (sint sz))) (scr k)\<rparr> in
      sys_write sy 1 buf sz (ent k) = Some (sz, k') \<and> kernel_ok sy k' a"
    using sys_write_result [OF sy system_okD(1) [OF T(1)] r s(2,1), of buf] buf unfolding T(3,5) in_user_area_def user_text_def by blast
  define k' where "k' = (ent k)\<lparr>mem := m, scr := fold printc (user_text sy (mem k) buf (nat (sint sz))) (scr k)\<rparr>"
  have k': "sys_write sy 1 buf sz (ent k) = Some (sz, k')" "kernel_ok sy k' a" using m(2) by (simp_all add: Let_def k'_def)
  have "system_ok sy k' a" by (rule system_same [OF T(1) k'(2)]) (simp_all add: k'_def)
  then show ?thesis
    using k'(1) s(1) T(4,6) user_byte_same [OF m(1)]
    by (intro exI [of _ k']) (simp add: write_call_spec wrapper_end_def k'_def console.out_fold)
qed

lemma running_pid:
  assumes "system_ok sy k a"
  shows "0 \<le> sint (PID (task k (running a)))" "sint (PID (task k (running a))) \<le> sint (last_pid k)"
proof -
  have "pcb_ok sy k i" if "i \<in> parents a" for i using system_okD(1) [OF assms] that by (simp add: kernel_ok_def tables_ok_def)
  moreover have "running a \<in> parents a" by (auto simp: parents_def live_def)
  ultimately show "0 \<le> sint (PID (task k (running a)))" "sint (PID (task k (running a))) \<le> sint (last_pid k)"
    by (auto simp: pcb_ok_def)
qed

lemma after_fork_runs:
  assumes sy: "linked sy" and ok: "system_ok sy k a" and r: "running a \<noteq> 0" and ent: "traps_in sy (running a) ent"
    and b: "11 \<le> length buff" and msg: "in_user_area msg2 12"
  shows "\<exists>buff' k'. user_after_fork sy ent msg2 rs buff pid k = Some (PID (task k (running a)), buff', k') \<and>
    shows_number (PID (task k (running a))) buff' \<and> system_ok sy k' a \<and> last_pid k' = last_pid k \<and>
    (\<forall>i. PID (task k' i) = PID (task k i)) \<and>
    port_e9 (scr k') = port_e9 (scr k) @ (if pid = -1 then user_text sy (mem k) msg2 12 else [])"
proof -
  note T = trap_enters [OF sy ok ent]
  let ?v = "PID (task k (running a))"
  have v: "0 \<le> sint ?v" by (rule running_pid(1) [OF ok])
  have gp: "getpid_call sy rs (ent k) = Some ((?v, None), ent k)"
    using v T(4,7) by (simp add: getpid_call_spec wrapper_end_pid)
  obtain buff' where i: "itoa ?v buff = Some buff'" "shows_number ?v buff'" using itoa_shows [OF v b] by blast
  have eq: "user_after_fork sy ent msg2 rs buff pid k = do {
      k \<leftarrow> if pid = -1 then do { (_, k) \<leftarrow> write_call sy 1 msg2 12 rs (ent (ent k)); Some k } else Some (ent k);
      Some (?v, buff', k) }"
    by (simp add: user_after_fork_def gp i(1))
  show ?thesis
  proof (cases "pid = -1")
    case False
    then show ?thesis using eq T i(2) by auto
  next
    case True
    from write_text [OF sy T(1) r ent msg, of rs] show ?thesis using eq T(3-6) i(2) True by auto
  qed
qed

text \<open>The whole program.\<close>

lemma program_runs:
  assumes sy: "linked sy" and ok: "system_ok sy k a" and r: "running a \<noteq> 0" and ent: "traps_in sy (running a) ent"
    and b: "11 \<le> length buff" and msg: "in_user_area msg1 11" "in_user_area msg2 12"
  shows "\<exists>pid buff' k'. user_main sy ent msg1 msg2 rs buff k = Some (pid, PID (task k (running a)), buff', k') \<and>
    shows_number (PID (task k (running a))) buff' \<and>
    (if free a = [] then pid = -1 \<and> system_ok sy k' a \<and>
       port_e9 (scr k') = port_e9 (scr k) @ user_text sy (mem k) msg1 11 @ user_text sy (mem k) msg2 12
     else sint (last_pid k) < sint pid \<and> PID (task k' (hd (free a))) = pid \<and> system_ok sy k' (s_fork a) \<and>
       port_e9 (scr k') = port_e9 (scr k) @ user_text sy (mem k) msg1 11)"
proof -
  obtain k1 where k1: "write_call sy 1 msg1 11 rs (ent k) = Some ((11, None), k1)" "system_ok sy k1 a" "last_pid k1 = last_pid k"
    "\<forall>i. PID (task k1 i) = PID (task k i)" "user_byte sy (mem k1) = user_byte sy (mem k)"
    "port_e9 (scr k1) = port_e9 (scr k) @ user_text sy (mem k) msg1 11"
    using write_text [OF sy ok r ent msg(1), of rs] by auto
  note T = trap_enters [OF sy k1(2) ent]
  show ?thesis
  proof (cases "free a")
    case Nil
    have f: "fork_call sy rs (ent k1) = Some ((-1, Some 1), ent k1)"
      by (simp add: fork_call_spec sys_fork_full [OF system_okD(1) [OF T(1)] Nil] wrapper_end_def)
    from after_fork_runs [OF sy T(1) r ent b msg(2), of rs "-1"] show ?thesis
      using k1 T(3-6) Nil f by (auto simp: user_main_def user_text_def)
  next
    case (Cons n fr)
    have last: "sint (last_pid (ent k1)) < 2 ^ 31 - 3" using last_pid_bound [OF T(1)] by simp
    obtain j where j: "ebp_fork (ent k1) = stack_addr sy (running a) j" "0 < j" "j < KERNEL_STACK_SIZE"
      using T(2) by (auto simp: entered_def)
    define C where "C pid = child_of sy (task (ent k1) (running a)) (running a) n pid j" for pid
    obtain pid h m where F: "sys_fork sy (ent k1) = Some (pid, (ent k1)\<lparr>mem := m, last_pid := pid, task := (task (ent k1))(n := C pid), lists := h\<rparr>)"
      "sint (last_pid (ent k1)) < sint pid"
      using sys_fork_ok [OF sy system_okD(1) [OF T(1)] T(2) r Cons last j] unfolding C_def by blast
    define k2 where "k2 = (ent k1)\<lparr>mem := m, last_pid := pid, task := (task (ent k1))(n := C pid), lists := h\<rparr>"
    note R = fork_result [OF sy T(1,2) r Cons F(1) [folded k2_def]]
    have s: "running (s_fork a) = running a" by (simp add: s_fork_def split: list.split)
    have n: "n \<noteq> running a" using R(4) by (auto simp: parents_def live_def)
    have p: "0 \<le> sint pid" using F(2) running_pid [OF T(1)] by simp
    have f: "fork_call sy rs (ent k1) = Some ((pid, None), k2)" by (simp add: fork_call_spec F(1) wrapper_end_pid [OF p] k2_def)
    have "pid \<noteq> -1" using p by auto
    moreover have "PID (task k2 (running a)) = PID (task k (running a))" "PID (task k2 n) = pid" "scr k2 = scr (ent k1)"
      using n k1(4) T(4) by (simp_all add: k2_def C_def child_of_def)
    ultimately show ?thesis
      using after_fork_runs [OF sy R(1) _ _ b msg(2), of ent rs pid] r ent k1 T(5,6) F(2) f Cons unfolding s
      by (auto simp: user_main_def)
  qed
qed

end
