(* ===== verification/Example.thy ===== *)
theory Example
  imports Program Bootsect User Debug Entry
begin

text \<open>
  A concrete machine on which the theorems of the development are instantiated: link-time
  addresses, the three input files of \<^verbatim>\<open>build\<close>, the memory the boot sector leaves,
  the state \<^verbatim>\<open>main\<close> reaches from it, and states reached by a fork, a preemption and
  a block.
\<close>

section \<open>The linked image\<close>

definition ex_sy :: symbols where
  "ex_sy = \<lparr>a_readyq = 0x12000, a_freeq = 0x12008, a_blocked = 0x12010, a_task = 0x20000, a_dir_pages = 0x30000,
     a_pagusr_table = 0x40000, a_tss = 0x13000, a_idt = 0x14000, a_cpu_idle = 0x11000, a_ret_from_fork = 0x11100\<rparr>"

lemma ex_linked: "linked ex_sy"
  by (simp add: linked_def ex_sy_def size_defs zeos_consts)

definition ex_ep :: entry_points where
  "ex_ep = \<lparr>keyboard_handler = 0x10100, clock_handler = 0x10200, segmentation_fault_handler = 0x10300,
     system_call_handler_addr = 0x10400\<rparr>"

section \<open>The disk image\<close>

definition ex_hdr :: "Byte list" where
  "ex_hdr = minix_hdr @ replicate 24 0"

definition ex_block :: "Byte list" where
  "ex_block = replicate 200 0x90 @ replicate 6 0 @ replicate 229 0x90 @ boot_gdt @ boot_idt @ boot_tail"

definition ex_lab :: labels where
  "ex_lab = \<lparr>o_msg1 = 400, o_sread = 200\<rparr>"

definition ex_sys :: "Byte list" where "ex_sys = replicate 16 0xCC"
definition ex_usr :: "Byte list" where "ex_usr = [0x6A, 0x01, 0xCD, 0x80, 0xEB]"

definition ex_file :: "Byte list \<Rightarrow> infile" where
  "ex_file bs = \<lparr>st_size = Some (length bs), readable = True, contents = bs\<rparr>"

definition ex_out :: outfile where
  "ex_out = \<lparr>o_bytes = [], o_off = 0, o_cap = 1474560, o_seekable = True\<rparr>"

lemma ex_boot_file: "boot_file ex_hdr ex_block"
proof -
  have "ex_block ! (497 + i) = boot_tail ! i" for i
    unfolding ex_block_def using nth_append_length_plus [of "replicate 200 0x90 @ replicate 6 0 @ replicate 229 0x90 @ boot_gdt @ boot_idt" boot_tail i]
    by (simp add: boot_idt_def)
  from this [of 13] this [of 14] have "ex_block ! 510 = 0x55" "ex_block ! 511 = 0xaa" by (simp_all add: boot_tail_def)
  moreover have "length ex_block = 512" by (simp add: ex_block_def boot_tail_def boot_idt_def)
  ultimately show ?thesis
    by (simp add: boot_file_def ex_hdr_def minix_hdr_def MINIX_HEADER_LEN_def lb_def dword_of_def eval_nat_numeral)
qed

lemma ex_assembled: "assembled ex_lab ex_block"
proof -
  have "ex_block ! (200 + i) = 0" if "i < 6" for i
    using that nth_append_length_plus [of "replicate 200 0x90" _ i] by (simp add: ex_block_def nth_append)
  then show ?thesis by (simp add: assembled_def in_code_def ex_lab_def ex_block_def boot_tail_def boot_idt_def)
qed

lemma ex_regular: "regular bs (ex_file bs)"
  by (simp add: regular_def ex_file_def)

section \<open>The machine when main starts\<close>

text \<open>Memory with the image from its second sector on at \<^verbatim>\<open>KERNEL_START\<close>.\<close>

definition boot_ram :: "Byte list \<Rightarrow> nat \<Rightarrow> nat \<Rightarrow> Byte" where
  "boot_ram img f off = (let i = 4096 * f + off - 65536 in
     if 65536 \<le> 4096 * f + off \<and> i < length img - 512 then img ! (512 + i) else 0)"

lemma loaded_boot_ram:
  assumes "ram m = boot_ram img" and "length img < 2 ^ 24"
  shows "loaded img m"
  unfolding loaded_def
proof (intro allI impI)
  fix i assume i: "i < length img - 512"
  have "unat (of_nat i :: DWord) = i" using i assms(2) by simp
  then have u: "unat (KERNEL_START + of_nat i) = 65536 + i"
    using i assms(2) by (subst unat_add32) (simp_all add: KERNEL_START_def)
  have "4096 * page_of (KERNEL_START + of_nat i) + offset_of (KERNEL_START + of_nat i) = 65536 + i"
    unfolding unat_page_of unat_offset_of u by simp
  then show "kbyte m (KERNEL_START + of_nat i) = img ! (512 + i)"
    using i by (simp add: kbyte_def assms(1) boot_ram_def Let_def)
qed

definition ex_img :: "Byte list" where "ex_img = image ex_block ex_sys ex_usr"

definition ex_task :: task_struct where
  "ex_task = \<lparr>PID = 0, kernel_esp = 0, tstate = ST_RUN, quantum = 0, dir_pages_baseAddr = 0, parent = None,
     pending_unblocks = 0, stack = (\<lambda>_. 0)\<rparr>"

definition ex_mm :: mm where
  "ex_mm = \<lparr>phys_mem = (\<lambda>_. 0), dir_pages = (\<lambda>_ _. 0), pagusr_table = (\<lambda>_ _. 0), ram = boot_ram ex_img,
     cr0 = 1, cr3 = 0, tlb = Map.empty\<rparr>"

definition ex_kernel :: kernel where
  "ex_kernel = \<lparr>lists = (\<lambda>_. \<lparr>lnext = Null, lprev = Null\<rparr>), task = (\<lambda>_. ex_task), idle_task = None,
     quantum_ticks = 0, last_pid = 1, zeos_ticks = 0, tss = initial_tss ex_sy, mem = ex_mm, scr = init_screen,
     esp = 0, ebp_fork = 0, ebp_switch = 0, ebp = 0, eip = 0\<rparr>"

definition ex_gate :: Gate where
  "ex_gate = \<lparr>lowOffset = 0, segmentSelector = 0, gflags = 0, highOffset = 0\<rparr>"

definition ex_descriptor :: Descriptor where
  "ex_descriptor = \<lparr>d_limit = 0, lowBase = 0, midBase = 0, flags1 = 0, flags2 = 0, highBase = 0\<rparr>"

definition ex_machine :: machine where
  "ex_machine = \<lparr>ker = ex_kernel, idt = (\<lambda>_. ex_gate), idt_reg = \<lparr>r_limit = 0, r_base = 0\<rparr>, gdt = (\<lambda>_. ex_descriptor),
     gdt_reg = \<lparr>r_limit = 0, r_base = 0\<rparr>, ldt_reg = 0, task_reg = 0, eflags = 2, ds_reg = 0, es_reg = 0, fs_reg = 0, gs_reg = 0, ss_reg = 0,
     main_esp = 0, int_mask = 0xfb,
     user_cs = 0, user_eip = 0, user_ss = 0, user_esp = 0\<rparr>"

lemma ex_powered_on: "powered_on (ker ex_machine)"
  by (simp add: powered_on_def ex_machine_def ex_kernel_def ex_mm_def ex_task_def detached_def init_screen_def
      cursor_ok_def zeos_consts)

lemma ex_block_length: "length ex_block = 512"
  using ex_assembled by (simp add: assembled_def)

lemma ex_loaded: "loaded (image ex_block ex_sys ex_usr) (mem (ker ex_machine))"
  unfolding ex_img_def [symmetric]
proof (rule loaded_boot_ram)
  show "ram (mem (ker ex_machine)) = boot_ram ex_img" by (simp add: ex_machine_def ex_kernel_def ex_mm_def)
  have "length ex_img - 512 = 21"
    using arg_cong [OF image_tail [OF ex_block_length, of ex_sys ex_usr], of length]
    by (simp add: ex_img_def ex_sys_def ex_usr_def)
  then show "length ex_img < 2 ^ 24" by simp
qed

lemma ex_fits:
  "12 \<le> length ex_sys" "unat KERNEL_START + length ex_sys + length ex_usr \<le> L_USER_START"
  "length ex_usr \<le> PAGE_SIZE * (NUM_PAG_DATA + NUM_PAG_CODE)" "length ex_sys + length ex_usr < 2 ^ 24"
  by (simp_all add: ex_sys_def ex_usr_def zeos_consts)

lemma ex_image_ok: "image_ok (mem (ker ex_machine))"
  by (rule image_found(1) [OF ex_block_length ex_fits(1) ex_loaded ex_fits(2,3)])

section \<open>Booting from the disk\<close>

definition ex_disk :: memory where
  "ex_disk i = (if i < length ex_img then ex_img ! i else 0)"

text \<open>A machine whose BIOS reads what it is asked for and puts the dots on the screen, and whose
  keyboard controller is busy at the first look after each write and has a byte to be read at the
  second; the A20 line opens at the third look.\<close>

definition ex_int13 :: "bios_regs \<Rightarrow> memory \<Rightarrow> memory" where
  "ex_int13 r m a =
     (let n = unat (b_ax r AND 0xff); c = unat (drop_bit 8 (b_cx r)); s = unat (b_cx r AND 0xff);
          h = unat (drop_bit 8 (b_dx r)); p = linear (b_es r) (b_bx r)
      in if p \<le> a \<and> a < p + 512 * n then ex_disk (512 * ((2 * c + h) * 18 + s - 1) + (a - p)) else m a)"

definition ex_status :: "io list \<Rightarrow> Byte" where
  "ex_status tr = (let n = length (takeWhile is_in (rev tr)) in if n = 0 then 2 else if n = 1 then 1 else 0)"

definition ex_pc :: pc where
  "ex_pc = \<lparr>int10 = \<lambda>r m. (r, m(0xb8000 := ucast (b_ax r))), int13 = ex_int13,
     port_in = \<lambda>tr p. if p = 0x64 then ex_status tr else 0x55, a20_open = \<lambda>tr n. 2 \<le> n\<rparr>"

definition ex_bregs :: bios_regs where
  "ex_bregs = \<lparr>b_ax = 0, b_bx = 0, b_cx = 0, b_dx = 0, b_bp = 0, b_es = 0\<rparr>"

definition ex_sector :: memory where
  "ex_sector a = (if 0x7C00 \<le> a \<and> a < 0x7E00 then ex_disk (a - 0x7C00) else 0)"

lemma ex_settles: "settles ex_pc"
proof -
  have reads: "2 \<le> length (takeWhile is_in (rev (tr @ ins)))" if "list_all is_in ins" "2 \<le> length ins" for tr ins
  proof -
    have "takeWhile is_in (rev (tr @ ins)) = rev ins @ takeWhile is_in (rev tr)"
      unfolding rev_append using that(1) by (intro takeWhile_append2) (simp add: list_all_iff)
    then show ?thesis using that(2) by simp
  qed
  have "ex_status (tr @ ins) = 0" if "list_all is_in ins" "2 \<le> length ins" for tr ins
    using reads [OF that, of tr] by (auto simp: ex_status_def Let_def)
  then show ?thesis by (auto simp: settles_def ex_pc_def intro!: exI [of _ 2])
qed

lemma ex_standard: "standard_pc ex_disk ex_pc"
  unfolding standard_pc_def
proof (intro conjI ex_settles)
  show "reads_disk ex_disk ex_pc" by (simp add: reads_disk_def ex_pc_def ex_int13_def Let_def)
  show "video_keeps ex_pc" by (simp add: video_keeps_def ex_pc_def)
  show "opens_a20 ex_pc" by (auto simp: opens_a20_def ex_pc_def)
qed

lemma ex_first: "\<forall>i<512. ex_sector (0x7C00 + i) = ex_disk i"
  by (simp add: ex_sector_def)

lemma ex_on_disk: "on_disk (image ex_block ex_sys ex_usr) ex_disk"
  by (simp add: on_disk_def ex_disk_def ex_img_def)

text \<open>The machine the boot sector leaves.\<close>

definition ex_started :: "handover \<Rightarrow> machine" where
  "ex_started h = ex_machine\<lparr>ker := ex_kernel\<lparr>mem := ex_mm\<lparr>ram := (\<lambda>f j. h_mem h (4096 * f + j)), cr0 := h_cr0 h\<rparr>\<rparr>,
     gdt := (\<lambda>e. descriptor_at (h_mem h) (unat (r_base (h_gdt_reg h)) + 8 * e)), gdt_reg := h_gdt_reg h,
     idt_reg := h_idt_reg h\<rparr>"

lemma ex_started: "powered_on (ker (ex_started h))" "handed_over h (ex_started h)"
  using ex_powered_on by (simp_all add: ex_started_def handed_over_def powered_on_def ex_machine_def ex_kernel_def ex_mm_def)

section \<open>States of the running system\<close>

definition ex_booted :: machine where
  "ex_booted = the (main id ex_sy ex_ep ex_machine)"

text \<open>A kernel entry by task \<open>t\<close>.\<close>

definition entry_by :: "nat \<Rightarrow> kernel \<Rightarrow> kernel" where
  "entry_by t k = k\<lparr>esp := stack_addr ex_sy t 1000, ebp_fork := stack_addr ex_sy t 1000, ebp_switch := stack_addr ex_sy t 990\<rparr>"

lemma entered_entry: "t < NR_TASKS \<Longrightarrow> entered ex_sy (entry_by t k) t"
  by (auto simp: entered_def entry_by_def zeos_consts intro: exI [of _ "1000::nat"] exI [of _ "990::nat"])

lemma enter_entry: "on_cpu ex_sy k = t \<Longrightarrow> t < NR_TASKS \<Longrightarrow> enter ex_sy k (entry_by t k)"
  using entered_entry [of t k] by (simp add: enter_def) (auto simp: entry_by_def intro!: exI [of _ "stack (task k t)"])

lemma entered_fields [simp]:
  "task (entry_by t k) = task k" "quantum_ticks (entry_by t k) = quantum_ticks k" "last_pid (entry_by t k) = last_pid k"
  "mem (entry_by t k) = mem k" "ebp_fork (entry_by t k) = stack_addr ex_sy t 1000"
  by (simp_all add: entry_by_def)

lemma ex_main: "main id ex_sy ex_ep ex_machine = Some ex_booted" "kernel_ok ex_sy (ker ex_booted) boot_procs"
  "quantum_ticks (ker ex_booted) = 100" "last_pid (ker ex_booted) = 1" "PID (task (ker ex_booted) 1) = 1"
  "PID (task (ker ex_booted) 0) = 0" "pending_unblocks (task (ker ex_booted) 1) = 0"
proof -
  obtain M' where "main id ex_sy ex_ep ex_machine = Some M'" "kernel_ok ex_sy (ker M') boot_procs"
    "quantum_ticks (ker M') = 100" "last_pid (ker M') = 1" "PID (task (ker M') 1) = 1" "PID (task (ker M') 0) = 0"
    "pending_unblocks (task (ker M') 1) = pending_unblocks (task (ker ex_machine) 1)"
    using main_ok [OF ex_linked ex_powered_on ex_image_ok, of id ex_ep] by blast
  then show "main id ex_sy ex_ep ex_machine = Some ex_booted" "kernel_ok ex_sy (ker ex_booted) boot_procs"
    "quantum_ticks (ker ex_booted) = 100" "last_pid (ker ex_booted) = 1" "PID (task (ker ex_booted) 1) = 1"
    "PID (task (ker ex_booted) 0) = 0" "pending_unblocks (task (ker ex_booted) 1) = 0"
    by (simp_all add: ex_booted_def ex_machine_def ex_kernel_def ex_task_def)
qed

lemma ex_system_ok: "system_ok ex_sy (ker ex_booted) boot_procs"
  using ex_main(2,4,5) by (intro boot_system_ok)

text \<open>The first process enters the kernel and forks.\<close>

definition ex_k1 :: kernel where "ex_k1 = entry_by 1 (ker ex_booted)"
definition ex_k2 :: kernel where "ex_k2 = snd (the (sys_fork ex_sy ex_k1))"
definition ex_p2 :: procs where "ex_p2 = s_fork boot_procs"

lemma boot_fields: "running boot_procs = 1" "free boot_procs = 2 # [3..<10]" "ready boot_procs = []" "waiting boot_procs = []"
  "kids boot_procs p = []"
  by (simp_all add: boot_procs_def zeos_consts upt_rec)

lemma ex_p2_fields: "running ex_p2 = 1" "ready ex_p2 = [2]" "waiting ex_p2 = []" "free ex_p2 = [3..<10]" "kids ex_p2 1 = [2]"
  by (simp_all add: ex_p2_def s_fork_def boot_fields)

lemma ex_k1: "system_ok ex_sy ex_k1 boot_procs" "entered ex_sy ex_k1 1" "quantum_ticks ex_k1 = 100" "last_pid ex_k1 = 1"
  "PID (task ex_k1 1) = 1"
proof -
  have "on_cpu ex_sy (ker ex_booted) = 1" using on_cpu_running [OF ex_linked ex_main(2)] boot_fields(1) by simp
  then have en: "enter ex_sy (ker ex_booted) ex_k1" unfolding ex_k1_def by (intro enter_entry) (simp_all add: zeos_consts)
  show "system_ok ex_sy ex_k1 boot_procs" "entered ex_sy ex_k1 1"
    using enter_ok(1,2) [OF ex_linked ex_system_ok en] by (simp_all add: boot_fields(1))
  show "quantum_ticks ex_k1 = 100" "last_pid ex_k1 = 1" "PID (task ex_k1 1) = 1" using ex_main(3-5) by (simp_all add: ex_k1_def)
qed

lemma ex_k1_fork_frame: "ebp_fork ex_k1 = stack_addr ex_sy 1 1000"
  by (simp add: ex_k1_def)

text \<open>The child is in slot 2; PID 2 is skipped because it is the number of the slot.\<close>

lemma ex_k2: "sys_fork ex_sy ex_k1 = Some (3, ex_k2)" "system_ok ex_sy ex_k2 ex_p2" "entered ex_sy ex_k2 1"
  "PID (task ex_k2 2) = 3" "PID (task ex_k2 1) = 1" "PID (task ex_k2 0) = 0" "quantum_ticks ex_k2 = 100"
  "pending_unblocks (task ex_k2 2) = 0" "last_pid ex_k2 = 3" "ebp_switch ex_k2 = ebp_switch ex_k1"
proof -
  define T where "T pid = (task ex_k1)(2 := child_of ex_sy (task ex_k1 1) 1 2 pid 1000)" for pid
  obtain pid h m where f: "sys_fork ex_sy ex_k1 = Some (pid, ex_k1\<lparr>mem := m, last_pid := pid, task := T pid, lists := h\<rparr>)"
    "kernel_ok ex_sy (ex_k1\<lparr>mem := m, last_pid := pid, task := T pid, lists := h\<rparr>) ex_p2"
    "sint (last_pid ex_k1) < sint pid" "sint pid \<le> sint (last_pid ex_k1) + 2" "pid \<noteq> 2"
    using sys_fork_ok [OF ex_linked system_okD(1) [OF ex_k1(1)], of 2 "[3..<10]" 1000] ex_k1(2,4) ex_k1_fork_frame
    unfolding T_def ex_p2_def by (auto simp: boot_fields zeos_consts)
  have k2: "ex_k2 = ex_k1\<lparr>mem := m, last_pid := pid, task := T pid, lists := h\<rparr>" by (simp add: ex_k2_def f(1))
  have "sint pid \<noteq> 2"
  proof
    assume "sint pid = 2"
    then have "pid = 2" by (intro signed_word_eqI) simp
    then show False using f(5) by simp
  qed
  then have "sint pid = 3" using f(3,4) ex_k1(4) by simp
  then have pid: "pid = 3" by (intro signed_word_eqI) simp
  show "sys_fork ex_sy ex_k1 = Some (3, ex_k2)" using f(1) pid k2 by simp
  show "ebp_switch ex_k2 = ebp_switch ex_k1" by (simp add: k2)
  show en: "entered ex_sy ex_k2 1" using ex_k1(2) by (simp add: k2 entered_def)
  show P: "PID (task ex_k2 2) = 3" "PID (task ex_k2 1) = 1" "PID (task ex_k2 0) = 0" "quantum_ticks ex_k2 = 100" "last_pid ex_k2 = 3"
    "pending_unblocks (task ex_k2 2) = 0"
    using ex_k1(3-5) ex_main(6,7) pid by (simp_all add: k2 T_def child_of_def) (simp_all add: ex_k1_def)
  have "kernel_ok ex_sy ex_k2 ex_p2" using f(2) k2 by simp
  moreover have "pids_ok ex_k2 ex_p2" using P by (simp add: pids_ok_def ex_p2_fields)
  ultimately show "system_ok ex_sy ex_k2 ex_p2" by (simp add: system_ok_def)
qed

text \<open>Its quantum is spent; the next tick runs the child, which blocks.\<close>

definition ex_k3 :: kernel where "ex_k3 = ex_k2\<lparr>quantum_ticks := 0\<rparr>"
definition ex_k4 :: kernel where "ex_k4 = entry_by 2 (the (scheduler ex_sy ex_k3))"
definition ex_p4 :: procs where "ex_p4 = s_preempt ex_p2"
definition ex_k5 :: kernel where "ex_k5 = entry_by 1 (the (sys_block ex_sy ex_k4))"
definition ex_p5 :: procs where "ex_p5 = s_block ex_p4"

lemma ex_p4_fields: "running ex_p4 = 2" "ready ex_p4 = [1]" "waiting ex_p4 = []"
  by (simp_all add: ex_p4_def s_preempt_def to_ready_def dispatch_def ex_p2_fields)

lemma ex_p5_fields: "running ex_p5 = 1" "ready ex_p5 = []" "waiting ex_p5 = [2]" "kids ex_p5 1 = [2]"
  by (simp_all add: ex_p5_def s_block_def to_waiting_def dispatch_def ex_p4_fields)
    (use ex_p2_fields in \<open>simp add: ex_p4_def s_preempt_def to_ready_def dispatch_def\<close>)

lemma ex_k3: "system_ok ex_sy ex_k3 ex_p2" "entered ex_sy ex_k3 1" "quantum_ticks ex_k3 = 0" "task ex_k3 = task ex_k2"
proof -
  have k: "kernel_ok ex_sy ex_k2 ex_p2" by (rule system_okD(1) [OF ex_k2(2)])
  have "kernel_ok ex_sy ex_k3 ex_p2" unfolding ex_k3_def by (rule kernel_ok_cong [OF k]) (simp_all add: kernel_okD(5) [OF k])
  then show "system_ok ex_sy ex_k3 ex_p2" by (rule system_same [OF ex_k2(2)]) (simp_all add: ex_k3_def)
  show "entered ex_sy ex_k3 1" using ex_k2(3) by (simp add: ex_k3_def entered_def)
  show "quantum_ticks ex_k3 = 0" "task ex_k3 = task ex_k2" by (simp_all add: ex_k3_def)
qed

lemma enter_again:
  assumes "kernel_ok ex_sy k a" and "t = running a"
  shows "kernel_ok ex_sy (entry_by t k) a" "entered ex_sy (entry_by t k) (running a)"
proof -
  show "kernel_ok ex_sy (entry_by t k) a"
    by (rule kernel_ok_cong [OF assms(1)]) (simp_all add: entry_by_def kernel_okD(5) [OF assms(1)])
  show "entered ex_sy (entry_by t k) (running a)"
    using entered_entry kernel_okD(9) [OF assms(1)] assms(2) by simp
qed

lemma ex_k4: "kernel_ok ex_sy ex_k4 ex_p4" "entered ex_sy ex_k4 2" "PID (task ex_k4 1) = 1" "pending_unblocks (task ex_k4 2) = 0"
  "PID (task ex_k4 2) = 3"
proof -
  obtain k' where k': "scheduler ex_sy ex_k3 = Some k'" "kernel_ok ex_sy k' ex_p4"
    "task k' = (task ex_k3)(1 := (task ex_k3 1)\<lparr>kernel_esp := ebp_switch ex_k3\<rparr>)"
    using scheduler_switches [OF ex_linked system_okD(1) [OF ex_k3(1)]] ex_k3(2-4) ex_k2(4)
    unfolding ex_p4_def by (auto simp: ex_p2_fields)
  have k4: "ex_k4 = entry_by 2 k'" by (simp add: ex_k4_def k'(1))
  show "kernel_ok ex_sy ex_k4 ex_p4" "entered ex_sy ex_k4 2"
    using enter_again [OF k'(2), of 2] by (simp_all add: ex_p4_fields k4)
  show "PID (task ex_k4 1) = 1" "pending_unblocks (task ex_k4 2) = 0" "PID (task ex_k4 2) = 3"
    using ex_k2(4,5,8) by (simp_all add: k4 k'(3) ex_k3(4))
qed

lemma ex_k5: "kernel_ok ex_sy ex_k5 ex_p5" "entered ex_sy ex_k5 1" "PID (task ex_k5 2) = 3"
proof -
  obtain k' where k': "sys_block ex_sy ex_k4 = Some k'" "kernel_ok ex_sy k' ex_p5"
    "task k' = (task ex_k4)(2 := (task ex_k4 2)\<lparr>kernel_esp := ebp_switch ex_k4\<rparr>)"
    using sys_block_switches [OF ex_linked ex_k4(1)] ex_k4(2-4) ex_p5_fields(1)
    unfolding ex_p5_def by (auto simp: ex_p4_fields)
  have k5: "ex_k5 = entry_by 1 k'" by (simp add: ex_k5_def k'(1))
  show "kernel_ok ex_sy ex_k5 ex_p5" "entered ex_sy ex_k5 1"
    using enter_again [OF k'(2), of 1] by (simp_all add: ex_p5_fields k5)
  show "PID (task ex_k5 2) = 3" using ex_k4(5) by (simp add: k5 k'(3))
qed

text \<open>A clock display for the corner of the screen.\<close>

definition ex_clock :: "screen \<Rightarrow> screen" where "ex_clock = printc_xy 75 0 0x3A"

lemma ex_clock: "keeps_cursor ex_clock"
  by (simp add: keeps_cursor_def ex_clock_def printc_xy_cursor)

section \<open>More states\<close>

text \<open>The fork as a step of the machine.\<close>

definition ex_regs :: regs where "ex_regs = \<lparr>r_eax = 2, r_ebx = 7, r_ecx = 0, r_edx = 3\<rparr>"

lemma ex_step: "step ex_clock ex_sy (ker ex_booted) (Syscall ex_regs) ex_k2"
proof -
  have cpu: "on_cpu ex_sy (ker ex_booted) = 1" using on_cpu_running [OF ex_linked ex_main(2)] boot_fields(1) by simp
  then have "enter ex_sy (ker ex_booted) ex_k1" unfolding ex_k1_def by (intro enter_entry) (simp_all add: zeos_consts)
  moreover have "system_call_handler ex_sy ex_regs ex_k1 = Some (Returned 3 ex_k2)"
    using call_entries(2) [of ex_sy ex_regs ex_k1] ex_k2(1) by (simp add: ex_regs_def ret_def)
  ultimately show ?thesis using step.syscall [of ex_sy "ker ex_booted" ex_k1 ex_regs] cpu by fastforce
qed

lemma ex_path: "path (step ex_clock ex_sy) (ker ex_booted) [Syscall ex_regs] ex_k2"
  by (rule path_one) (rule ex_step)

lemma ex_parents: "parents ex_p2 = {0, 1, 2}" "live ex_p2 = {1, 2}"
  by (auto simp: parents_def live_def ex_p2_fields)

lemma ex_ordinary: "list_all ordinary [Syscall ex_regs]"
  by simp

lemma ex_small_pids: "small_pids ex_k2 ex_p2"
  using ex_k2(4-6) by (simp add: small_pids_def ex_parents)

text \<open>A process table that is full.\<close>

lemma fill_table:
  assumes "kernel_ok ex_sy k a" and "entered ex_sy k (running a)" and "running a \<noteq> 0"
    and "sint (last_pid k) + 2 * int (length (free a)) < 2 ^ 31 - 3"
  shows "\<exists>k' a'. kernel_ok ex_sy k' a' \<and> free a' = []"
  using assms
proof (induction "free a" arbitrary: k a)
  case Nil
  then show ?case by metis
next
  case (Cons n f)
  have f: "free a = n # f" using Cons.hyps(2) by simp
  obtain j where j: "ebp_fork k = stack_addr ex_sy (running a) j" "0 < j" "j < KERNEL_STACK_SIZE"
    using Cons.prems(2) by (auto simp: entered_def)
  have last: "sint (last_pid k) < 2 ^ 31 - 3" using Cons.prems(4) by simp
  obtain pid h m T where k': "kernel_ok ex_sy (k\<lparr>mem := m, last_pid := pid, task := T, lists := h\<rparr>) (s_fork a)"
    "sint pid \<le> sint (last_pid k) + 2"
    using sys_fork_ok [OF ex_linked Cons.prems(1-3) f last j] by blast
  have a': "free (s_fork a) = f" "running (s_fork a) = running a" by (simp_all add: s_fork_def f)
  show ?case
    by (rule Cons.hyps(1) [OF a'(1) [symmetric] k'(1)])
      (use Cons.prems(2-4) k'(2) in \<open>simp_all add: a' f entered_def\<close>)
qed

lemma ex_full: "\<exists>k a. kernel_ok ex_sy k a \<and> free a = []"
  using fill_table [OF system_okD(1) [OF ex_k1(1)]] ex_k1(2,4) by (simp add: boot_fields)

text \<open>The last process ends: only the idle task is left.\<close>

definition ex_p7 :: procs where "ex_p7 = s_exit boot_procs"

lemma ex_p7_fields: "running ex_p7 = 0" "ready ex_p7 = []"
  by (simp_all add: ex_p7_def s_exit_def to_free_def dispatch_def boot_fields)

lemma ex_idle: "\<exists>k. system_ok ex_sy k ex_p7 \<and> on_cpu ex_sy k = 0 \<and> small_pids k ex_p7"
proof -
  have ok: "kernel_ok ex_sy ex_k1 boot_procs" by (rule system_okD(1) [OF ex_k1(1)])
  have p0: "PID (task ex_k1 0) = 0" using ex_main(6) by (simp add: ex_k1_def)
  obtain k' where k': "sys_exit ex_sy ex_k1 = Some k'" "kernel_ok ex_sy k' ex_p7" "released ex_k1 1 k'"
    "\<forall>i. PID (task k' i) = PID (task ex_k1 i)"
    using sys_exit_ok [OF ex_linked ok] ex_k1(2) p0 ex_p7_fields(1) unfolding ex_p7_def by (auto simp: boot_fields)
  have "pids_ok k' ex_p7" using k'(3,4) p0 ex_k1(4) by (simp add: pids_ok_def ex_p7_fields released_def)
  then have "system_ok ex_sy k' ex_p7" using k'(2) by (simp add: system_ok_def)
  moreover have "on_cpu ex_sy k' = 0" using on_cpu_running [OF ex_linked k'(2)] ex_p7_fields(1) by simp
  moreover have "parents ex_p7 = {0}"
    by (auto simp: parents_def live_def ex_p7_def s_exit_def to_free_def dispatch_def boot_fields)
  then have "small_pids k' ex_p7" using k'(4) p0 by (simp add: small_pids_def)
  ultimately show ?thesis by blast
qed

text \<open>After many forks: the next child gets a PID of three digits.\<close>

definition ex_k8 :: kernel where "ex_k8 = ex_k1\<lparr>last_pid := 99\<rparr>"
definition ex_k9 :: kernel where "ex_k9 = (snd (the (sys_fork ex_sy ex_k8)))\<lparr>quantum_ticks := 0\<rparr>"

lemma ex_k8: "kernel_ok ex_sy ex_k8 boot_procs" "entered ex_sy ex_k8 1"
proof -
  have ok: "kernel_ok ex_sy ex_k1 boot_procs" by (rule system_okD(1) [OF ex_k1(1)])
  then have "\<forall>i\<in>parents boot_procs. pcb_ok ex_sy ex_k1 i" by (simp add: kernel_ok_def tables_ok_def)
  then have "\<forall>i\<in>parents boot_procs. pcb_ok ex_sy ex_k8 i" using ex_k1(4) by (fastforce simp: pcb_ok_def ex_k8_def)
  then show "kernel_ok ex_sy ex_k8 boot_procs"
    using ok by (simp add: kernel_ok_def tables_ok_def ex_k8_def)
  show "entered ex_sy ex_k8 1" using ex_k1(2) by (simp add: entered_def ex_k8_def)
qed

lemma ex_k9: "kernel_ok ex_sy ex_k9 ex_p2" "entered ex_sy ex_k9 1" "100 \<le> sint (PID (task ex_k9 2))" "quantum_ticks ex_k9 = 0"
proof -
  define T where "T pid = (task ex_k8)(2 := child_of ex_sy (task ex_k8 1) 1 2 pid 1000)" for pid
  have eb: "ebp_fork ex_k8 = stack_addr ex_sy 1 1000" "last_pid ex_k8 = 99" using ex_k1_fork_frame by (simp_all add: ex_k8_def)
  obtain pid h m where f: "sys_fork ex_sy ex_k8 = Some (pid, ex_k8\<lparr>mem := m, last_pid := pid, task := T pid, lists := h\<rparr>)"
    "kernel_ok ex_sy (ex_k8\<lparr>mem := m, last_pid := pid, task := T pid, lists := h\<rparr>) ex_p2" "sint (99 :: cint) < sint pid"
    using sys_fork_ok [OF ex_linked ex_k8(1), of 2 "[3..<10]" 1000] ex_k8(2) eb
    unfolding T_def ex_p2_def by (auto simp: boot_fields zeos_consts)
  have k9: "ex_k9 = ex_k8\<lparr>mem := m, last_pid := pid, task := T pid, lists := h, quantum_ticks := 0\<rparr>"
    by (simp add: ex_k9_def f(1))
  show "kernel_ok ex_sy ex_k9 ex_p2"
    unfolding k9 by (rule kernel_ok_cong [OF f(2)]) (use kernel_okD(5) [OF f(2)] in simp_all)
  show "entered ex_sy ex_k9 1" using ex_k8(2) by (simp add: entered_def k9)
  show "100 \<le> sint (PID (task ex_k9 2))" using f(3) by (simp add: k9 T_def child_of_def)
  show "quantum_ticks ex_k9 = 0" by (simp add: k9)
qed

text \<open>A local array of five bytes fits in the kernel stack of the entry.\<close>

lemma ex_vla: "vla_fits ex_sy ex_k1 5"
proof -
  have c: "current ex_sy ex_k1 = 1" by (rule current_entered [OF ex_linked ex_k1(2)])
  have "esp ex_k1 - task_addr ex_sy 1 = 4000" by (simp add: ex_k1_def entry_by_def stack_addr_def)
  then show ?thesis by (simp add: vla_fits_def c size_defs)
qed

text \<open>Every trap of the first process leaves room for the texts of \<^verbatim>\<open>user.c\<close>.\<close>

lemma ex_traps: "traps_in ex_sy 1 (entry_by 1)"
proof -
  have "vla_fits ex_sy (entry_by 1 k) 12" for k
  proof -
    have c: "current ex_sy (entry_by 1 k) = 1" by (rule current_entered [OF ex_linked entered_entry]) (simp add: zeos_consts)
    have "esp (entry_by 1 k) - task_addr ex_sy 1 = 4000" by (simp add: entry_by_def stack_addr_def)
    then show ?thesis by (simp add: vla_fits_def c size_defs del: One_nat_def)
  qed
  moreover have "enter ex_sy k (entry_by 1 k)" if "on_cpu ex_sy k = 1" for k
    using that by (rule enter_entry) (simp add: zeos_consts)
  ultimately show ?thesis by (simp add: traps_in_def)
qed

text \<open>The child with an unblock waiting for it.\<close>

definition ex_k10 :: kernel where
  "ex_k10 = ex_k4\<lparr>task := (task ex_k4)(2 := (task ex_k4 2)\<lparr>pending_unblocks := 1\<rparr>)\<rparr>"

lemma ex_k10: "kernel_ok ex_sy ex_k10 ex_p4" "entered ex_sy ex_k10 2" "pending_unblocks (task ex_k10 2) = 1"
  "PID (task ex_k10 1) = 1"
proof -
  show "kernel_ok ex_sy ex_k10 ex_p4"
    unfolding ex_k10_def by (rule kernel_ok_cong [OF ex_k4(1)]) (simp_all add: kernel_okD(5) [OF ex_k4(1)])
  show "entered ex_sy ex_k10 2" using ex_k4(2) by (simp add: entered_def ex_k10_def)
  show "pending_unblocks (task ex_k10 2) = 1" "PID (task ex_k10 1) = 1" using ex_k4(3) by (simp_all add: ex_k10_def)
qed

text \<open>The first process is preempted, and a key is released.\<close>

lemma ex_k3_frame: "ebp_switch ex_k3 = stack_addr ex_sy 1 990"
  using ex_k2(10) by (simp add: ex_k3_def) (simp add: ex_k1_def entry_by_def)

lemma ex_preempted: obtains k1 where "scheduler ex_sy ex_k3 = Some k1" "kernel_ok ex_sy k1 ex_p4"
  using scheduler_switches [OF ex_linked system_okD(1) [OF ex_k3(1)]] ex_k3(2-4) ex_k2(4)
  unfolding ex_p4_def by (auto simp: ex_p2_fields)

lemma ex_key_path:
  assumes "kernel_ok ex_sy k ex_p4"
  obtains k' where "path (step_without 1 ex_clock ex_sy) k [Key 0] k'"
proof -
  have cpu: "on_cpu ex_sy k = 2" using on_cpu_running [OF ex_linked assms] by (simp add: ex_p4_fields)
  have "enter ex_sy k (entry_by 2 k)" by (rule enter_entry [OF cpu]) (simp add: zeos_consts)
  then have "step ex_clock ex_sy k (Key 0) (entry_by 2 k)"
    by (rule step.key [where ports = "\<lambda>_. 0"]) (simp_all add: keyboard_service_def inb_def)
  then show thesis using cpu by (intro that [of "entry_by 2 k"] path_one) (simp add: step_without_def quiet_step_def test_key_def)
qed

text \<open>A user context that asks for its PID.\<close>

definition ex_cpu :: cpu where
  "ex_cpu = \<lparr>c_edx = 1, c_ecx = 2, c_ebx = 3, c_esi = 4, c_edi = 5, c_ebp = 6, c_eax = 20, c_ds = 0x2B, c_es = 0x2B, c_fs = 0,
     c_gs = 0, c_eip = 0x114000, c_cs = 0x23, c_eflags = 0x202, c_esp = 0x113ff0, c_ss = 0x2B\<rparr>"

end
