(* ===== verification/Spec2Isabelle.thy ===== *)
theory Spec2Isabelle
  imports Boot Bootsect Build Debug Entry Example Exit Fork Frames Interrupt Kernel_Inv Layout Libc Machine Mem_Inv Memory Paging Prelude Procs Program Refine Runs Sched Screen Sys Traces Types_H User Utils Write ZList
begin

text \<open>
  This is a verification of ZeOS, a small multiprocess kernel for the 32-bit PC, together with
  the host program that builds its disk image and the user program that runs on it. All file
  names below are relative to \<^verbatim>\<open>src/\<close>.

  \<^bold>\<open>The program.\<close> \<^verbatim>\<open>build.c\<close> writes the image. The boot sector, \<^verbatim>\<open>bootsect.S\<close>, loads it through
  the BIOS and jumps to \<^verbatim>\<open>main\<close> of \<^verbatim>\<open>system.c\<close>, which programs the descriptor tables
  (\<^verbatim>\<open>mm.c\<close>, \<^verbatim>\<open>interrupt.c\<close>), sets up frames, page tables and the two first
  tasks (\<^verbatim>\<open>mm.c\<close>, \<^verbatim>\<open>sched.c\<close>), copies the user program to its pages and drops to
  user mode. From then on the kernel runs only on interrupts: \<^verbatim>\<open>clock_service\<close> drives the
  round-robin \<^verbatim>\<open>scheduler\<close>, \<^verbatim>\<open>keyboard_service\<close> shows keys, and
  \<^verbatim>\<open>system_call_handler\<close> of \<^verbatim>\<open>entry.S\<close> calls the routines of \<^verbatim>\<open>sys.c\<close>.
  Processes live in ten slots of the array \<^verbatim>\<open>task\<close> and in the intrusive lists of
  \<^verbatim>\<open>list.c\<close>: ready, blocked, free, and one list of children per process.

  \<^bold>\<open>How it is modelled.\<close> Words have the machine's width; the C \<^verbatim>\<open>int\<close> is a 32-bit word
  read with \<^const>\<open>sint\<close>. The state is explicit: a list node is reached through the type of
  node addresses \<open>lptr\<close>, and \<open>lptr_addr_inj\<close> in \<open>Layout\<close> shows that different nodes have
  different addresses in the linked kernel; a task structure is reached through its slot, and
  \<open>list_entry\<close> and \<open>current\<close> compute slots from addresses as the macros do; physical memory is
  a function of frame and offset, behind page tables and a TLB that keeps a translation until
  \<^verbatim>\<open>cr3\<close> is written. A result \<^const>\<open>None\<close> means that the code faults, leaves an array,
  or does not end. Leaving an array is undefined in C, so the model says nothing of what follows; the
  compiled program may well go on. This matters for the three bytes through which
  \<^verbatim>\<open>sched_next_rr\<close> prints a PID, the eight of the page-fault report and the array of
  \<^verbatim>\<open>sys_write\<close>, whose size the caller chooses before it is checked. The record \<open>symbols\<close> holds the addresses the linker chooses, and \<open>linked\<close>
  what the linker script guarantees of them. \<open>entered\<close> says of the stack and frame pointers of
  a kernel entry only that they lie in the kernel stack of the process that enters, and the entry
  may leave any words there, because the frames are the compiler's choice.

  \<^bold>\<open>The theories.\<close>

  \<^item> \<open>Prelude\<close>: word types, the constants of \<^verbatim>\<open>include/mm_address.h\<close> and
    \<^verbatim>\<open>include/sched.h\<close>, collections of rewrite rules, lemmas on words, options and lists.

  \<^item> \<open>ZList\<close>: \<^verbatim>\<open>list.c\<close>, \<^verbatim>\<open>include/list.h\<close>. \<open>dll\<close> relates a ring to a HOL list;
    the locale \<open>queue_ops\<close> is the contract of a family of disjoint queues, interpreted on the
    rings.

  \<^item> \<open>Types_H\<close>, \<open>Layout\<close>: \<^verbatim>\<open>include/types.h\<close>, \<^verbatim>\<open>include/segment.h\<close>, and where the
    objects of the kernel lie.

  \<^item> \<open>Libc\<close>: \<^verbatim>\<open>itoa\<close>, \<^verbatim>\<open>itoa_hex\<close>, \<^verbatim>\<open>strlen\<close> and \<^verbatim>\<open>perror\<close> on
    arrays of bytes, against positional notation.

  \<^item> \<open>Screen\<close>: \<^verbatim>\<open>io.c\<close>, \<^verbatim>\<open>devices.c\<close>; the locale \<open>char_device\<close> is the contract of
    the routines that print.

  \<^item> \<open>Frames\<close>: the frame allocator of \<^verbatim>\<open>mm.c\<close> and its contract, the locale
    \<open>frame_allocator\<close>.

  \<^item> \<open>Paging\<close>, \<open>Memory\<close>: the rest of \<^verbatim>\<open>mm.c\<close> that maps pages, the translation of
    addresses, and the accounting of frames.

  \<^item> \<open>Utils\<close>: \<^verbatim>\<open>utils.c\<close>. The copy routines take load and store operations as arguments;
    the locales \<open>byte_memory\<close> and \<open>tracked_memory\<close> say what they need of them, with
    interpretations on paged memory in \<open>Memory\<close> and on user memory with a local array in
    \<open>Write\<close>.

  \<^item> \<open>Sched\<close>, \<open>Sys\<close>, \<open>Interrupt\<close>, \<open>Debug\<close>: \<^verbatim>\<open>sched.c\<close>, \<^verbatim>\<open>sys.c\<close>,
    \<^verbatim>\<open>interrupt.c\<close> with the dispatch of \<^verbatim>\<open>entry.S\<close>, and the routines that print
    queues and stacks.

  \<^item> \<open>Procs\<close>: the specification of the process manager, a record of a running slot, three
    queues and the children of each process, with the moves preempt, block, unblock, fork and
    exit.

  \<^item> \<open>Mem_Inv\<close>, \<open>Kernel_Inv\<close>: the invariant \<open>kernel_ok\<close>, which relates a kernel state to a
    process table, and the context switch.

  \<^item> \<open>Refine\<close>, \<open>Fork\<close>, \<open>Exit\<close>, \<open>Write\<close>: each routine implements its move and keeps the
    invariant, or returns its error and changes nothing.

  \<^item> \<open>Boot\<close>: \<^verbatim>\<open>system.c\<close>, \<^verbatim>\<open>hardware.c\<close>, and that \<^verbatim>\<open>main\<close> establishes the
    invariant and reaches user mode (\<open>user_mode\<close>).

  \<^item> \<open>Traces\<close>, \<open>Machine\<close>, \<open>Runs\<close>: the step relation of the running system, labelled with
    events (clock ticks, keys, system calls, user loads and stores), the moves of the
    specification with the same labels, the locale \<open>simulation\<close> with trace inclusion, its
    interpretation on both for the events that are not test keys (\<open>ordinary\<close>), the order in which
    clock ticks serve the ready processes, and that the saved context of a process is kept until it
    runs again (\<open>context_survives\<close>).

  \<^item> \<open>Entry\<close>: the entry and exit code of \<^verbatim>\<open>entry.S\<close>, \<^verbatim>\<open>task_switch\<close> around
    \<^verbatim>\<open>inner_task_switch\<close> and \<^verbatim>\<open>ret_from_fork\<close> on the kernel stack, word by word, with the registers of the user context as the record \<open>cpu\<close>.

  \<^item> \<open>Build\<close>: \<^verbatim>\<open>build.c\<close>, with every call of \<^verbatim>\<open>die\<close> as an error value, and that
    \<^verbatim>\<open>main\<close> finds what it wrote.

  \<^item> \<open>Bootsect\<close>: \<^verbatim>\<open>bootsect.S\<close> in 16-bit arithmetic, from its first instruction to the jump, with
    its variables \<^verbatim>\<open>sread\<close>, \<^verbatim>\<open>head\<close> and \<^verbatim>\<open>track\<close> in the memory of the sector: that
    its load loop and its waits end, what it leaves in memory and in the interrupt controllers, and
    the way from the disk to user mode.

  \<^item> \<open>User\<close>, \<open>Program\<close>: \<^verbatim>\<open>wrappers.S\<close>, \<^verbatim>\<open>user.c\<close>, the dispatch of every value of
    \<^verbatim>\<open>eax\<close>, and the run of the user program on the kernel, in the parent and in the child.

  \<^item> \<open>Example\<close>: a concrete linked kernel, image and machine, and states reached from it, on
    which the properties with hypotheses are instantiated.

  \<^bold>\<open>What is shown.\<close> Below are the properties. From power-on every state of every run without the
  test keys satisfies the invariant, every such step is a move the specification allows for its event and leaves the
  memory and the saved contexts of the other processes alone; the individual properties of the
  routines follow, with their error returns and, for a fork, both returns to user mode; then
  scheduling order and progress, the protection of memory and the accounting of frames, the way of
  the image from \<^verbatim>\<open>build\<close> over the boot sector to the user pages and what the user program then
  does, the lists, the allocator, the
  saved registers, copying, printing and the descriptor tables. Some of them state what the code does where it deviates from its
  purpose: the call number 21, the argument of \<^verbatim>\<open>unblock\<close>, PIDs of three digits, the page
  after the user area, the size of the array of \<^verbatim>\<open>sys_write\<close>, negative numbers, the array of
  the page-fault report and the test keys.

  \<^bold>\<open>Loops.\<close> Loops with a bound are recursive functions with a termination proof. Loops over
  rings, the PID loop of \<^verbatim>\<open>sys_fork\<close> and the load loop of the boot sector are partial
  functions, shown to return on every ring, for every PID and for every image of at most 512 KB; so
  is the wait for the A20 line, shown to return when the line opens and not to return when it never
  does; the loop of \<^verbatim>\<open>cpu_idle\<close> is one that is shown not to return. There is no fuel.

  \<^bold>\<open>Assumptions on code that is not in the repository.\<close> \<^verbatim>\<open>zeos_show_clock\<close> of
  \<^verbatim>\<open>libzeos.a\<close> is a parameter that keeps the cursor on the screen (\<open>keeps_cursor\<close>);
  \<^verbatim>\<open>set_handlers\<close> is an arbitrary function on the interrupt table. What the boot
  sector finds around it is the parameter record \<open>pc\<close>: a disk service that reads the sectors it is
  asked for (\<open>reads_disk\<close>), a video service that leaves the loaded image alone (\<open>video_keeps\<close>), a
  keyboard controller that comes to rest when it is only read (\<open>settles\<close>) and opens the A20 line
  when it is told to (\<open>opens_a20\<close>); \<open>standard_pc\<close> is all four, and \<open>ex_pc\<close> in \<open>Example\<close> is such a
  machine. What \<^verbatim>\<open>inb\<close> reads is a parameter of the keyboard service. The kernel links \<^verbatim>\<open>itoa\<close>
  from \<^verbatim>\<open>libzeos.a\<close>, the user program from \<^verbatim>\<open>libc.c\<close>; the archive holds the compiled form of the
  latter, and the model has one definition for both.

  \<^bold>\<open>Runs.\<close> The step relation has a step for every key, the test keys \<^verbatim>\<open>d\<close>, \<^verbatim>\<open>n\<close> and
  \<^verbatim>\<open>c\<close> included, but those switch context behind the scheduler's back and break the queues, as a
  property of its own shows; the properties of runs are about runs without them and say so. There is
  no step for a page fault, whose routine never returns, and none for an access outside an array: a
  run ends there. The step relation has no nested interrupts either: all four gates are interrupt
  gates, the one for system calls included, so the kernel runs with interrupts off.

  \<^bold>\<open>Not modelled.\<close> A clock interrupt in the few instructions of \<^verbatim>\<open>main\<close> between
  \<^verbatim>\<open>enable_int\<close> and the return to user mode; the words \<^verbatim>\<open>bootsect.S\<close> pushes on its own stack, which lies above its sector;
  the binary libraries, linker scripts and Makefile;
  \<^verbatim>\<open>include/stats.h\<close> (unused); the loop of the page-fault routine after its report; what the
  compiler keeps in the frames of the C functions between the entry code and the context switch;
  and messages of \<^verbatim>\<open>build\<close> on standard error.
\<close>

section \<open>Properties\<close>

text \<open>
  \<^bold>\<open>C1.\<close> Let the machine be as the boot loader leaves it, and let \<^verbatim>\<open>main\<close> run. After every
  run of clock interrupts, keys other than the test keys \<^verbatim>\<open>d\<close>, \<^verbatim>\<open>n\<close> and
  \<^verbatim>\<open>c\<close>, system calls and user loads and stores, the queues, control blocks, page tables,
  frames, TLB and screen cursor satisfy the invariant \<open>system_ok\<close> for a process table that the
  specification reaches from the boot table with the same events. A run ends at the first page
  fault, whose service never returns, and at the first access outside an array, which C leaves
  undefined.
\<close>

theorem boot_then_run_safe:
  assumes "linked sy" and "powered_on (ker M)" and "image_ok (mem (ker M))" and "keeps_cursor show_clock"
    and "main sh sy ep M = Some M'" and "path (step show_clock sy) (ker M') es k" and "list_all ordinary es"
  shows "\<exists>a. path move boot_procs es a \<and> system_ok sy k a"
  using boot_path_ok [OF assms] by blast

theorem boot_then_run_safe_witness: "\<exists>a. path move boot_procs [Syscall ex_regs] a \<and> system_ok ex_sy ex_k2 a"
  by (rule boot_then_run_safe [OF ex_linked ex_powered_on ex_image_ok ex_clock ex_main(1) ex_path ex_ordinary])

text \<open>
  \<^bold>\<open>C2.\<close> Simulation and isolation: from a state that satisfies the invariant for the process table
  \<open>a\<close>, every step (a clock tick, a key other than the test keys, a system call with any register
  contents, a user load or store that does not fault) ends in a state that satisfies it for the table after a move the specification
  allows for this event: the clock may only preempt, each system call only do what its number
  says, keys and user accesses nothing at all. The data pages of every process other than the
  running one keep their frames and their contents, and so do their kernel stacks and saved stack
  pointers.
\<close>

theorem step_refines:
  assumes "linked sy" and "keeps_cursor show_clock" and "system_ok sy k a" and "step show_clock sy k e k'"
    and "ordinary e"
  shows "\<exists>a'. move a e a' \<and> system_ok sy k' a' \<and> undisturbed (live a - {running a}) (mem k) (mem k') \<and>
    contexts_kept (parents a - {running a}) k k'"
  using step_follows [OF assms] unfolding follows_def by blast

theorem step_refines_witness:
  "\<exists>a'. move boot_procs (Syscall ex_regs) a' \<and> system_ok ex_sy ex_k2 a' \<and>
    undisturbed (live boot_procs - {running boot_procs}) (mem (ker ex_booted)) (mem ex_k2) \<and>
    contexts_kept (parents boot_procs - {running boot_procs}) (ker ex_booted) ex_k2"
  by (rule step_refines [OF ex_linked ex_clock ex_system_ok ex_step]) simp

text \<open>
  \<^bold>\<open>C3.\<close> \<^verbatim>\<open>sys_fork\<close> with a free slot: it succeeds; the child in the first free slot has the
  parent's control block and kernel stack except for its directory, PID, parent and the frame
  that resumes at \<^verbatim>\<open>ret_from_fork\<close>; the PID is larger than every PID given before; its
  data pages hold the same bytes as the parent's, in frames of their own; the data pages of
  all processes, the parent included, are as before; and the invariant holds for the process
  table with the child last in the ready queue and last among the parent's children.
\<close>

theorem fork_creates_child:
  assumes "linked sy" and "kernel_ok sy k a" and "entered sy k (running a)" and "running a \<noteq> 0"
    and "free a = n # f" and "sint (last_pid k) < 2 ^ 31 - 3"
    and "ebp_fork k = stack_addr sy (running a) j" and "0 < j" and "j < KERNEL_STACK_SIZE"
  shows "\<exists>pid h m. sys_fork sy k = Some (pid, k\<lparr>mem := m, last_pid := pid,
      task := (task k)(n := child_of sy (task k (running a)) (running a) n pid j), lists := h\<rparr>) \<and>
    kernel_ok sy (k\<lparr>mem := m, last_pid := pid,
      task := (task k)(n := child_of sy (task k (running a)) (running a) n pid j), lists := h\<rparr>) (s_fork a) \<and>
    sint (last_pid k) < sint pid \<and> same_space (mem k) (running a) m n \<and> undisturbed (live a) (mem k) m"
  using sys_fork_ok [OF assms] by blast

theorem fork_creates_child_witness:
  "\<exists>pid h m. sys_fork ex_sy ex_k1 = Some (pid, ex_k1\<lparr>mem := m, last_pid := pid,
      task := (task ex_k1)(2 := child_of ex_sy (task ex_k1 1) 1 2 pid 1000), lists := h\<rparr>) \<and>
    kernel_ok ex_sy (ex_k1\<lparr>mem := m, last_pid := pid,
      task := (task ex_k1)(2 := child_of ex_sy (task ex_k1 1) 1 2 pid 1000), lists := h\<rparr>) (s_fork boot_procs) \<and>
    sint (last_pid ex_k1) < sint pid \<and> same_space (mem ex_k1) 1 m 2 \<and> undisturbed (live boot_procs) (mem ex_k1) m"
  using fork_creates_child [OF ex_linked system_okD(1) [OF ex_k1(1)], of 2 "[3..<10]" 1000] ex_k1(2,4) ex_k1_fork_frame
  by (simp add: boot_fields zeos_consts)

text \<open>
  \<^bold>\<open>C4.\<close> From the trap of the parent to both returns. The entry code saves the registers of the
  user context on the kernel stack of the parent and calls \<^verbatim>\<open>sys_fork\<close>; the parent goes
  back to the handler and to user mode with the new PID in \<^verbatim>\<open>eax\<close> and every other register
  as it was. Whatever happens until a context switch first resumes the child, the test keys
  apart, it starts in \<^verbatim>\<open>ret_from_fork\<close>, goes back to the same place in the handler and to user mode with 0 in \<^verbatim>\<open>eax\<close> and every other register as in the parent.
\<close>

theorem fork_returns_twice:
  assumes "linked sy" and "keeps_cursor show_clock" and "system_ok sy k a" and "running a \<noteq> 0"
    and "Suc d < KERNEL_STACK_SIZE" and "free a = n # f"
  shows "\<exists>k1 pid k'. call_entry sy c ra d k = Some k1 \<and> sys_fork sy k1 = Some (pid, k') \<and> sint (last_pid k) < sint pid \<and>
    call_exit sy (running a) (ebp_fork k1) pid c' k' = Some (ra, c\<lparr>c_eax := pid\<rparr>) \<and>
    (\<forall>es k2. path (step_without n show_clock sy) k' es k2 \<longrightarrow> (\<exists>k3. resume sy n k2 = Some k3 \<and>
      eip k3 = a_ret_from_fork sy \<and> fork_exit sy n c' k3 = Some (ra, c\<lparr>c_eax := 0\<rparr>)))"
  by (rule fork_twice [OF assms])

theorem fork_returns_twice_witness:
  "\<exists>k1 pid k' k3. call_entry ex_sy ex_cpu 0x10450 900 (ker ex_booted) = Some k1 \<and> sys_fork ex_sy k1 = Some (pid, k') \<and>
    call_exit ex_sy 1 (ebp_fork k1) pid ex_cpu k' = Some (0x10450, ex_cpu\<lparr>c_eax := pid\<rparr>) \<and>
    resume ex_sy 2 k' = Some k3 \<and> fork_exit ex_sy 2 ex_cpu k3 = Some (0x10450, ex_cpu\<lparr>c_eax := 0\<rparr>)"
proof -
  have "Suc 900 < KERNEL_STACK_SIZE" "running boot_procs \<noteq> 0" by (simp_all add: KERNEL_STACK_SIZE_def boot_fields)
  from fork_returns_twice [OF ex_linked ex_clock ex_system_ok this(2,1) boot_fields(2), of ex_cpu "0x10450" ex_cpu]
  show ?thesis unfolding boot_fields(1) using path_nil [of "step_without 2 ex_clock ex_sy"] by blast
qed

text \<open>
  \<^bold>\<open>C5.\<close> \<^verbatim>\<open>main\<close> of \<^verbatim>\<open>user.c\<close>, run by a process that is not preempted on the way, through the
  wrappers, the dispatch and the service routines. It prints the eleven bytes of its first
  text and forks. With a free slot the fork gives the PID of the new child, larger than all
  before, and the process table is that of the specification; without one it gives -1 and the
  twelve bytes of the second text are printed as well. In both cases the array then holds the
  decimal numeral of the PID of the process. The child, in any state in which it runs, formats
  its own PID and prints nothing.
\<close>

theorem user_program_runs:
  assumes "linked sy" and "system_ok sy k a" and "running a \<noteq> 0" and "traps_in sy (running a) ent"
    and "11 \<le> length buff" and "in_user_area msg1 11" and "in_user_area msg2 12"
  shows "(\<exists>pid buff' k'. user_main sy ent msg1 msg2 rs buff k = Some (pid, PID (task k (running a)), buff', k') \<and>
    shows_number (PID (task k (running a))) buff' \<and>
    (if free a = [] then pid = -1 \<and> system_ok sy k' a \<and>
       port_e9 (scr k') = port_e9 (scr k) @ user_text sy (mem k) msg1 11 @ user_text sy (mem k) msg2 12
     else sint (last_pid k) < sint pid \<and> PID (task k' (hd (free a))) = pid \<and> system_ok sy k' (s_fork a) \<and>
       port_e9 (scr k') = port_e9 (scr k) @ user_text sy (mem k) msg1 11)) \<and>
    (\<exists>buff' k'. user_after_fork sy ent msg2 rs buff 0 k = Some (PID (task k (running a)), buff', k') \<and>
      shows_number (PID (task k (running a))) buff' \<and> system_ok sy k' a \<and> port_e9 (scr k') = port_e9 (scr k))"
  using program_runs [OF assms, of rs] after_fork_runs [OF assms(1-5,7), of rs 0] by (intro conjI) auto

theorem user_program_runs_witness:
  "\<exists>pid buff' k'. user_main ex_sy (entry_by 1) 0x100000 0x100010 ex_regs (replicate 24 0) (ker ex_booted) = Some (pid, 1, buff', k') \<and>
    shows_number 1 buff' \<and> 1 < sint pid \<and> PID (task k' 2) = pid \<and> system_ok ex_sy k' (s_fork boot_procs) \<and>
    port_e9 (scr k') = port_e9 (scr (ker ex_booted)) @ user_text ex_sy (mem (ker ex_booted)) 0x100000 11"
proof -
  have r: "running boot_procs \<noteq> 0" by (simp add: boot_fields)
  have area: "in_user_area 0x100000 11" "in_user_area 0x100010 12"
    by (simp_all add: in_user_area_def access_ok_pages unat_page_of zeos_consts)
  have b: "11 \<le> length (replicate 24 (0 :: Byte))" by simp
  have t: "traps_in ex_sy (running boot_procs) (entry_by 1)" unfolding boot_fields(1) by (rule ex_traps)
  from user_program_runs [OF ex_linked ex_system_ok r t b area, of ex_regs] show ?thesis
    using ex_main(4,5) unfolding boot_fields by simp
qed

text \<open>
  \<^bold>\<open>C6.\<close> \<^verbatim>\<open>sys_exit\<close> of a process whose successor has a PID of at most two digits: it returns in
  the context of the head of the ready queue, or of the idle task; the invariant holds for the
  table in which the process has left its parent's list, its children belong to the idle task
  and its slot is the last free one; exactly its data frames are added to the available
  frames; no data page of another process moves and no byte of memory changes; and every PID
  is as before.
\<close>

theorem exit_releases:
  assumes "linked sy" and "kernel_ok sy k a" and "entered sy k (running a)" and "running a \<noteq> 0"
    and "sint (PID (task k (running (s_exit a)))) < 100"
  shows "\<exists>k'. sys_exit sy k = Some k' \<and> kernel_ok sy k' (s_exit a) \<and> ram (mem k') = ram (mem k) \<and>
    avail_frames (phys_mem (mem k')) =
      avail_frames (phys_mem (mem k)) \<union> data_frame (mem k) (running a) ` {..<NUM_PAG_DATA} \<and>
    (\<forall>i p. i = running a \<or> data_frame (mem k') i p = data_frame (mem k) i p) \<and>
    (\<forall>i. PID (task k' i) = PID (task k i))"
  using sys_exit_ok [OF assms] by (auto simp: released_def)

theorem exit_releases_witness:
  "\<exists>k'. sys_exit ex_sy ex_k2 = Some k' \<and> kernel_ok ex_sy k' (s_exit ex_p2) \<and> ram (mem k') = ram (mem ex_k2) \<and>
    avail_frames (phys_mem (mem k')) =
      avail_frames (phys_mem (mem ex_k2)) \<union> data_frame (mem ex_k2) 1 ` {..<NUM_PAG_DATA} \<and>
    (\<forall>i p. i = 1 \<or> data_frame (mem k') i p = data_frame (mem ex_k2) i p) \<and>
    (\<forall>i. PID (task k' i) = PID (task ex_k2 i))"
  using exit_releases [OF ex_linked system_okD(1) [OF ex_k2(2)]] ex_k2(3,4)
  by (simp add: ex_p2_fields s_exit_def to_free_def dispatch_def)

text \<open>
  \<^bold>\<open>C7.\<close> \<^verbatim>\<open>scheduler\<close> when the tick spends the quantum and the ready queue is not empty, with a PID
  of at most two digits at its head: it saves the stack pointer of the running process in its control block, puts the process at the
  tail of the ready queue and resumes the head of the queue: its directory is in
  \<^verbatim>\<open>cr3\<close>, the TLB is flushed, \<^verbatim>\<open>esp0\<close> is in its kernel stack and
  \<^verbatim>\<open>ebp\<close> and \<^verbatim>\<open>eip\<close> are what it saved there.
\<close>

theorem expired_quantum_switches:
  assumes "linked sy" and "kernel_ok sy k a" and "entered sy k (running a)"
    and "sint (PID (task k (hd (ready a)))) < 100" and "ready a \<noteq> []" and "sint (quantum_ticks k - 1) < 0"
  shows "\<exists>k' j. scheduler sy k = Some k' \<and> kernel_ok sy k' (s_preempt a) \<and>
    task k' = (task k)(running a := (task k (running a))\<lparr>kernel_esp := ebp_switch k\<rparr>) \<and>
    mem k' = set_cr3 (dir_addr sy (hd (ready a))) (mem k) \<and>
    esp0 (tss k') = stack_addr sy (hd (ready a)) (KERNEL_STACK_SIZE - 1) \<and>
    kernel_esp (task k (hd (ready a))) = stack_addr sy (hd (ready a)) j \<and>
    esp k' = stack_addr sy (hd (ready a)) (j + 2) \<and>
    ebp k' = stack (task k (hd (ready a))) j \<and> eip k' = stack (task k (hd (ready a))) (j + 1)"
proof -
  have "partition_ok a" "ready a = hd (ready a) # tl (ready a)" using assms(2,5) by (simp_all add: kernel_ok_def)
  then have ne: "hd (ready a) \<noteq> running a"
    using placed_facts(1) [of a] by (auto simp: partition_ok_def) (metis list.set_intros(1))
  show ?thesis using scheduler_switches [OF assms] ne by (auto simp: switched_def)
qed

theorem expired_quantum_switches_witness:
  "\<exists>k' j. scheduler ex_sy ex_k3 = Some k' \<and> kernel_ok ex_sy k' (s_preempt ex_p2) \<and>
    task k' = (task ex_k3)(1 := (task ex_k3 1)\<lparr>kernel_esp := ebp_switch ex_k3\<rparr>) \<and>
    mem k' = set_cr3 (dir_addr ex_sy 2) (mem ex_k3) \<and>
    esp0 (tss k') = stack_addr ex_sy 2 (KERNEL_STACK_SIZE - 1) \<and>
    kernel_esp (task ex_k3 2) = stack_addr ex_sy 2 j \<and> esp k' = stack_addr ex_sy 2 (j + 2) \<and>
    ebp k' = stack (task ex_k3 2) j \<and> eip k' = stack (task ex_k3 2) (j + 1)"
  using expired_quantum_switches [OF ex_linked system_okD(1) [OF ex_k3(1)]] ex_k3(2-4) ex_k2(4)
  by (simp add: ex_p2_fields)

text \<open>
  \<^bold>\<open>C8.\<close> Context switches are transparent. Let the scheduler preempt the running process, and let any
  events follow while it is not on the processor: ticks, keys other than the test keys, and system
  calls, forks and exits of other processes. When it is resumed, \<^verbatim>\<open>ebp\<close> and \<^verbatim>\<open>eip\<close>
  are the words at the frame of \<^verbatim>\<open>inner_task_switch\<close> in its kernel stack as it was at the
  preemption, and the stack pointer is above them. If \<^verbatim>\<open>task_switch\<close> was called with the
  registers \<open>c\<close> and its frame ends there, the rest of it gives \<^verbatim>\<open>ebx\<close>, \<^verbatim>\<open>esi\<close>,
  \<^verbatim>\<open>edi\<close> and \<^verbatim>\<open>ebp\<close> back and returns to its caller.
\<close>

theorem preempted_process_resumes:
  assumes "linked sy" and "keeps_cursor show_clock" and "system_ok sy k a" and "entered sy k (running a)"
    and "ready a \<noteq> []" and "sint (quantum_ticks k - 1) < 0" and "scheduler sy k = Some k1"
    and "ebp_switch k = stack_addr sy (running a) j" and "Suc j < KERNEL_STACK_SIZE"
    and "path (step_without (running a) show_clock sy) k1 es k2"
  shows "resume sy (running a) k2 = Some (k2\<lparr>esp := stack_addr sy (running a) (Suc (Suc j)),
      ebp := stack (task k (running a)) j, eip := stack (task k (running a)) (Suc j)\<rparr>) \<and>
    (\<forall>base c t ra ra' st i c'. switch_entry base c t ra ra' (st, i) = Some (stack (task k (running a)), j) \<and> i \<le> KERNEL_STACK_SIZE \<longrightarrow>
      switch_exit c' (stack (task k2 (running a)), j + 2) =
        Some (c'\<lparr>c_ebx := c_ebx c, c_esi := c_esi c, c_edi := c_edi c, c_ebp := c_ebp c, c_eip := ra\<rparr>,
          stack (task k (running a)), i - 1))"
  unfolding preempted_resumes(2) [OF assms] using preempted_resumes(1) [OF assms] switch_restores by blast

theorem preempted_process_resumes_witness:
  "\<exists>k1 k2. scheduler ex_sy ex_k3 = Some k1 \<and> path (step_without 1 ex_clock ex_sy) k1 [Key 0] k2 \<and>
    resume ex_sy 1 k2 = Some (k2\<lparr>esp := stack_addr ex_sy 1 992, ebp := stack (task ex_k3 1) 990, eip := stack (task ex_k3 1) 991\<rparr>)"
proof -
  obtain k1 where k1: "scheduler ex_sy ex_k3 = Some k1" "kernel_ok ex_sy k1 ex_p4" by (rule ex_preempted)
  obtain k2 where k2: "path (step_without 1 ex_clock ex_sy) k1 [Key 0] k2" by (rule ex_key_path [OF k1(2)])
  have "sint (quantum_ticks ex_k3 - 1) < 0" using ex_k3(3) by simp
  from preempted_process_resumes [OF ex_linked ex_clock ex_k3(1) _ _ this k1(1), of 990] k2 ex_k3(2) ex_k3_frame
  have "resume ex_sy 1 k2 = Some (k2\<lparr>esp := stack_addr ex_sy 1 992, ebp := stack (task ex_k3 1) 990, eip := stack (task ex_k3 1) 991\<rparr>)"
    by (simp add: ex_p2_fields KERNEL_STACK_SIZE_def del: One_nat_def)
  with k1(1) k2 show ?thesis by blast
qed

text \<open>
  \<^bold>\<open>C9.\<close> \<^verbatim>\<open>scheduler\<close> while the quantum lasts, or when no process is ready: the running
  process keeps the processor, and only \<^verbatim>\<open>quantum_ticks\<close> changes: it is decremented, or
  reset to the process's quantum when the ready queue is empty.
\<close>

theorem quantum_left_keeps:
  assumes "linked sy" and "kernel_ok sy k a" and "entered sy k (running a)"
    and "ready a = [] \<or> 0 \<le> sint (quantum_ticks k - 1)"
  shows "scheduler sy k = Some (k\<lparr>quantum_ticks :=
    (if ready a = [] then quantum (task k (running a)) else quantum_ticks k - 1)\<rparr>)"
  by (rule scheduler_keeps [OF assms])

theorem quantum_left_keeps_witness: "scheduler ex_sy ex_k2 = Some (ex_k2\<lparr>quantum_ticks := 99\<rparr>)"
  using quantum_left_keeps [OF ex_linked system_okD(1) [OF ex_k2(2)]] ex_k2(3,7) by (simp add: ex_p2_fields)

text \<open>
  \<^bold>\<open>C10.\<close> Round robin: in a state with PIDs of at most two digits, whose quantum counter is not
  negative, let \<open>q\<close> be the counter. Runs of \<open>q + i + 1\<close> clock interrupts exist, and in
  every such run the process on the processor at the end is the \<open>i\<close>-th one of the ready
  queue.
\<close>

theorem round_robin_order:
  assumes "linked sy" and "keeps_cursor show_clock" and "system_ok sy k a" and "small_pids k a"
    and "0 \<le> sint (quantum_ticks k)" and "sint (quantum_ticks k) < 2 ^ 30" and "i < length (ready a)"
  shows "{on_cpu sy k' |k'. ticks show_clock sy (nat (sint (quantum_ticks k)) + i + 1) k k'} = {ready a ! i}"
  using round_robin [OF assms] by (auto simp del: relpowp.simps) metis

theorem round_robin_order_witness: "{on_cpu ex_sy k' |k'. ticks ex_clock ex_sy 101 ex_k2 k'} = {2}"
  using round_robin_order [OF ex_linked ex_clock ex_k2(2) ex_small_pids, of 0] ex_k2(7) by (simp add: ex_p2_fields)

text \<open>
  \<^bold>\<open>C11.\<close> The clock interrupt can always be served: in every state that satisfies the invariant and
  whose PIDs have at most two digits there is a step for it, and every such step ends in the
  process table \<open>after_tick\<close>: the same one, or the one with the running process preempted.
\<close>

theorem tick_always_served:
  assumes "linked sy" and "keeps_cursor show_clock" and "system_ok sy k a" and "small_pids k a"
  shows "(\<exists>k'. step show_clock sy k Tick k') \<and>
    {k'. step show_clock sy k Tick k'} \<subseteq> {k'. system_ok sy k' (after_tick k a) \<and> same_pids k k'}"
  using tick_step [OF assms] by blast

theorem tick_always_served_witness:
  "(\<exists>k'. step ex_clock ex_sy ex_k2 Tick k') \<and>
    {k'. step ex_clock ex_sy ex_k2 Tick k'} \<subseteq> {k'. system_ok ex_sy k' (after_tick ex_k2 ex_p2) \<and> same_pids ex_k2 k'}"
  by (rule tick_always_served [OF ex_linked ex_clock ex_k2(2) ex_small_pids])



text \<open>
  \<^bold>\<open>C13.\<close> \<^verbatim>\<open>sys_unblock\<close>. It looks for the PID among the children of the caller. A PID that none
  of them has gives -1 and changes nothing. A child that is blocked moves from wherever it is in
  the blocked queue to the tail of the ready queue, and only list nodes change. A child that is
  not blocked gets one more pending unblock and nothing else changes.
\<close>

theorem unblock_outcome:
  assumes "linked sy" and "kernel_ok sy k a" and "entered sy k (running a)" and "running a \<noteq> 0"
  shows "case find (\<lambda>c. PID (task k c) = pid) (kids a (running a)) of
      None \<Rightarrow> sys_unblock sy pid k = Some (-1, k)
    | Some c \<Rightarrow> if c \<in> set (waiting a)
        then \<exists>h. sys_unblock sy pid k = Some (0, k\<lparr>lists := h\<rparr>) \<and> kernel_ok sy (k\<lparr>lists := h\<rparr>) (s_unblock c a)
        else sys_unblock sy pid k =
          Some (0, k\<lparr>task := (task k)(c := (task k c)\<lparr>pending_unblocks := pending_unblocks (task k c) + 1\<rparr>)\<rparr>)"
proof (cases "find (\<lambda>c. PID (task k c) = pid) (kids a (running a))")
  case None
  then have "\<not> (\<exists>c\<in>set (kids a (running a)). PID (task k c) = pid)" by (auto simp: find_None_iff)
  then show ?thesis using sys_unblock_no_child [OF assms(1-3), of pid] None by auto
next
  case (Some c)
  then have "c \<in> set (kids a (running a))" "PID (task k c) = pid" by (auto simp: find_Some_iff)
  then show ?thesis using sys_unblock_blocked [OF assms, of c pid] sys_unblock_not_blocked [OF assms(1-3), of c pid] Some by auto
qed

theorem unblock_outcome_witness:
  "sys_unblock ex_sy 3 ex_k2 = Some (0, ex_k2\<lparr>task := (task ex_k2)(2 := (task ex_k2 2)\<lparr>pending_unblocks := 1\<rparr>)\<rparr>) \<and>
    sys_unblock ex_sy 7 ex_k2 = Some (-1, ex_k2) \<and>
    (\<exists>h. sys_unblock ex_sy 3 ex_k5 = Some (0, ex_k5\<lparr>lists := h\<rparr>) \<and> kernel_ok ex_sy (ex_k5\<lparr>lists := h\<rparr>) (s_unblock 2 ex_p5))"
  using unblock_outcome [OF ex_linked system_okD(1) [OF ex_k2(2)], of 3]
    unblock_outcome [OF ex_linked system_okD(1) [OF ex_k2(2)], of 7] ex_k2(3,4,8)
    unblock_outcome [OF ex_linked ex_k5(1), of 3] ex_k5(2,3)
  by (simp add: ex_p2_fields ex_p5_fields del: One_nat_def)



text \<open>
  \<^bold>\<open>C15.\<close> Memory protection. After \<^verbatim>\<open>main\<close> and a run of the system without test keys, with
  forks, exits and switches in it, the user-mode translations in force while a process is on the
  processor, cached ones included, are exactly its own data pages, writable and backed by the
  frames of its page table, and the pages of the shared program text, read-only.
\<close>

theorem user_view_exact:
  assumes "linked sy" and "powered_on (ker M)" and "image_ok (mem (ker M))" and "keeps_cursor show_clock"
    and "main sh sy ep M = Some M'" and "path (step show_clock sy) (ker M') es k" and "list_all ordinary es"
    and "on_cpu sy k \<noteq> 0"
  shows "{(page, e). effective sy (mem k) page = Some e \<and> user e = 1} =
    (\<lambda>p. (PAG_LOG_INIT_DATA + p, user_rw_entry (of_nat (data_frame (mem k) (on_cpu sy k) p)))) ` {..<NUM_PAG_DATA} \<union>
    (\<lambda>c. (PAG_LOG_INIT_CODE + c, user_entry (of_nat (code_frame c)))) ` {..<NUM_PAG_CODE}"
proof -
  obtain a where a: "system_ok sy k a" "running a = on_cpu sy k" using boot_path_ok [OF assms(1-7)] by blast
  then have "mem_ok sy (mem k) (live a) (running a)" using system_okD(1) [OF a(1)] by (simp add: kernel_ok_def)
  moreover have "running a \<in> live a" unfolding running_live using assms(8) a(2) by simp
  ultimately show ?thesis unfolding a(2) [symmetric] by (rule user_view [OF assms(1)])
qed

theorem user_view_exact_witness:
  "{(page, e). effective ex_sy (mem ex_k2) page = Some e \<and> user e = 1} =
    (\<lambda>p. (PAG_LOG_INIT_DATA + p, user_rw_entry (of_nat (data_frame (mem ex_k2) 1 p)))) ` {..<NUM_PAG_DATA} \<union>
    (\<lambda>c. (PAG_LOG_INIT_CODE + c, user_entry (of_nat (code_frame c)))) ` {..<NUM_PAG_CODE}"
  using user_view_exact [OF ex_linked ex_powered_on ex_image_ok ex_clock ex_main(1) ex_path ex_ordinary]
    on_cpu_running [OF ex_linked system_okD(1) [OF ex_k2(2)]] by (simp add: ex_p2_fields)



text \<open>
  \<^bold>\<open>C17.\<close> \<^verbatim>\<open>sys_fork\<close> when all slots are taken returns -1 and leaves the kernel state as it
  is.
\<close>

theorem fork_table_full:
  assumes "kernel_ok sy k a" and "free a = []"
  shows "sys_fork sy k = Some (-1, k)"
  by (rule sys_fork_full [OF assms])

theorem fork_table_full_witness: "\<exists>k. sys_fork ex_sy k = Some (-1, k)"
  using ex_full fork_table_full by blast

text \<open>
  \<^bold>\<open>C18.\<close> \<^verbatim>\<open>sys_write\<close>. Its local array has the size the caller gives and is allocated before the
  checks: for a size that is not positive, or more than the kernel stack holds, the call has no
  defined outcome, whatever the other arguments, and the test for a size that is not positive is
  never what refuses a call. For the other sizes the errors are, in the order they are tested, -9
  for a descriptor other than 1, -22 for a null buffer and -13 for addresses \<^verbatim>\<open>access_ok\<close>
  refuses; the state is then unchanged. Otherwise, for a buffer that lies in the user area, it
  returns the size, and the console receives exactly the bytes the process sees at those
  addresses, in order.
\<close>

theorem write_outcome:
  assumes "linked sy" and "kernel_ok sy k a" and "running a \<noteq> 0"
  shows "if sint sz \<le> 0 \<or> \<not> vla_fits sy k sz then sys_write sy fd buf sz k = None
    else if fd \<noteq> 1 \<or> buf = 0 \<or> \<not> access_ok VERIFY_READ buf sz
    then sys_write sy fd buf sz k = Some (if fd \<noteq> 1 then -9 else if buf = 0 then -22 else -13, k)
    else unat buf + nat (sint sz) \<le> 4096 * (PAG_LOG_INIT_CODE + NUM_PAG_CODE) \<longrightarrow>
      (\<exists>k'. sys_write sy fd buf sz k = Some (sz, k') \<and> kernel_ok sy k' a \<and>
        port_e9 (scr k') = port_e9 (scr k) @ map (\<lambda>i. user_byte sy (mem k) (buf + of_nat i)) [0..<nat (sint sz)])"
proof (cases "vla_fits sy k sz")
  case True
  then have "0 < sint sz" by (simp add: vla_fits_def)
  then show ?thesis
    using sys_write_errors(1) [OF True] sys_write_errors(2,3) [OF True, of buf] sys_write_ok [OF assms True, of buf] True
    by (cases "fd = 1"; cases "buf = 0"; cases "access_ok VERIFY_READ buf sz") auto
qed (simp add: sys_write_def)

theorem write_outcome_witness:
  "sys_write ex_sy 2 0x100000 5 ex_k1 = Some (-9, ex_k1) \<and> sys_write ex_sy 1 0 5 ex_k1 = Some (-22, ex_k1) \<and>
    sys_write ex_sy 1 0x10000 5 ex_k1 = Some (-13, ex_k1) \<and> sys_write ex_sy 2 0x100000 (-1) ex_k1 = None \<and>
    (\<exists>k'. sys_write ex_sy 1 0x100000 5 ex_k1 = Some (5, k') \<and> kernel_ok ex_sy k' boot_procs \<and>
      port_e9 (scr k') = port_e9 (scr ex_k1) @ map (\<lambda>i. user_byte ex_sy (mem ex_k1) (0x100000 + of_nat i)) [0..<5])"
proof -
  have r: "running boot_procs \<noteq> 0" by (simp add: boot_fields)
  note w = write_outcome [OF ex_linked system_okD(1) [OF ex_k1(1)] r]
  have acc: "access_ok VERIFY_READ 0x100000 5" "\<not> access_ok VERIFY_READ 0x10000 5"
    by (simp_all add: access_ok_pages unat_page_of zeos_consts)
  have n: "nat (sint (5 :: cint)) = 5" by simp
  show ?thesis
    using w [of 5 2 "0x100000"] w [of 5 1 0] w [of 5 1 "0x10000"] w [of 5 1 "0x100000"] w [of "-1" 2 "0x100000"] acc n ex_vla
    by (simp add: zeos_consts del: upt.simps)
qed

text \<open>
  \<^bold>\<open>C19.\<close> \<^verbatim>\<open>access_ok\<close> accepts one page more than the user area has, and no page is mapped
  there: \<^verbatim>\<open>sys_write\<close> of a non-empty buffer that starts in it has no result, because
  the kernel's own read of the buffer faults.
\<close>

theorem write_past_end_faults:
  assumes "linked sy" and "kernel_ok sy k a" and "page_of buf = PAG_LOG_INIT_CODE + NUM_PAG_CODE"
    and "0 < sint sz" and "unat buf mod 4096 + unat sz < 4096"
  shows "access_ok VERIFY_READ buf sz \<and> sys_write sy 1 buf sz k = None"
proof -
  have u: "unat buf div 4096 = 284" using assms(3) by (simp add: unat_page_of zeos_consts)
  define j where "j = unat buf mod 4096"
  have b: "unat buf = 284 * 4096 + j" using div_mult_mod_eq [of "unat buf" 4096] unfolding u j_def by simp
  have j: "j + unat sz < 4096" using assms(5) by (simp add: j_def)
  have "unat buf + unat sz < 2 ^ 32" using j b by simp
  then have "unat (buf + sz) = 284 * 4096 + (j + unat sz)" using unat_add32 [of buf sz] b by linarith
  then have "page_of (buf + sz) = 284" using j by (simp add: unat_page_of)
  then have acc: "access_ok VERIFY_READ buf sz" using assms(3) by (simp add: access_ok_pages zeos_consts)
  then show ?thesis using sys_write_faults [OF assms(1-4)] by simp
qed

theorem write_past_end_faults_witness:
  "access_ok VERIFY_READ 0x11C000 5 \<and> sys_write ex_sy 1 0x11C000 5 ex_k1 = None"
  by (rule write_past_end_faults [OF ex_linked system_okD(1) [OF ex_k1(1)]])
    (simp_all add: unat_page_of zeos_consts)

text \<open>
  \<^bold>\<open>C20.\<close> \<^verbatim>\<open>build\<close> on a boot file in Minix format with a 512-byte block and a boot flag, and
  two files whose sizes together stay below 16 MB: it ends without error and standard output
  holds the boot block with the system size in paragraphs at offset 500 and the root device at
  508, then the kernel file with its first twelve bytes replaced by the two sizes and the
  return descriptor, then the user program.
\<close>

theorem build_writes_image:
  assumes "boot_file hdr block" and "readable f" and "contents f = hdr @ block"
    and "regular sys g" and "12 \<le> length sys" and "regular usr h"
    and "length sys + length usr < 2 ^ 24" and "empty_out (512 + length sys + length usr) out"
  shows "\<exists>out'. build_main 4 (Some f) (Some g) (Some h) out = Inr out' \<and> o_bytes out' = image block sys usr"
  by (rule build_main_ok [OF assms])

theorem build_writes_image_witness:
  "\<exists>out'. build_main 4 (Some (ex_file (ex_hdr @ ex_block))) (Some (ex_file ex_sys)) (Some (ex_file ex_usr)) ex_out = Inr out' \<and>
    o_bytes out' = image ex_block ex_sys ex_usr"
  by (rule build_writes_image [OF ex_boot_file _ _ ex_regular ex_fits(1) ex_regular ex_fits(4)])
    (simp_all add: ex_file_def empty_out_def ex_out_def ex_sys_def ex_usr_def)

text \<open>
  \<^bold>\<open>C21.\<close> \<^verbatim>\<open>bootsect.S\<close>, on a machine with the BIOS and keyboard controller of a standard PC: for
  a system of less than 512 KB the loop that reads track by track ends, whatever the boundaries of
  tracks and of 64 KB segments. All of the system is then in memory from \<^verbatim>\<open>0x10000\<close> on, as on
  the disk from its second sector on. The loader at \<^verbatim>\<open>0x90000\<close> is as on the disk, except for
  the words \<^verbatim>\<open>sread\<close>, \<^verbatim>\<open>head\<close> and \<^verbatim>\<open>track\<close>, its variables, which are zero on the
  disk and lie before its table. The writes to ports switch off the motor, open the A20 line and
  program the interrupt controllers, and the processor goes on with the tables of the sector, in
  protected mode.
\<close>

theorem boot_loads_disk:
  assumes "standard_pc disk hw" and "in_code lab" and "\<forall>i<512. m (0x7C00 + i) = disk i"
    and "load16 disk 500 = of_nat z" and "z < 0x8000" and "disk 497 = 0" and "\<forall>i<6. disk (unat (o_sread lab) + i) = 0"
  shows "\<exists>h. bootsect hw lab rs m = Some h \<and> (\<forall>i<0x10000 * (z div 0x1000 + 1). h_mem h (0x10000 + i) = disk (512 + i)) \<and>
    (\<forall>i<512. i < unat (o_sread lab) \<or> unat (o_sread lab) + 6 \<le> i \<longrightarrow> h_mem h (0x90000 + i) = disk i) \<and> h_cr0 h = 1 \<and>
    outs (h_io h) = [(0x3f2, 0), (0x70, 0x80), (0x64, 0xD1), (0x60, 0xDF)] @ outs program_pics \<and> h_cs h = KERNEL_CS \<and> h_eip h = 0x10010 \<and>
    h_idt_reg h = \<lparr>r_limit = load16 disk 491, r_base = ucast (load16 disk 493) OR push_bit 16 (ucast (load16 disk 495))\<rparr> \<and>
    h_gdt_reg h = \<lparr>r_limit = load16 disk 502, r_base = ucast (load16 disk 504) OR push_bit 16 (ucast (load16 disk 506))\<rparr>"
  using bootsect_ok [OF assms, of rs] unfolding vars_def by (auto simp: enable_a20_outs kill_motor_def)

theorem boot_loads_disk_witness:
  "\<exists>h. bootsect ex_pc ex_lab ex_bregs ex_sector = Some h \<and>
    map (\<lambda>i. h_mem h (0x10000 + i)) [0..<65536] = map (\<lambda>i. ex_disk (512 + i)) [0..<65536] \<and>
    map (\<lambda>i. h_mem h (0x90000 + i)) [206..<512] = map ex_disk [206..<512] \<and> h_eip h = 0x10010"
proof -
  have len: "length ex_sys + length ex_usr \<le> 0x7FFF0" "(length ex_sys + length ex_usr + 15) div 16 = 2"
    by (simp_all add: ex_sys_def ex_usr_def)
  note w = image_words [OF ex_assembled ex_on_disk len(1), unfolded len(2)]
  have lab: "in_code ex_lab" "\<forall>i<6. ex_disk (unat (o_sread ex_lab) + i) = 0"
    using ex_assembled w(7) by (auto simp: assembled_def in_code_def)
  obtain h where h: "bootsect ex_pc ex_lab ex_bregs ex_sector = Some h"
    "\<forall>i<0x10000 * (2 div 0x1000 + 1). h_mem h (0x10000 + i) = ex_disk (512 + i)"
    "\<forall>i<512. i < 200 \<or> 206 \<le> i \<longrightarrow> h_mem h (0x90000 + i) = ex_disk i" "h_eip h = 0x10010"
    using boot_loads_disk [OF ex_standard lab(1) ex_first w(2) _ w(1) lab(2), of ex_bregs] by (auto simp: ex_lab_def)
  have "map (\<lambda>i. h_mem h (0x10000 + i)) [0..<65536] = map (\<lambda>i. ex_disk (512 + i)) [0..<65536]"
    using h(2) by (intro map_cong refl) (simp del: upt.simps)
  moreover have "map (\<lambda>i. h_mem h (0x90000 + i)) [206..<512] = map ex_disk [206..<512]"
    using h(3) by (intro map_cong refl) (auto simp only: set_upt atLeastLessThan_iff)
  ultimately show ?thesis using h(1,4) by blast
qed

text \<open>
  \<^bold>\<open>C22.\<close> The two waits of \<^verbatim>\<open>bootsect.S\<close>. \<^verbatim>\<open>empty_8042\<close> ends for every keyboard controller,
  after at most \<open>2 * 0xFFFFFE\<close> reads and no write, and if the controller settles, the last
  thing read is a status with both buffers empty. The loop at \<^verbatim>\<open>a20_wait\<close> ends once the line
  stays open and leaves memory as it was, whatever the word 1 MB above the one it writes; if the line
  never opens, the loop does not end.
\<close>

theorem a20_wait_exact:
  assumes "settles hw"
  shows "(\<exists>ins. empty_8042 hw' tr = tr @ ins \<and> outs ins = [] \<and> length ins \<le> 2 * 0xFFFFFE) \<and>
    idle_8042 (empty_8042 hw tr) \<and>
    ((\<exists>n. \<forall>k\<ge>n. a20_open hw' tr k) \<longrightarrow> wait_a20 hw' tr m = Some m) \<and>
    ((\<forall>k. \<not> a20_open hw' tr k) \<longrightarrow> wait_a20 hw' tr m = None)"
  using empty_8042_reads [of hw' tr] empty_8042_idle [OF assms, of tr] idle_suffix wait_a20_ends wait_a20_never
  by fastforce

theorem a20_wait_exact_witness:
  "idle_8042 (empty_8042 ex_pc [Out 0x64 0xD1]) \<and> wait_a20 ex_pc [Out 0x64 0xD1] ex_sector = Some ex_sector \<and>
    wait_a20 (ex_pc\<lparr>a20_open := \<lambda>tr n. False\<rparr>) [] ex_sector = None"
proof -
  have "\<exists>n. \<forall>k\<ge>n. a20_open ex_pc [Out 0x64 0xD1] k" by (auto simp: ex_pc_def)
  then show ?thesis
    using a20_wait_exact [OF ex_settles, of ex_pc "[Out 0x64 0xD1]" ex_sector]
      a20_wait_exact [OF ex_settles, of "ex_pc\<lparr>a20_open := \<lambda>tr n. False\<rparr>" "[]" ex_sector] by simp
qed

text \<open>
  \<^bold>\<open>C23.\<close> Build, boot sector and kernel agree on the image. For an assembled boot sector, and a kernel
  and a user program of at most 512 KB together, \<^verbatim>\<open>build\<close> writes an image; when it is on the
  disk, the boot sector ends in protected mode at the entry of \<^verbatim>\<open>main\<close>; and from a machine
  with that memory and that descriptor table \<^verbatim>\<open>main\<close> ends in the invariant for the boot
  table, in user mode at \<^verbatim>\<open>usr_main\<close> with interrupts on, user segments in
  \<^verbatim>\<open>ds\<close> and \<^verbatim>\<open>es\<close> and no kernel segment in \<^verbatim>\<open>fs\<close> and \<^verbatim>\<open>gs\<close>, with the
  handlers of clock and keyboard at the vectors the interrupt controller raises for them, and with
  the user program in the user pages byte by byte, except for the word at the end of the data
  pages that \<^verbatim>\<open>return_gate\<close> writes.
\<close>

theorem disk_to_user_mode:
  assumes "linked sy" and "boot_file hdr block" and "readable f" and "contents f = hdr @ block" and "assembled lab block"
    and "regular sys g" and "12 \<le> length sys" and "regular usr u" and "length sys + length usr \<le> 0x7FFF0"
    and "length usr \<le> PAGE_SIZE * (NUM_PAG_DATA + NUM_PAG_CODE)" and "empty_out (512 + length sys + length usr) out"
    and "standard_pc disk hw" and "\<forall>i<512. m (0x7C00 + i) = disk i"
  shows "\<exists>out'. build_main 4 (Some f) (Some g) (Some u) out = Inr out' \<and> (on_disk (o_bytes out') disk \<longrightarrow>
    (\<exists>h. bootsect hw lab rs m = Some h \<and> h_eip h = KERNEL_START + 16 \<and> (\<forall>M. powered_on (ker M) \<and> handed_over h M \<longrightarrow>
      (\<exists>M'. main sh sy ep M = Some M' \<and> in_user_mode sy ep usr h M M'))))"
proof -
  have "length sys + length usr < 2 ^ 24" using assms(9) by simp
  from build_main_ok [OF assms(2-4,6-8) this assms(11)] obtain out' where
    "build_main 4 (Some f) (Some g) (Some u) out = Inr out'" "o_bytes out' = image block sys usr" by blast
  then show ?thesis using disk_boots [OF assms(12,13,5) _ assms(7,9,10,1), of rs sh ep] by auto
qed

theorem disk_to_user_mode_witness:
  "\<exists>out' h M'. build_main 4 (Some (ex_file (ex_hdr @ ex_block))) (Some (ex_file ex_sys)) (Some (ex_file ex_usr)) ex_out = Inr out' \<and>
    bootsect ex_pc ex_lab ex_bregs ex_sector = Some h \<and> main id ex_sy ex_ep (ex_started h) = Some M' \<and>
    in_user_mode ex_sy ex_ep ex_usr h (ex_started h) M' \<and>
    map (\<lambda>i. user_byte ex_sy (mem (ker M')) (of_nat L_USER_START + of_nat i)) [0..<length ex_usr] = ex_usr"
proof -
  have in_ok: "readable (ex_file bs)" "contents (ex_file bs) = bs" for bs by (simp_all add: ex_file_def)
  have out_ok: "empty_out (512 + length ex_sys + length ex_usr) ex_out" "length ex_sys + length ex_usr \<le> 0x7FFF0"
    by (simp_all add: empty_out_def ex_out_def ex_sys_def ex_usr_def)
  obtain out' where out': "build_main 4 (Some (ex_file (ex_hdr @ ex_block))) (Some (ex_file ex_sys)) (Some (ex_file ex_usr)) ex_out = Inr out'"
    "o_bytes out' = image ex_block ex_sys ex_usr"
    using build_main_ok [OF ex_boot_file in_ok ex_regular ex_fits(1) ex_regular ex_fits(4) out_ok(1)] by blast
  obtain h M' where h: "bootsect ex_pc ex_lab ex_bregs ex_sector = Some h" "main id ex_sy ex_ep (ex_started h) = Some M'"
    "in_user_mode ex_sy ex_ep ex_usr h (ex_started h) M'"
    using disk_to_user_mode [OF ex_linked ex_boot_file in_ok ex_assembled ex_regular ex_fits(1) ex_regular out_ok(2) ex_fits(3)
        out_ok(1) ex_standard ex_first, of ex_bregs id ex_ep] ex_on_disk ex_started out' by (metis Inr_inject)
  have "i + 4 < PAGE_SIZE * NUM_PAG_DATA" if "i < length ex_usr" for i
    using that by (simp add: ex_usr_def zeos_consts)
  then have "map (\<lambda>i. user_byte ex_sy (mem (ker M')) (of_nat L_USER_START + of_nat i)) [0..<length ex_usr] = ex_usr"
    using h(3) by (intro nth_equalityI) (simp_all add: in_user_mode_def)
  with out'(1) h(1-3) show ?thesis by blast
qed

text \<open>
  \<^bold>\<open>C24.\<close> \<^verbatim>\<open>list_add_tail\<close> of a node that is not in the ring: the traversal of the result
  visits the old nodes in order and then the new one, the ring is not empty, the new node is
  its last, and no node outside the ring changes.
\<close>

theorem add_tail_appends:
  assumes "dll h a xs" and "new \<noteq> Null" and "new \<notin> set (a # xs)"
  shows "\<exists>h'. list_add_tail new a h = Some h' \<and> dll h' a (xs @ [new]) \<and> list_for_each a h' = Some (xs @ [new]) \<and>
    list_empty a h' = Some False \<and> list_is_last new a h' = Some True \<and>
    (\<forall>p. p \<in> set (new # a # xs) \<or> h' p = h p)"
  using dll_add_tail [OF assms] dll_for_each dll_empty dll_is_last by fastforce

theorem add_tail_appends_witness:
  "\<exists>h'. list_add_tail (Anchor 2) ReadyQ (\<lambda>_. \<lparr>lnext = ReadyQ, lprev = ReadyQ\<rparr>) = Some h' \<and>
    dll h' ReadyQ [Anchor 2] \<and> list_for_each ReadyQ h' = Some [Anchor 2] \<and> list_empty ReadyQ h' = Some False \<and>
    list_is_last (Anchor 2) ReadyQ h' = Some True \<and>
    (\<forall>p. p \<in> {Anchor 2, ReadyQ} \<or> h' p = \<lparr>lnext = ReadyQ, lprev = ReadyQ\<rparr>)"
  using add_tail_appends [of "\<lambda>_. \<lparr>lnext = ReadyQ, lprev = ReadyQ\<rparr>" ReadyQ "[]" "Anchor 2"] by (simp add: dll_def)

text \<open>
  \<^bold>\<open>C25.\<close> \<^verbatim>\<open>list_del\<close> undoes \<^verbatim>\<open>list_add\<close> and \<^verbatim>\<open>list_add_tail\<close>: the ring
  holds the nodes it held before, the node's own links are null, and nothing outside the ring
  and the node changes.
\<close>

theorem add_then_delete:
  assumes "dll h a xs" and "new \<noteq> Null" and "new \<notin> set (a # xs)" and "add \<in> {list_add, list_add_tail}"
  shows "\<exists>h1 h2. add new a h = Some h1 \<and> list_del new h1 = Some h2 \<and> dll h2 a xs \<and> detached (h2 new) \<and>
    (\<forall>p. p \<in> set (new # a # xs) \<or> h2 p = h p)"
proof -
  obtain us vs h1 where h1: "add new a h = Some h1" "dll h1 a (us @ new # vs)" "us @ vs = xs"
    "\<forall>p. p \<notin> set (new # a # xs) \<longrightarrow> h1 p = h p"
  proof (cases "add = list_add")
    case True
    then show ?thesis using that [of _ "[]" xs] dll_add [OF assms(1-3)] by auto
  next
    case False
    then show ?thesis using that [of _ xs "[]"] dll_add_tail [OF assms(1-3)] assms(4) by auto
  qed
  then show ?thesis using dll_del [OF h1(2)] by fastforce
qed

theorem add_then_delete_witness:
  "\<exists>h1 h2. list_add (Anchor 3) FreeQ (\<lambda>_. \<lparr>lnext = FreeQ, lprev = FreeQ\<rparr>) = Some h1 \<and> list_del (Anchor 3) h1 = Some h2 \<and>
    dll h2 FreeQ [] \<and> detached (h2 (Anchor 3)) \<and>
    (\<forall>p. p \<in> {Anchor 3, FreeQ} \<or> h2 p = \<lparr>lnext = FreeQ, lprev = FreeQ\<rparr>)"
  using add_then_delete [of "\<lambda>_. \<lparr>lnext = FreeQ, lprev = FreeQ\<rparr>" FreeQ "[]" "Anchor 3" list_add] by (simp add: dll_def)

text \<open>
  \<^bold>\<open>C26.\<close> \<^verbatim>\<open>alloc_frame\<close> returns the least available frame and marks it used; when none is
  available it returns -1 and changes nothing. \<^verbatim>\<open>free_frame\<close> of the frame it returned undoes
  it; the one frame this does not hold for is frame 256, which \<^verbatim>\<open>free_frame\<close> refuses.
\<close>

theorem alloc_first_free:
  "if avail_frames m = {} then alloc_frame m = (-1, m)
   else \<exists>f m'. f = Min (avail_frames m) \<and> m' = m(f := USED_FRAME) \<and> alloc_frame m = (int f, m') \<and>
     free_frame (of_nat f) m' = (if f = NUM_PAG_KERNEL then m' else m)"
proof (cases m rule: alloc_frame_cases)
  case (found f)
  then have g: "m f = FREE_FRAME" "NUM_PAG_KERNEL \<le> f" "f < TOTAL_PAGES" by (auto simp: avail_frames_def)
  have "unat (of_nat f :: DWord) = f" using g(3) by (intro unat_of_nat32) (simp add: zeos_consts)
  then have "free_frame (of_nat f) (m(f := USED_FRAME)) = (if f = NUM_PAG_KERNEL then m(f := USED_FRAME) else m)"
    using g by (auto simp: free_frame_def)
  moreover have "Min (avail_frames m) = f" using found by (intro Min_eqI finite_avail_frames)
  ultimately show ?thesis using found by auto
qed simp

text \<open>
  \<^bold>\<open>C27.\<close> The three ways through \<^verbatim>\<open>entry.S\<close> of a process in user mode with the registers
  \<open>c\<close>. An interrupt is acknowledged with the byte \<^verbatim>\<open>0x20\<close> at port \<^verbatim>\<open>0x20\<close> and
  gives all of them back, whatever its service leaves in them. A system call
  whose number is refused gives them back with -38 in \<^verbatim>\<open>eax\<close>. A system call whose routine
  returns gives them back with the result in \<^verbatim>\<open>eax\<close>; the routine finds its arguments in the
  words that hold \<^verbatim>\<open>edx\<close>, \<^verbatim>\<open>ecx\<close> and \<^verbatim>\<open>ebx\<close>, and the state in which it starts is one
  of those the steps of the machine start from and satisfies the invariant.
\<close>

theorem entry_keeps_registers:
  assumes "linked sy" and "system_ok sy k a" and "running a \<noteq> 0" and "Suc d < KERNEL_STACK_SIZE"
    and "s = (stack (task k (running a)), stack_index sy (running a) (esp0 (tss k)))"
  shows "(\<exists>c1 s1. interrupt_entry c s = Some (c1, s1, [(0x20, 0x20)]) \<and> (\<forall>c2. interrupt_exit c2 s1 = Some (c, fst s1, snd s))) \<and>
    (\<exists>s'. refused_call c s = Some (c\<lparr>c_eax := -38\<rparr>, s')) \<and>
    (\<exists>k1. call_entry sy c ra d k = Some k1 \<and> enter sy k k1 \<and> system_ok sy k1 a \<and>
      call_regs sy c (running a) k1 = \<lparr>r_eax = c_eax c, r_ebx = c_ebx c, r_ecx = c_ecx c, r_edx = c_edx c\<rparr> \<and>
      (\<forall>v k'. system_call_handler sy (call_regs sy c (running a) k1) k1 = Some (Returned v k') \<longrightarrow>
        call_exit sy (running a) (ebp_fork k1) v c' k' = Some (ra, c\<lparr>c_eax := v\<rparr>)))"
  unfolding assms(5) snd_conv by (intro conjI entries_return [OF assms(1-4)])

theorem entry_keeps_registers_witness:
  "\<exists>k1 v. call_entry ex_sy ex_cpu 0x10450 900 (ker ex_booted) = Some k1 \<and>
    system_call_handler ex_sy (call_regs ex_sy ex_cpu 1 k1) k1 = Some (Returned v k1) \<and>
    call_exit ex_sy 1 (ebp_fork k1) v ex_cpu k1 = Some (0x10450, ex_cpu\<lparr>c_eax := v\<rparr>)"
proof -
  obtain k1 where k1: "call_entry ex_sy ex_cpu 0x10450 900 (ker ex_booted) = Some k1"
    "call_regs ex_sy ex_cpu 1 k1 = \<lparr>r_eax = c_eax ex_cpu, r_ebx = c_ebx ex_cpu, r_ecx = c_ecx ex_cpu, r_edx = c_edx ex_cpu\<rparr>"
    "\<forall>v k'. system_call_handler ex_sy (call_regs ex_sy ex_cpu 1 k1) k1 = Some (Returned v k') \<longrightarrow>
      call_exit ex_sy 1 (ebp_fork k1) v ex_cpu k' = Some (0x10450, ex_cpu\<lparr>c_eax := v\<rparr>)"
    using entry_keeps_registers [OF ex_linked ex_system_ok _ _ refl, of 900 ex_cpu "0x10450" ex_cpu, unfolded boot_fields(1)]
    by (auto simp: KERNEL_STACK_SIZE_def simp del: One_nat_def)
  have "system_call_handler ex_sy (call_regs ex_sy ex_cpu 1 k1) k1 = Some (Returned (PID (task k1 (current ex_sy k1))) k1)"
    unfolding k1(2) by (simp add: handler_cases ex_cpu_def ret_def sys_getpid_def)
  with k1(1,3) show ?thesis by blast
qed

text \<open>
  \<^bold>\<open>C28.\<close> The trap handler on every register state: numbers below 0 and above 21 and the unused ones
  of the table give -38 and change nothing; the seven calls run their routine, with
  \<^verbatim>\<open>edx\<close>, \<^verbatim>\<open>ecx\<close> and \<^verbatim>\<open>ebx\<close> as arguments; the number 21, which the
  comparison lets through, calls through the word behind the table and has no defined result.
\<close>

theorem system_call_dispatch:
  "system_call_handler sy r k =
    (if sint (r_eax r) < 0 \<or> 21 < sint (r_eax r) then Some (Returned (-38) k)
     else if r_eax r = 1 then noval (sys_exit sy k)
     else if r_eax r = 2 then ret (sys_fork sy k)
     else if r_eax r = 4 then ret (sys_write sy (r_edx r) (r_ecx r) (r_ebx r) k)
     else if r_eax r = 5 then noval (sys_block sy k)
     else if r_eax r = 6 then ret (sys_unblock sy (r_edx r) k)
     else if r_eax r = 10 then ret (sys_gettime k)
     else if r_eax r = 20 then ret (sys_getpid sy k)
     else if r_eax r = 21 then None
     else Some (Returned (-38) k))"
  by (rule handler_cases)

text \<open>
  \<^bold>\<open>C29.\<close> \<^verbatim>\<open>copy_data\<close>, with its loop over double words and its loop over the remaining bytes:
  when both ranges are mapped, the frames behind the destination are not seen from the source
  and different destination pages have different frames, it ends, every destination byte is
  the source byte, and no frame that does not back the destination changes.
\<close>

theorem copy_between_regions:
  assumes "separated sy m {p + of_nat i |i. i < n} {q + of_nat i |i. i < n}" and "n < 2 ^ 31"
  shows "\<exists>m'. copy_data (load8 sy) (store8 sy) p q (int n) m = Some m' \<and>
    same_but sy (frame_at sy m ` {q + of_nat i |i. i < n}) m m' \<and>
    map (\<lambda>i. ram m' (frame_at sy m (q + of_nat i)) (offset_of (q + of_nat i))) [0..<n] =
      map (\<lambda>i. ram m (frame_at sy m (p + of_nat i)) (offset_of (p + of_nat i))) [0..<n]"
  using copy_regions [OF assms] by (simp add: Ball_def)

theorem copy_between_regions_witness:
  "\<exists>m'. copy_data (load8 ex_sy) (store8 ex_sy) 0x10000 0x100000 (int 7) (mem ex_k1) = Some m' \<and>
    same_but ex_sy (frame_at ex_sy (mem ex_k1) ` {0x100000 + of_nat i |i. i < 7}) (mem ex_k1) m' \<and>
    map (\<lambda>i. ram m' (frame_at ex_sy (mem ex_k1) (0x100000 + of_nat i)) (offset_of (0x100000 + of_nat i))) [0..<7] =
      map (\<lambda>i. ram (mem ex_k1) (frame_at ex_sy (mem ex_k1) (0x10000 + of_nat i)) (offset_of (0x10000 + of_nat i))) [0..<7]"
proof (rule copy_between_regions)
  have "{0x10000 + of_nat i |i. i < (7 :: nat)} \<subseteq> kernel_area"
    by (auto intro!: kernel_area_range [of _ 7])
  moreover have "{0x100000 + of_nat i |i. i < (7 :: nat)} \<subseteq> user_area"
    using user_area_start by (auto simp: zeos_consts)
  ultimately show "separated ex_sy (mem ex_k1) {0x10000 + of_nat i |i. i < 7} {0x100000 + of_nat i |i. i < 7}"
    using areas_separated [OF ex_linked kernel_okD(10) [OF system_okD(1) [OF ex_k1(1)]]] by (simp add: boot_fields boot_procs_ok(3))
qed simp

text \<open>
  \<^bold>\<open>C30.\<close> The temporary page of \<^verbatim>\<open>sys_fork\<close>, at any page above the user area, in any state of the
  running kernel. The page is not mapped. After \<^verbatim>\<open>set_ss_pag\<close> it is: \<^verbatim>\<open>get_frame\<close>
  gives the frame, and a store to the page changes that byte of the frame and no other. After
  \<^verbatim>\<open>del_ss_pag\<close> a load still finds the byte, because the translation is in the TLB;
  \<^verbatim>\<open>set_cr3\<close> with the same directory drops it, the load then faults, and nothing differs
  from the state before but the byte and the emptied TLB.
\<close>

theorem temporary_mapping:
  assumes "linked sy" and "kernel_ok sy k a" and "page_of x < TOTAL_PAGES" and "PAG_LOG_INIT_CODE + NUM_PAG_CODE \<le> page_of x"
    and "f < 1024"
  shows "load8 sy (mem k) x = None \<and>
    (\<exists>m1 m2 m3. set_ss_pag sy (pt_addr sy (running a)) (page_of x) (of_nat f) (mem k) = Some m1 \<and>
      get_frame sy (pt_addr sy (running a)) (page_of x) m1 = Some (of_nat f) \<and>
      store8 sy m1 x v = Some m2 \<and> ram m2 = (ram (mem k))(f := (ram (mem k) f)(offset_of x := v)) \<and>
      del_ss_pag sy (pt_addr sy (running a)) (page_of x) m2 = Some m3 \<and> map_option fst (load8 sy m3 x) = Some v \<and>
      load8 sy (set_cr3 (dir_addr sy (running a)) m3) x = None \<and>
      set_cr3 (dir_addr sy (running a)) m3 = set_cr3 (dir_addr sy (running a)) ((mem k)\<lparr>ram := ram m2\<rparr>))"
proof -
  have "mem_ok sy (mem k) (live a) (running a)" using assms(2) by (simp add: kernel_ok_def)
  from window_ok [OF assms(1) this assms(3-5) refl, of v] show ?thesis by blast
qed

theorem temporary_mapping_witness:
  "load8 ex_sy (mem ex_k1) 0x200010 = None \<and>
    (\<exists>m1 m2 m3. set_ss_pag ex_sy (pt_addr ex_sy 1) 512 300 (mem ex_k1) = Some m1 \<and> store8 ex_sy m1 0x200010 7 = Some m2 \<and>
      ram m2 300 0x10 = 7 \<and> del_ss_pag ex_sy (pt_addr ex_sy 1) 512 m2 = Some m3 \<and> map_option fst (load8 ex_sy m3 0x200010) = Some 7 \<and>
      load8 ex_sy (set_cr3 (dir_addr ex_sy 1) m3) 0x200010 = None)"
proof -
  have p: "page_of 0x200010 = 512" "offset_of 0x200010 = 0x10" by (simp_all add: unat_page_of unat_offset_of)
  show ?thesis
    using temporary_mapping [OF ex_linked system_okD(1) [OF ex_k1(1)], of "0x200010" 300 7]
    by (auto simp: p zeos_consts boot_fields simp del: One_nat_def)
qed

text \<open>
  \<^bold>\<open>C31.\<close> \<^verbatim>\<open>access_ok\<close> in terms of pages, for any access type: the page of the address is a user
  page, the page of the address plus the size (computed modulo \<open>2 ^ 32\<close>) is not below it,
  and it is at most the page \<^emph>\<open>after\<close> the user area. In particular the type makes no
  difference: the code pages pass the check for writing.
\<close>

theorem access_ok_exact:
  "access_ok t a n = (PAG_LOG_INIT_DATA \<le> page_of a \<and> page_of a \<le> page_of (a + n) \<and>
    page_of (a + n) \<le> PAG_LOG_INIT_CODE + NUM_PAG_CODE)"
  by (simp only: access_ok_pages)

text \<open>
  \<^bold>\<open>C32.\<close> \<^verbatim>\<open>do_div\<close>, which divides a 64-bit number by two 32-bit \<^verbatim>\<open>divl\<close>
  instructions, computes the quotient and the remainder and faults only for base 0;
  \<^verbatim>\<open>get_ticks\<close> returns the 64-bit counter divided by the cycles per tick, truncated to
  32 bits.
\<close>

theorem wide_division:
  "do_div n base = (if base = 0 then None else Some (of_nat (unat n div unat base), of_nat (unat n mod unat base))) \<and>
    get_ticks tsc = Some (of_nat (unat tsc div unat CYCLESPERTICK))"
  using do_div_ok [of base n] get_ticks_ok [of tsc] by (auto simp: do_div_def divl_def)

text \<open>
  \<^bold>\<open>C33.\<close> \<^verbatim>\<open>itoa\<close> on every number and array. A negative number gives the empty string. For
  another one it writes inside the array exactly when the digits and the final zero fit, and then
  the array holds a text whose length \<^verbatim>\<open>strlen\<close> finds and whose value as a decimal numeral is
  the number, followed by a zero and what the array had there.
\<close>

theorem itoa_exact:
  "if sint a < 0 then itoa a b = (if b = [] then None else Some (0 # tl b))
   else if 2 \<le> length b \<and> sint a < 10 ^ (length b - 1)
   then \<exists>t r. itoa a b = Some (t @ 0 # r) \<and> strlen (t @ 0 # r) = Some (length t) \<and> r = drop (length t + 1) b \<and>
     length (t @ 0 # r) = length b \<and> digits_value 10 (map (\<lambda>c. uint c - 48) t) = sint a
   else itoa a b = None"
proof -
  let ?t = "number_text 10 dec_digit (sint a)"
  have eq: "itoa a b =
    (if sint a < 0 then (if b = [] then None else Some (0 # tl b))
     else if 2 \<le> length b \<and> sint a < 10 ^ (length b - 1) then Some (?t @ 0 # drop (Suc (length ?t)) b) else None)"
    by (cases b) (auto simp: itoa_text Let_def number_fits number_text_negative Suc_le_eq)
  show ?thesis
  proof (cases "0 \<le> sint a \<and> 2 \<le> length b \<and> sint a < 10 ^ (length b - 1)")
    case True
    let ?r = "drop (length ?t + 1) b"
    have "length ?t < length b" using True by (simp add: number_fits)
    then have "itoa a b = Some (?t @ 0 # ?r) \<and> strlen (?t @ 0 # ?r) = Some (length ?t) \<and> ?r = drop (length ?t + 1) b \<and>
      length (?t @ 0 # ?r) = length b \<and> digits_value 10 (map (\<lambda>c. uint c - 48) ?t) = sint a"
      using True eq number_text_dec_value [of "sint a"] strlen_spec [OF number_text_dec_nonzero] by simp
    moreover have "\<not> sint a < 0" using True by simp
    ultimately show ?thesis using True by (simp only: if_True if_False simp_thms) blast
  qed (auto simp: eq)
qed

text \<open>
  \<^bold>\<open>C34.\<close> A page fault in user mode or in the kernel, from the entry code to the report: the service gets the error code and the
  instruction pointer the processor pushed. When the error code has at most seven decimal digits
  and the instruction pointer and the fault address, as signed numbers, at most seven hexadecimal
  ones, the report with the kind of access and the three numbers is printed; otherwise the
  eight-byte array overflows.
\<close>

theorem page_fault_report:
  assumes "20 \<le> i"
  shows "fault_entry u base c err cr2 (st, i) k =
    (if sint err < 10 ^ 7 \<and> sint (c_eip c) < 16 ^ 7 \<and> sint cr2 < 16 ^ 7
     then Some (prints (fault_report (c_eip c) err cr2) k) else None)"
  unfolding fault_entry_ok [OF assms] by (rule segmentation_fault_eq)

theorem page_fault_report_witness:
  "fault_entry True 0x10000 ex_cpu 6 0x200000 (stack (task ex_k1 1), 1024) ex_k1 = Some (prints (fault_report (c_eip ex_cpu) 6 0x200000) ex_k1) \<and>
    fault_entry False 0x10000 ex_cpu 6 0x40000000 (stack (task ex_k1 1), 1024) ex_k1 = None"
  by (simp add: page_fault_report) (simp add: ex_cpu_def)

text \<open>
  \<^bold>\<open>C35.\<close> \<^verbatim>\<open>printk\<close> of a zero-terminated string with the cursor on the screen: the characters
  go to port \<^verbatim>\<open>0xe9\<close> in order, the cursor stays on the 80 by 25 screen whatever they
  are, and video memory beyond the screen does not change.
\<close>

theorem console_stays_on_screen:
  assumes "cursor_ok s" and "0 \<notin> set xs"
  shows "\<exists>s'. printk (xs @ 0 # r) s = Some s' \<and> cursor_ok s' \<and> port_e9 s' = port_e9 s @ xs \<and> off_screen s' = off_screen s"
  using assms printk_text [OF assms(2)] console.ok_fold console.out_fold off_screen_prints by simp

theorem console_stays_on_screen_witness:
  "\<exists>s'. printk [72, 105, 10, 0] init_screen = Some s' \<and> cursor_ok s' \<and> port_e9 s' = port_e9 init_screen @ [72, 105, 10] \<and>
    off_screen s' = off_screen init_screen"
  using console_stays_on_screen [of init_screen "[72, 105, 10]" "[]"]
  by (simp add: cursor_ok_def init_screen_def NUM_COLUMNS_def NUM_ROWS_def)

text \<open>
  \<^bold>\<open>C36.\<close> After \<^verbatim>\<open>setIdt\<close> the gates of vectors 14, 32, 33 and 128 hold the addresses of the four
  entry points, all four are interrupt gates (the routines run with interrupts off), only the
  system-call gate is reachable from privilege level 3, every other gate
  is as \<^verbatim>\<open>set_handlers\<close> left it, and the limit is the index of the last byte of the table.
\<close>

theorem idt_programmed:
  "\<exists>t. setIdt sh sy ep t0 = Some (t, \<lparr>r_limit = 2047, r_base = a_idt sy\<rparr>) \<and>
    gate_offset (t 32) = clock_handler ep \<and> gate_offset (t 33) = keyboard_handler ep \<and>
    gate_offset (t 14) = segmentation_fault_handler ep \<and> gate_offset (t 128) = system_call_handler_addr ep \<and>
    gflags (t 128) = 0xEE00 \<and> gflags (t 32) = 0x8E00 \<and> gflags (t 33) = 0x8E00 \<and> gflags (t 14) = 0x8E00 \<and>
    t = (sh t0)(14 := t 14, 32 := t 32, 33 := t 33, 128 := t 128)"
  using setIdt_gates [of sh sy ep t0] by (fastforce simp: fun_eq_iff)

text \<open>
  \<^bold>\<open>C37.\<close> \<^verbatim>\<open>sched_next_rr\<close> prints the PID of the process it chooses through an array of three
  bytes: when the quantum is spent and the head of the ready queue has a PID of 100 or more,
  \<^verbatim>\<open>scheduler\<close> has no defined result.
\<close>

theorem three_digit_pid_overruns:
  assumes "linked sy" and "kernel_ok sy k a" and "entered sy k (running a)"
    and "ready a \<noteq> []" and "sint (quantum_ticks k - 1) < 0" and "100 \<le> sint (PID (task k (hd (ready a))))"
  shows "scheduler sy k = None"
  by (rule scheduler_overrun [OF assms])

theorem three_digit_pid_overruns_witness: "scheduler ex_sy ex_k9 = None"
  by (rule three_digit_pid_overruns [OF ex_linked ex_k9(1)]) (use ex_k9(2-4) in \<open>simp_all add: ex_p2_fields\<close>)

text \<open>
  \<^bold>\<open>C38.\<close> Once the idle task is on the processor it stays there in every run without test keys, and
  the process table with it: only a running process can unblock another, and neither the clock nor
  a key makes one ready. (The test keys \<^verbatim>\<open>n\<close> and \<^verbatim>\<open>c\<close> switch to fixed slots of the task
  array, whatever is in them.)
\<close>

theorem idle_never_left:
  assumes "path (step show_clock sy) k es k'" and "list_all ordinary es" and "linked sy" and "keeps_cursor show_clock"
    and "system_ok sy k a" and "on_cpu sy k = 0"
  shows "system_ok sy k' a \<and> on_cpu sy k' = 0"
  by (rule idle_for_ever [OF assms])

theorem idle_never_left_witness: "\<exists>k k'. path (step ex_clock ex_sy) k [Tick] k' \<and> system_ok ex_sy k' ex_p7 \<and> on_cpu ex_sy k' = 0"
proof -
  obtain k where k: "system_ok ex_sy k ex_p7" "on_cpu ex_sy k = 0" "small_pids k ex_p7" using ex_idle by blast
  obtain k' where "step ex_clock ex_sy k Tick k'" using tick_step(1) [OF ex_linked ex_clock k(1,3)] by blast
  then have "path (step ex_clock ex_sy) k [Tick] k'" by (rule path_one)
  then show ?thesis using idle_never_left [OF _ _ ex_linked ex_clock k(1,2), of "[Tick]" k'] by auto
qed

text \<open>
  \<^bold>\<open>C39.\<close> The test key \<^verbatim>\<open>d\<close> calls \<^verbatim>\<open>task_switch\<close> behind the scheduler's back: the idle
  task is on the processor, the queues are as before, and the state satisfies the invariant for
  no process table, because the interrupted process is in no queue.
\<close>

theorem test_key_breaks_queues:
  assumes "linked sy" and "kernel_ok sy k a" and "entered sy k (running a)" and "running a \<noteq> 0"
    and "inb ports 0x60 = 0xA0"
  shows "\<exists>k'. keyboard_service sy ports k = Some k' \<and> on_cpu sy k' = 0 \<and> lists k' = lists k \<and> (\<nexists>b. kernel_ok sy k' b)"
  by (rule key_d_switches [OF assms])

theorem test_key_breaks_queues_witness:
  "\<exists>k'. keyboard_service ex_sy (\<lambda>_. 0xA0) ex_k1 = Some k' \<and> on_cpu ex_sy k' = 0 \<and> lists k' = lists ex_k1 \<and> (\<nexists>b. kernel_ok ex_sy k' b)"
  using test_key_breaks_queues [OF ex_linked system_okD(1) [OF ex_k1(1)], of "\<lambda>_. 0xA0"] ex_k1(2) by (simp add: boot_fields inb_def)

text \<open>
  \<^bold>\<open>C40.\<close> The library routine \<^verbatim>\<open>unblock\<close> puts its argument in \<^verbatim>\<open>ebx\<close>, but
  \<^verbatim>\<open>sys_unblock\<close> takes its argument from \<^verbatim>\<open>edx\<close>: the effect does not depend on
  the argument and is that of \<^verbatim>\<open>sys_unblock\<close> on what \<^verbatim>\<open>edx\<close> holds.
\<close>

theorem unblock_wrapper_ignores_argument:
  "unblock_call sy pid r k = do { (v, k) \<leftarrow> sys_unblock sy (r_edx r) k; Some (wrapper_end v, k) }"
  by (rule unblock_call_spec)

end
